(* ===== verification/Prelude.thy ===== *)
theory Prelude
  imports Main "HOL-Library.Sublist"
begin

text \<open>
  Shared vocabulary of the development: bytes and byte strings, the three-way result of a Rust
  call (a value, an error value, or a panic), slices, the search for a byte string with
  \<open>windows(n).position(..)\<close>, and the generic list facts the components use.

  A byte (\<open>u8\<close>) is HOL's 8-bit \<open>char\<close>, so that the byte-string literals of the source
  (\<open>b"data: [DONE]"\<close>) are HOL string literals; a \<open>Bytes\<close>, \<open>BytesMut\<close>, \<open>Vec<u8>\<close>, \<open>String\<close>
  or \<open>&str\<close> is the list of its bytes (Rust strings are their UTF-8 encoding).
\<close>

type_synonym byte = char
type_synonym bytes = "char list"

section \<open>Outcomes of a call\<close>

text \<open>
  \<open>Ok\<close> and \<open>Err\<close> are the constructors of Rust's \<open>Result\<close>; \<open>Panic\<close> is a call that panics
  (a failed \<open>assert!\<close>, \<open>expect\<close>, or an index or slice out of range).
\<close>

datatype ('a, 'e) outcome = Ok 'a | Err 'e | Panic

primrec obind :: "('a, 'e) outcome \<Rightarrow> ('a \<Rightarrow> ('b, 'e) outcome) \<Rightarrow> ('b, 'e) outcome" where
  "obind (Ok x) f = f x"
| "obind (Err e) f = Err e"
| "obind Panic f = Panic"

lemma obind_eq_Ok [simp]: "obind r f = Ok y \<longleftrightarrow> (\<exists>x. r = Ok x \<and> f x = Ok y)"
  by (cases r) auto

lemma obind_Ok_right [simp]: "obind r Ok = r"
  by (cases r) auto

lemma obind_assoc: "obind (obind r f) g = obind r (\<lambda>x. obind (f x) g)"
  by (cases r) auto

section \<open>Slices\<close>

definition slice :: "'a list \<Rightarrow> nat \<Rightarrow> nat \<Rightarrow> 'a list" where
  "slice xs s e = take (e - s) (drop s xs)"

lemma length_slice [simp]: "s \<le> e \<Longrightarrow> e \<le> length xs \<Longrightarrow> length (slice xs s e) = e - s"
  by (simp add: slice_def)

lemma slice_refl [simp]: "slice xs s s = []"
  by (simp add: slice_def)

lemma slice_0 [simp]: "slice xs 0 e = take e xs"
  by (simp add: slice_def)

lemma slice_to_end [simp]: "length xs \<le> e \<Longrightarrow> slice xs s e = drop s xs"
  by (simp add: slice_def)

lemma slice_append_left: "e \<le> length xs \<Longrightarrow> slice (xs @ ys) s e = slice xs s e"
  by (cases "s \<le> e") (auto simp: slice_def)

lemma slice_append_right:
  "length xs \<le> s \<Longrightarrow> slice (xs @ ys) s e = slice ys (s - length xs) (e - length xs)"
  by (simp add: slice_def)

lemma slice_shift: "slice (xs @ ys) (length xs + s) (length xs + e) = slice ys s e"
  by (simp add: slice_def)

lemma slice_glue: "s \<le> m \<Longrightarrow> m \<le> e \<Longrightarrow> slice xs s m @ slice xs m e = slice xs s e"
proof -
  assume sm: "s \<le> m" and me: "m \<le> e"
  then have "drop m xs = drop (m - s) (drop s xs)" and "e - s = (m - s) + (e - m)" by simp_all
  then show ?thesis by (simp add: slice_def take_add)
qed

lemma slice_glue_take: "m \<le> e \<Longrightarrow> take m xs @ slice xs m e = take e xs"
  using slice_glue [of 0 m e xs] by simp

lemma slice_take: "e \<le> n \<Longrightarrow> slice (take n xs) s e = slice xs s e"
  by (simp add: slice_def drop_take min_def)

lemma slice_drop: "slice (drop n xs) s e = slice xs (n + s) (n + e)"
  by (simp add: slice_def add.commute)

text \<open>\<open>xs[s..e]\<close> and \<open>xs[i]\<close> of the source, which panic out of range.\<close>

definition slice_checked :: "'a list \<Rightarrow> nat \<Rightarrow> nat \<Rightarrow> ('a list, 'e) outcome" where
  "slice_checked xs s e = (if s \<le> e \<and> e \<le> length xs then Ok (slice xs s e) else Panic)"

definition nth_checked :: "'a list \<Rightarrow> nat \<Rightarrow> ('a, 'e) outcome" where
  "nth_checked xs i = (if i < length xs then Ok (xs ! i) else Panic)"

section \<open>The search of a byte string\<close>

text \<open>\<open>occurs_at pat xs i\<close>: the window of \<open>xs\<close> at \<open>i\<close> is \<open>pat\<close>.\<close>

definition occurs_at :: "'a list \<Rightarrow> 'a list \<Rightarrow> nat \<Rightarrow> bool" where
  "occurs_at pat xs i \<longleftrightarrow> take (length pat) (drop i xs) = pat"

text \<open>\<open>xs.windows(pat.len()).position(|w| w == pat)\<close>\<close>

fun position_window :: "'a list \<Rightarrow> 'a list \<Rightarrow> nat option" where
  "position_window pat [] = (if pat = [] then Some 0 else None)"
| "position_window pat (x # xs) =
     (if take (length pat) (x # xs) = pat then Some 0
      else map_option Suc (position_window pat xs))"

lemma occurs_at_0: "occurs_at pat xs 0 \<longleftrightarrow> take (length pat) xs = pat"
  by (simp add: occurs_at_def)

lemma occurs_at_Suc: "occurs_at pat (x # xs) (Suc i) \<longleftrightarrow> occurs_at pat xs i"
  by (simp add: occurs_at_def)

lemma occurs_at_length: "occurs_at pat xs i \<Longrightarrow> pat \<noteq> [] \<Longrightarrow> i + length pat \<le> length xs"
proof -
  assume "occurs_at pat xs i" and ne: "pat \<noteq> []"
  then have eq: "length (take (length pat) (drop i xs)) = length pat"
    by (simp add: occurs_at_def)
  then have "length pat \<le> length xs - i" by simp
  with ne show ?thesis by (cases pat) auto
qed

lemma position_window_None: "position_window pat xs = None \<Longrightarrow> \<not> occurs_at pat xs i"
proof (induction xs arbitrary: i)
  case Nil
  then show ?case by (auto simp: occurs_at_def split: if_splits)
next
  case (Cons x xs)
  then show ?case by (cases i) (auto simp: occurs_at_0 occurs_at_Suc split: if_splits)
qed

lemma position_window_Some:
  "position_window pat xs = Some i \<Longrightarrow> occurs_at pat xs i \<and> (\<forall>j < i. \<not> occurs_at pat xs j)"
proof (induction xs arbitrary: i)
  case Nil
  then show ?case by (auto simp: occurs_at_def split: if_splits)
next
  case (Cons x xs)
  then show ?case
    by (auto simp: occurs_at_0 occurs_at_Suc less_Suc_eq_0_disj split: if_splits)
qed

lemma position_window_iff:
  "(\<exists>i. position_window pat xs = Some i) \<longleftrightarrow> (\<exists>i. occurs_at pat xs i)"
  using position_window_None position_window_Some
  by (metis option.exhaust)

lemma occurs_at_append_left: "i + length pat \<le> length xs \<Longrightarrow> occurs_at pat (xs @ ys) i = occurs_at pat xs i"
  by (simp add: occurs_at_def)

lemma occurs_at_append_right:
  "length xs \<le> i \<Longrightarrow> occurs_at pat (xs @ ys) i = occurs_at pat ys (i - length xs)"
  by (simp add: occurs_at_def)

lemma position_window_eq_Some:
  assumes "occurs_at pat xs i" and "\<And>j. j < i \<Longrightarrow> \<not> occurs_at pat xs j"
  shows "position_window pat xs = Some i"
proof -
  obtain k where k: "position_window pat xs = Some k" using assms(1) position_window_iff by metis
  then have "occurs_at pat xs k" "\<And>j. j < k \<Longrightarrow> \<not> occurs_at pat xs j" using position_window_Some by blast+
  then have "k = i" using assms by (meson nat_neq_iff)
  with k show ?thesis by simp
qed

lemma position_window_eq_None: "(\<And>i. \<not> occurs_at pat xs i) \<Longrightarrow> position_window pat xs = None"
  using position_window_iff [of pat xs] by (cases "position_window pat xs") auto

lemma position_window_first: "c \<notin> set l \<Longrightarrow> position_window (c # p) (l @ c # p @ t) = Some (length l)"
  by (induction l) auto

text \<open>A new occurrence after one more element is at the very end.\<close>

lemma occurs_at_snoc:
  assumes "position_window pat xs = None" and "pat \<noteq> []" and "occurs_at pat (xs @ [b]) i"
  shows "i + length pat = Suc (length xs)"
proof (rule ccontr)
  assume ne: "i + length pat \<noteq> Suc (length xs)"
  have "i + length pat \<le> length (xs @ [b])" using occurs_at_length [OF assms(3,2)] .
  then have "i + length pat \<le> length xs" using ne by simp
  then show False using assms(3) position_window_None [OF assms(1)] occurs_at_append_left by metis
qed

lemma position_window_snoc_None:
  assumes "position_window pat xs = None" and "pat \<noteq> []" and "\<not> suffix pat (xs @ [b])"
  shows "position_window pat (xs @ [b]) = None"
proof (rule position_window_eq_None)
  fix i show "\<not> occurs_at pat (xs @ [b]) i"
  proof
    assume o: "occurs_at pat (xs @ [b]) i"
    from occurs_at_snoc [OF assms(1,2) o] have "length (drop i (xs @ [b])) \<le> length pat" by simp
    with o have "drop i (xs @ [b]) = pat" by (metis occurs_at_def take_all)
    then show False using assms(3) by (metis suffix_drop)
  qed
qed

lemma position_window_snoc_Some:
  assumes "position_window pat xs = None" and "pat \<noteq> []" and "suffix pat (xs @ [b])"
  shows "position_window pat (xs @ b # ys) = Some (Suc (length xs) - length pat)"
proof -
  let ?i = "Suc (length xs) - length pat"
  obtain us where us: "xs @ [b] = us @ pat" using assms(3) by (auto simp: suffix_def)
  then have len: "length us = ?i" by (metis add_diff_cancel_right' length_append length_append_singleton)
  have eq: "xs @ b # ys = us @ pat @ ys" using us by (metis append.assoc append_Cons append_Nil)
  show ?thesis
  proof (rule position_window_eq_Some)
    show "occurs_at pat (xs @ b # ys) ?i" by (simp add: eq occurs_at_def flip: len)
  next
    fix j assume j: "j < ?i"
    show "\<not> occurs_at pat (xs @ b # ys) j"
    proof
      assume "occurs_at pat (xs @ b # ys) j"
      moreover have "j + length pat \<le> length xs" using j by simp
      ultimately have "occurs_at pat xs j" using occurs_at_append_left by blast
      then show False using position_window_None [OF assms(1)] by blast
    qed
  qed
qed

section \<open>Suffixes of a given length\<close>

text \<open>\<open>last_n n xs\<close>: the last \<open>n\<close> elements, or all of them when there are fewer.\<close>

definition last_n :: "nat \<Rightarrow> 'a list \<Rightarrow> 'a list" where
  "last_n n xs = drop (length xs - n) xs"

lemma length_last_n [simp]: "length (last_n n xs) = min n (length xs)"
  by (simp add: last_n_def)

lemma last_n_append_long: "n \<le> length ys \<Longrightarrow> last_n n (xs @ ys) = last_n n ys"
  by (simp add: last_n_def)

lemma last_n_append_last_n: "last_n n (last_n n xs @ ys) = last_n n (xs @ ys)"
  by (cases "length xs \<le> n") (auto simp: last_n_def add.commute)

lemma last_n_short [simp]: "length xs \<le> n \<Longrightarrow> last_n n xs = xs"
  by (simp add: last_n_def)

lemma take_last_n: "take (length xs - n) xs @ last_n n xs = xs"
  by (simp add: last_n_def)

section \<open>Running a step over a sequence of inputs\<close>

text \<open>The loop of a task: one step per input, the outputs in order, the first failure ends it.\<close>

fun run_steps ::
  "('s \<Rightarrow> 'i \<Rightarrow> ('s \<times> 'o list, 'e) outcome) \<Rightarrow> 's \<Rightarrow> 'i list \<Rightarrow> ('s \<times> 'o list, 'e) outcome" where
  "run_steps step s [] = Ok (s, [])"
| "run_steps step s (i # is) =
     obind (step s i) (\<lambda>(s', out). obind (run_steps step s' is) (\<lambda>(s'', out').
       Ok (s'', out @ out')))"

lemma run_steps_append:
  "run_steps step s (xs @ ys) =
     obind (run_steps step s xs) (\<lambda>(s', out). obind (run_steps step s' ys) (\<lambda>(s'', out').
       Ok (s'', out @ out')))"
proof (induction xs arbitrary: s)
  case Nil
  show ?case by (cases "run_steps step s ys") auto
next
  case (Cons x xs)
  show ?case
  proof (cases "step s x")
    case (Ok r)
    obtain s1 o1 where r: "r = (s1, o1)" by (cases r)
    show ?thesis
    proof (cases "run_steps step s1 xs")
      case (Ok r')
      obtain s2 o2 where "r' = (s2, o2)" by (cases r')
      then show ?thesis using \<open>step s x = outcome.Ok r\<close> r Ok Cons.IH [of s1]
        by (cases "run_steps step s2 ys") auto
    qed (use Ok r Cons.IH [of s1] in auto)
  qed auto
qed

text \<open>
  A stage that forwards bytes, possibly holding some back: \<open>held\<close> is what it has not yet sent, and a
  step never fails and neither loses, invents nor reorders bytes.
\<close>

locale byte_stage =
  fixes step :: "'s \<Rightarrow> bytes \<Rightarrow> ('s \<times> 'o list, 'e) outcome"
    and invariant :: "'s \<Rightarrow> bool"
    and held :: "'s \<Rightarrow> bytes"
    and payload :: "'o \<Rightarrow> bytes"
  assumes step_conserves: "invariant s \<Longrightarrow> \<exists>s' out. step s c = Ok (s', out) \<and> invariant s'
    \<and> concat (map payload out) @ held s' = held s @ c"
begin

lemma run_conserves:
  "invariant s \<Longrightarrow> \<exists>s' out. run_steps step s cs = Ok (s', out) \<and> invariant s'
    \<and> concat (map payload out) @ held s' = held s @ concat cs"
proof (induction cs arbitrary: s)
  case (Cons c cs)
  from step_conserves [OF Cons.prems, of c] obtain s1 out1
    where 1: "step s c = Ok (s1, out1)" "invariant s1"
      "concat (map payload out1) @ held s1 = held s @ c" by blast
  from Cons.IH [OF 1(2)] obtain s2 out2
    where 2: "run_steps step s1 cs = Ok (s2, out2)" "invariant s2"
      "concat (map payload out2) @ held s2 = held s1 @ concat cs" by blast
  have "concat (map payload (out1 @ out2)) @ held s2 = held s @ concat (c # cs)"
    using 1(3) 2(3) by simp
  then show ?case using 1 2 by auto
qed simp

end

text \<open>The same loop for a step that cannot fail, used for the abstract machines.\<close>

fun run_abstract :: "('a \<Rightarrow> 'i \<Rightarrow> 'a \<times> 'o list) \<Rightarrow> 'a \<Rightarrow> 'i list \<Rightarrow> 'a \<times> 'o list" where
  "run_abstract astep a [] = (a, [])"
| "run_abstract astep a (i # is) =
     (let (a', out) = astep a i; (a'', out') = run_abstract astep a' is in (a'', out @ out'))"

text \<open>
  A step that implements an abstract one: on the inputs \<open>admissible\<close> it returns, keeps the invariant,
  and has the output and the effect of the abstract step under the abstraction function.
\<close>

locale implements =
  fixes step :: "'s \<Rightarrow> 'i \<Rightarrow> ('s \<times> 'o list, 'e) outcome"
    and invariant :: "'s \<Rightarrow> bool"
    and admissible :: "'i \<Rightarrow> bool"
    and abstraction :: "'s \<Rightarrow> 'a"
    and astep :: "'a \<Rightarrow> 'i \<Rightarrow> 'a \<times> 'o list"
  assumes step_implements: "invariant s \<Longrightarrow> admissible i \<Longrightarrow>
    \<exists>s' out. step s i = Ok (s', out) \<and> invariant s' \<and> astep (abstraction s) i = (abstraction s', out)"
begin

lemma run_implements:
  "invariant s \<Longrightarrow> list_all admissible is \<Longrightarrow>
   \<exists>s' out. run_steps step s is = Ok (s', out) \<and> invariant s' \<and> run_abstract astep (abstraction s) is = (abstraction s', out)"
proof (induction "is" arbitrary: s)
  case (Cons i "is")
  from step_implements [OF Cons.prems(1), of i] Cons.prems(2) obtain s1 out1
    where 1: "step s i = Ok (s1, out1)" "invariant s1" "astep (abstraction s) i = (abstraction s1, out1)" by auto
  from Cons.IH [OF 1(2)] Cons.prems(2) obtain s2 out2
    where "run_steps step s1 is = Ok (s2, out2)" "invariant s2"
      "run_abstract astep (abstraction s1) is = (abstraction s2, out2)" by auto
  with 1 show ?case by auto
qed simp

end

end
