(* ===== verification/Utf8.thy ===== *)
theory Utf8
  imports Prelude
begin

text \<open>
  The part of Rust's \<open>core::str\<close> the proxy uses: UTF-8 validation with the position and length
  of the first error (\<open>std::str::from_utf8\<close>, \<open>Utf8Error::valid_up_to\<close>, \<open>Utf8Error::error_len\<close>),
  \<open>str::is_char_boundary\<close> and \<open>String::from_utf8_lossy\<close>. The lemmas say how validation behaves
  on a stream that is cut at an arbitrary byte, which is what the stream redactor relies on.
\<close>

section \<open>Validation\<close>

text \<open>A continuation byte, \<open>(b as i8) < -64\<close>.\<close>

definition is_cont :: "byte \<Rightarrow> bool" where
  "is_cont b \<longleftrightarrow> 128 \<le> (of_char b :: nat) \<and> (of_char b :: nat) \<le> 191"

definition byte_in :: "nat \<Rightarrow> nat \<Rightarrow> byte \<Rightarrow> bool" where
  "byte_in lo hi b \<longleftrightarrow> lo \<le> (of_char b :: nat) \<and> (of_char b :: nat) \<le> hi"

text \<open>What must follow a leading byte; \<open>None\<close> for a byte that cannot lead.\<close>

definition utf8_tail :: "byte \<Rightarrow> (byte \<Rightarrow> bool) list option" where
  "utf8_tail b =
     (let n = (of_char b :: nat) in
      if n < 128 then Some []
      else if n < 194 then None
      else if n \<le> 223 then Some [is_cont]
      else if n = 224 then Some [byte_in 160 191, is_cont]
      else if n \<le> 236 then Some [is_cont, is_cont]
      else if n = 237 then Some [byte_in 128 159, is_cont]
      else if n \<le> 239 then Some [is_cont, is_cont]
      else if n = 240 then Some [byte_in 144 191, is_cont, is_cont]
      else if n \<le> 243 then Some [is_cont, is_cont, is_cont]
      else if n = 244 then Some [byte_in 128 143, is_cont, is_cont]
      else None)"

text \<open>
  One scalar value is read: its width, or the input ends inside it, or a byte does not fit after
  the first \<open>k\<close> (\<open>error_len = Some k\<close>).
\<close>

datatype utf8_step = Scalar nat | Truncated | Malformed nat

fun match_tail :: "nat \<Rightarrow> (byte \<Rightarrow> bool) list \<Rightarrow> bytes \<Rightarrow> utf8_step" where
  "match_tail k [] cs = Scalar k"
| "match_tail k (P # Ps) [] = Truncated"
| "match_tail k (P # Ps) (c # cs) = (if P c then match_tail (Suc k) Ps cs else Malformed k)"

definition utf8_next :: "byte \<Rightarrow> bytes \<Rightarrow> utf8_step" where
  "utf8_next b rest =
     (case utf8_tail b of None \<Rightarrow> Malformed 1 | Some Ps \<Rightarrow> match_tail 1 Ps rest)"

text \<open>\<open>Utf8_Err valid_up_to error_len\<close>\<close>

datatype utf8_result = Utf8_Ok | Utf8_Err nat "nat option"

function run_utf8 :: "nat \<Rightarrow> bytes \<Rightarrow> utf8_result" where
  "run_utf8 off [] = Utf8_Ok"
| "run_utf8 off (b # rest) =
     (case utf8_next b rest of
        Scalar w \<Rightarrow> run_utf8 (off + w) (drop (w - 1) rest)
      | Truncated \<Rightarrow> Utf8_Err off None
      | Malformed k \<Rightarrow> Utf8_Err off (Some k))"
  by pat_completeness auto
termination
  by (relation "measure (\<lambda>(off, xs). length xs)") auto

definition from_utf8 :: "bytes \<Rightarrow> utf8_result" where
  "from_utf8 xs = run_utf8 0 xs"

definition valid_utf8 :: "bytes \<Rightarrow> bool" where
  "valid_utf8 xs \<longleftrightarrow> from_utf8 xs = Utf8_Ok"

text \<open>\<open>str::is_char_boundary\<close>\<close>

definition is_char_boundary :: "bytes \<Rightarrow> nat \<Rightarrow> bool" where
  "is_char_boundary xs i \<longleftrightarrow>
     (if i = 0 then True else if i \<ge> length xs then i = length xs else \<not> is_cont (xs ! i))"

section \<open>Reading one scalar value\<close>

lemma match_tail_Scalar:
  "match_tail k Ps cs = Scalar w \<Longrightarrow>
     w = k + length Ps \<and> length Ps \<le> length cs \<and> list_all2 (\<lambda>P c. P c) Ps (take (length Ps) cs)"
  by (induction k Ps cs rule: match_tail.induct) (auto split: if_splits)

lemma match_tail_prefix:
  "match_tail k Ps (cs @ ds) = Scalar w \<Longrightarrow>
     (match_tail k Ps cs = Scalar w \<and> length Ps \<le> length cs) \<or>
     (match_tail k Ps cs = Truncated \<and> length cs < length Ps)"
  by (induction k Ps cs rule: match_tail.induct) (auto split: if_splits)

lemma match_tail_extend: "match_tail k Ps cs = Scalar w \<Longrightarrow> match_tail k Ps (cs @ ds) = Scalar w"
  by (induction k Ps cs rule: match_tail.induct) (auto split: if_splits)

lemma match_tail_Truncated: "match_tail k Ps cs = Truncated \<Longrightarrow> length cs < length Ps"
  by (induction k Ps cs rule: match_tail.induct) (auto split: if_splits)

lemma match_tail_Malformed: "match_tail k Ps cs = Malformed n \<Longrightarrow> k \<le> n \<and> n < k + length cs"
  by (induction k Ps cs rule: match_tail.induct) (auto split: if_splits)

lemma match_tail_exact:
  "match_tail k Ps cs = Scalar w \<Longrightarrow> match_tail k Ps (take (length Ps) cs) = Scalar w"
  by (induction k Ps cs rule: match_tail.induct) (auto split: if_splits)

lemma utf8_tail_length: "utf8_tail b = Some Ps \<Longrightarrow> length Ps \<le> 3"
  by (auto simp: utf8_tail_def Let_def split: if_splits)

lemma utf8_tail_cont: "utf8_tail b = Some Ps \<Longrightarrow> P \<in> set Ps \<Longrightarrow> P c \<Longrightarrow> is_cont c"
  by (auto simp: utf8_tail_def Let_def is_cont_def byte_in_def split: if_splits)

lemma utf8_tail_lead: "utf8_tail b = Some Ps \<Longrightarrow> \<not> is_cont b"
  by (auto simp: utf8_tail_def Let_def is_cont_def split: if_splits)

lemma utf8_next_Scalar:
  assumes "utf8_next b rest = Scalar w"
  shows "1 \<le> w" and "w \<le> 4" and "w - 1 \<le> length rest" and "\<not> is_cont b"
    and "\<forall>c \<in> set (take (w - 1) rest). is_cont c"
    and "utf8_next b (take (w - 1) rest) = Scalar w"
proof -
  from assms obtain Ps where Ps: "utf8_tail b = Some Ps" and m: "match_tail 1 Ps rest = Scalar w"
    by (auto simp: utf8_next_def split: option.splits)
  from match_tail_Scalar [OF m] have w: "w = 1 + length Ps" and len: "length Ps \<le> length rest"
    and all: "list_all2 (\<lambda>P c. P c) Ps (take (length Ps) rest)" by auto
  show "1 \<le> w" using w by simp
  show "w \<le> 4" using w utf8_tail_length [OF Ps] by simp
  show "w - 1 \<le> length rest" using w len by simp
  show "\<not> is_cont b" using Ps by (rule utf8_tail_lead)
  show "\<forall>c \<in> set (take (w - 1) rest). is_cont c"
  proof
    fix c assume "c \<in> set (take (w - 1) rest)"
    with w have "c \<in> set (take (length Ps) rest)" by simp
    then obtain i where "i < length Ps" "c = take (length Ps) rest ! i"
      using len by (auto simp: in_set_conv_nth)
    with all have "(Ps ! i) c" by (simp add: list_all2_conv_all_nth)
    with \<open>i < length Ps\<close> show "is_cont c" using utf8_tail_cont [OF Ps] nth_mem by blast
  qed
  show "utf8_next b (take (w - 1) rest) = Scalar w"
    using Ps match_tail_exact [OF m] w by (simp add: utf8_next_def)
qed

lemma utf8_next_extend: "utf8_next b rest = Scalar w \<Longrightarrow> utf8_next b (rest @ ys) = Scalar w"
  by (auto simp: utf8_next_def match_tail_extend split: option.splits)

lemma utf8_next_prefix:
  "utf8_next b (xs @ ys) = Scalar w \<Longrightarrow>
     (utf8_next b xs = Scalar w \<and> w - 1 \<le> length xs) \<or>
     (utf8_next b xs = Truncated \<and> length xs < w - 1)"
  using match_tail_prefix [of 1 _ xs ys w] match_tail_Scalar
  by (fastforce simp: utf8_next_def split: option.splits)

lemma utf8_next_Truncated: "utf8_next b rest = Truncated \<Longrightarrow> length rest < 3"
  using match_tail_Truncated utf8_tail_length
  by (fastforce simp: utf8_next_def split: option.splits)

lemma utf8_next_Malformed: "utf8_next b rest = Malformed k \<Longrightarrow> 1 \<le> k \<and> k \<le> Suc (length rest)"
  using match_tail_Malformed
  by (fastforce simp: utf8_next_def split: option.splits)

section \<open>Validation of a whole buffer\<close>

primrec utf8_shift :: "nat \<Rightarrow> utf8_result \<Rightarrow> utf8_result" where
  "utf8_shift d Utf8_Ok = Utf8_Ok"
| "utf8_shift d (Utf8_Err k e) = Utf8_Err (d + k) e"

lemma utf8_shift_shift [simp]: "utf8_shift a (utf8_shift b r) = utf8_shift (a + b) r"
  by (cases r) (simp_all add: add.assoc)

lemma utf8_shift_Ok [simp]: "utf8_shift d r = Utf8_Ok \<longleftrightarrow> r = Utf8_Ok"
  by (cases r) auto

lemma run_utf8_add: "run_utf8 (d + off) xs = utf8_shift d (run_utf8 off xs)"
  by (induction off xs rule: run_utf8.induct) (auto simp: add.assoc split: utf8_step.splits)

lemma run_utf8_offset: "run_utf8 off xs = utf8_shift off (from_utf8 xs)"
  using run_utf8_add [of off 0 xs] by (simp add: from_utf8_def)

lemma from_utf8_Nil [simp]: "from_utf8 [] = Utf8_Ok"
  by (simp add: from_utf8_def)

lemma from_utf8_Cons:
  "from_utf8 (b # rest) =
     (case utf8_next b rest of
        Scalar w \<Rightarrow> utf8_shift w (from_utf8 (drop (w - 1) rest))
      | Truncated \<Rightarrow> Utf8_Err 0 None
      | Malformed k \<Rightarrow> Utf8_Err 0 (Some k))"
proof (cases "utf8_next b rest")
  case (Scalar w)
  then show ?thesis
    using run_utf8_offset [of w "drop (w - 1) rest"] by (simp add: from_utf8_def)
qed (simp_all add: from_utf8_def)

lemma valid_utf8_Nil [simp]: "valid_utf8 []"
  by (simp add: valid_utf8_def)

lemma valid_utf8_Cons:
  "valid_utf8 (b # rest) \<longleftrightarrow>
     (\<exists>w. utf8_next b rest = Scalar w \<and> valid_utf8 (drop (w - 1) rest))"
  by (auto simp: valid_utf8_def from_utf8_Cons split: utf8_step.splits)

text \<open>Induction over the scalar values of a valid string.\<close>

lemma valid_utf8_induct [consumes 1, case_names Nil Scalar]:
  assumes "valid_utf8 xs" and "P []"
    and "\<And>b t rest. utf8_next b t = Scalar (Suc (length t)) \<Longrightarrow> valid_utf8 rest \<Longrightarrow> P rest \<Longrightarrow>
           P (b # t @ rest)"
  shows "P xs"
  using assms(1)
proof (induction xs rule: length_induct)
  case (1 xs)
  show ?case
  proof (cases xs)
    case Nil
    with assms(2) show ?thesis by simp
  next
    case (Cons b r)
    with "1.prems" obtain w where w: "utf8_next b r = Scalar w" and v: "valid_utf8 (drop (w - 1) r)"
      by (auto simp: valid_utf8_Cons)
    have "P (drop (w - 1) r)" using "1.IH" v Cons by simp
    moreover have "utf8_next b (take (w - 1) r) = Scalar (Suc (length (take (w - 1) r)))"
      using utf8_next_Scalar [OF w] by (simp add: min_absorb2)
    ultimately have "P (b # take (w - 1) r @ drop (w - 1) r)"
      using v assms(3) by blast
    with Cons show ?thesis by simp
  qed
qed

lemma from_utf8_append: "valid_utf8 xs \<Longrightarrow> from_utf8 (xs @ ys) = utf8_shift (length xs) (from_utf8 ys)"
proof (induction xs rule: valid_utf8_induct)
  case Nil
  show ?case by (cases "from_utf8 ys") auto
next
  case (Scalar b t rest)
  have "utf8_next b (t @ rest @ ys) = Scalar (Suc (length t))"
    using utf8_next_extend [OF Scalar.hyps(1)] by simp
  with Scalar.IH show ?case by (simp add: from_utf8_Cons)
qed

lemma valid_utf8_append: "valid_utf8 xs \<Longrightarrow> valid_utf8 (xs @ ys) \<longleftrightarrow> valid_utf8 ys"
  by (simp add: from_utf8_append valid_utf8_def [of "xs @ ys"] valid_utf8_def [of ys])

lemma from_utf8_Err:
  "from_utf8 xs = Utf8_Err k e \<Longrightarrow>
     valid_utf8 (take k xs) \<and> k < length xs \<and>
     (case e of None \<Rightarrow> length xs - k \<le> 3 | Some n \<Rightarrow> 1 \<le> n \<and> k + n \<le> length xs)"
proof (induction xs arbitrary: k rule: length_induct)
  case (1 xs)
  from "1.prems" obtain b r where xs: "xs = b # r" by (cases xs) auto
  show ?case
  proof (cases "utf8_next b r")
    case (Scalar w)
    note w = utf8_next_Scalar [OF Scalar]
    from "1.prems" xs Scalar obtain k' where k': "from_utf8 (drop (w - 1) r) = Utf8_Err k' e"
      and k: "k = w + k'" by (cases "from_utf8 (drop (w - 1) r)") (auto simp: from_utf8_Cons)
    have "length (drop (w - 1) r) < length xs" using xs by simp
    with "1.IH" k' have IH: "valid_utf8 (take k' (drop (w - 1) r))" "k' < length (drop (w - 1) r)"
      "case e of None \<Rightarrow> length (drop (w - 1) r) - k' \<le> 3
       | Some n \<Rightarrow> 1 \<le> n \<and> k' + n \<le> length (drop (w - 1) r)"
      by blast+
    have tk: "take (k - 1) r = take (w - 1) r @ take k' (drop (w - 1) r)"
      using w(1) k by (metis Nat.add_diff_assoc2 take_add)
    have "utf8_next b (take (k - 1) r) = Scalar w"
      unfolding tk using w(6) by (rule utf8_next_extend)
    moreover have "drop (w - 1) (take (k - 1) r) = take k' (drop (w - 1) r)"
      using w(1,3) k by (simp add: drop_take)
    moreover have "take k xs = b # take (k - 1) r"
      using xs k w(1) by (simp add: take_Cons')
    ultimately have "valid_utf8 (take k xs)"
      using IH(1) by (simp add: valid_utf8_Cons)
    then show ?thesis using IH(2,3) xs k w(1,3) by (auto split: option.splits)
  next
    case Truncated
    with "1.prems" xs utf8_next_Truncated [OF Truncated] show ?thesis
      by (auto simp: from_utf8_Cons)
  next
    case (Malformed n)
    with "1.prems" xs utf8_next_Malformed [OF Malformed] show ?thesis
      by (auto simp: from_utf8_Cons)
  qed
qed

text \<open>
  A prefix of a valid string is valid, or breaks off inside its last scalar value: the error has
  no \<open>error_len\<close>, so the redactor waits for more bytes instead of rejecting the stream.
\<close>

lemma from_utf8_prefix:
  "valid_utf8 (xs @ ys) \<Longrightarrow> valid_utf8 xs \<or> (\<exists>k. from_utf8 xs = Utf8_Err k None)"
proof (induction xs rule: length_induct)
  case (1 xs)
  show ?case
  proof (cases xs)
    case (Cons b r)
    with "1.prems" obtain w where w: "utf8_next b (r @ ys) = Scalar w"
      and v: "valid_utf8 (drop (w - 1) (r @ ys))" by (auto simp: valid_utf8_Cons)
    from utf8_next_prefix [OF w] show ?thesis
    proof
      assume s: "utf8_next b r = Scalar w \<and> w - 1 \<le> length r"
      then have "w - 1 - length r = 0" by linarith
      with v have "valid_utf8 (drop (w - 1) r @ ys)" by (metis drop_0 drop_append)
      then have "valid_utf8 (drop (w - 1) r) \<or> (\<exists>k. from_utf8 (drop (w - 1) r) = Utf8_Err k None)"
        using "1.IH" Cons by simp
      then show ?thesis using s Cons by (auto simp: valid_utf8_Cons from_utf8_Cons)
    next
      assume "utf8_next b r = Truncated \<and> length r < w - 1"
      then show ?thesis using Cons by (auto simp: from_utf8_Cons)
    qed
  qed simp
qed

section \<open>Character boundaries\<close>

lemma valid_utf8_first: "valid_utf8 (b # xs) \<Longrightarrow> \<not> is_cont b"
  by (auto simp: valid_utf8_Cons dest: utf8_next_Scalar(4))

lemma valid_utf8_take_boundary:
  "valid_utf8 xs \<Longrightarrow> i < length xs \<Longrightarrow> \<not> is_cont (xs ! i) \<Longrightarrow> valid_utf8 (take i xs)"
proof (induction xs arbitrary: i rule: valid_utf8_induct)
  case (Scalar b t rest)
  show ?case
  proof (cases "i \<le> length t")
    case True
    have "\<forall>c \<in> set t. is_cont c" using utf8_next_Scalar(5) [OF Scalar.hyps(1)] by simp
    with Scalar.prems True have "i = 0"
      by (cases i) (auto simp: nth_append split: if_splits)
    then show ?thesis by simp
  next
    case False
    then obtain j where i: "i = Suc (length t) + j" by (metis less_imp_Suc_add not_le add_Suc)
    with Scalar.prems have "valid_utf8 (take j rest)"
      by (intro Scalar.IH) (auto simp: nth_append)
    moreover have "utf8_next b (t @ take j rest) = Scalar (Suc (length t))"
      using Scalar.hyps(1) by (rule utf8_next_extend)
    ultimately show ?thesis using i by (simp add: valid_utf8_Cons)
  qed
qed simp

lemma valid_utf8_split:
  assumes "valid_utf8 xs" and "is_char_boundary xs i"
  shows "valid_utf8 (take i xs)" and "valid_utf8 (drop i xs)"
proof -
  show t: "valid_utf8 (take i xs)"
    using assms valid_utf8_take_boundary [of xs i]
    by (auto simp: is_char_boundary_def split: if_splits)
  show "valid_utf8 (drop i xs)"
    using valid_utf8_append [OF t, of "drop i xs"] assms(1) by simp
qed

section \<open>Lossy decoding\<close>

text \<open>The encoding of U+FFFD, the replacement character.\<close>

definition replacement_char :: bytes where
  "replacement_char = [CHR 0xEF, CHR 0xBF, CHR 0xBD]"

text \<open>\<open>String::from_utf8_lossy\<close>: every invalid sequence becomes one replacement character.\<close>

function from_utf8_lossy :: "bytes \<Rightarrow> bytes" where
  "from_utf8_lossy xs =
     (case from_utf8 xs of
        Utf8_Ok \<Rightarrow> xs
      | Utf8_Err k None \<Rightarrow> take k xs @ replacement_char
      | Utf8_Err k (Some n) \<Rightarrow> take k xs @ replacement_char @ from_utf8_lossy (drop (k + n) xs))"
  by pat_completeness auto
termination
  by (relation "measure length") (auto dest!: from_utf8_Err)

declare from_utf8_lossy.simps [simp del]

lemma from_utf8_lossy_valid [simp]: "valid_utf8 xs \<Longrightarrow> from_utf8_lossy xs = xs"
  by (subst from_utf8_lossy.simps) (simp add: valid_utf8_def)

lemma valid_replacement_char: "valid_utf8 replacement_char"
  by (simp add: replacement_char_def valid_utf8_Cons utf8_next_def utf8_tail_def is_cont_def)

lemma from_utf8_lossy_is_valid: "valid_utf8 (from_utf8_lossy xs)"
proof (induction xs rule: from_utf8_lossy.induct)
  case (1 xs)
  show ?case
  proof (cases "from_utf8 xs")
    case Utf8_Ok
    then show ?thesis by (subst from_utf8_lossy.simps) (simp add: valid_utf8_def)
  next
    case (Utf8_Err k e)
    from from_utf8_Err [OF this] have v: "valid_utf8 (take k xs)" by simp
    show ?thesis
      using "1.IH" Utf8_Err
      by (subst from_utf8_lossy.simps)
        (auto simp: valid_utf8_append v valid_replacement_char split: option.splits)
  qed
qed

end
