(* ===== verification/Search.thy ===== *)
theory Search
  imports Prelude
begin

text \<open>
  The interface to the multi-pattern matcher. The matcher itself (crate \<open>aho-corasick\<close>) is not part
  of the repository: the redaction engine takes it as a parameter, and what the engine relies on
  is the contract \<open>searcher\<close> below, the documented behaviour of a non-overlapping search with
  standard match semantics and ASCII case-insensitivity. \<open>reference_find_iter\<close> is an executable
  search with these semantics; it shows that the contract can be met and serves as the
  concrete matcher of the witnesses.

  The second half is about cutting a text in two: when no match lies across the cut, searching the
  halves separately finds the same matches.
\<close>

section \<open>Matches\<close>

text \<open>\<open>aho_corasick::Match\<close>: the span \<open>start()..end()\<close> and \<open>pattern()\<close>.\<close>

datatype mat = Mat (mstart: nat) (mend: nat) (mpattern: nat)

text \<open>Matches are ordered by position.\<close>

instantiation mat :: linorder
begin

definition less_mat :: "mat \<Rightarrow> mat \<Rightarrow> bool" where
  "m < m' \<longleftrightarrow> mstart m < mstart m' \<or>
     (mstart m = mstart m' \<and> (mend m < mend m' \<or> (mend m = mend m' \<and> mpattern m < mpattern m')))"

definition less_eq_mat :: "mat \<Rightarrow> mat \<Rightarrow> bool" where
  "(m :: mat) \<le> m' \<longleftrightarrow> m = m' \<or> m < m'"

instance
  by standard (auto simp: less_mat_def less_eq_mat_def intro: mat.expand)

end

definition ascii_lower :: "byte \<Rightarrow> byte" where
  "ascii_lower c =
     (let n = (of_char c :: nat) in if 65 \<le> n \<and> n \<le> 90 then char_of (n + 32) else c)"

abbreviation lower :: "bytes \<Rightarrow> bytes" where
  "lower \<equiv> map ascii_lower"

text \<open>\<open>m\<close> is an occurrence of its pattern in \<open>h\<close>, up to the case of ASCII letters.\<close>

definition is_match :: "bytes list \<Rightarrow> bytes \<Rightarrow> mat \<Rightarrow> bool" where
  "is_match pats h m \<longleftrightarrow>
     mpattern m < length pats \<and> mend m = mstart m + length (pats ! mpattern m) \<and>
     mend m \<le> length h \<and> lower (slice h (mstart m) (mend m)) = lower (pats ! mpattern m)"

definition shift_mat :: "nat \<Rightarrow> mat \<Rightarrow> mat" where
  "shift_mat d m = Mat (d + mstart m) (d + mend m) (mpattern m)"

lemma shift_mat_sel [simp]:
  "mstart (shift_mat d m) = d + mstart m" "mend (shift_mat d m) = d + mend m"
  "mpattern (shift_mat d m) = mpattern m"
  by (simp_all add: shift_mat_def)

lemma shift_mat_less [simp]: "shift_mat d m < shift_mat d m' \<longleftrightarrow> m < m'"
  by (simp add: less_mat_def)

lemma is_match_span:
  "is_match pats h m \<Longrightarrow> mstart m \<le> mend m \<and> mend m \<le> length h \<and> mpattern m < length pats"
  by (simp add: is_match_def)

lemma is_match_nonempty: "is_match pats h m \<Longrightarrow> [] \<notin> set pats \<Longrightarrow> mstart m < mend m"
  by (auto simp: is_match_def in_set_conv_nth)

lemma is_match_append_left:
  "mend m \<le> length h1 \<Longrightarrow> is_match pats (h1 @ h2) m = is_match pats h1 m"
  by (auto simp: is_match_def slice_append_left)

lemma is_match_append_right:
  "is_match pats (h1 @ h2) (shift_mat (length h1) m) = is_match pats h2 m"
  by (auto simp: is_match_def slice_shift add.assoc)

lemma unshift_mat: "d \<le> mstart m \<Longrightarrow> d \<le> mend m \<Longrightarrow> \<exists>m'. m = shift_mat d m'"
  by (rule exI [of _ "Mat (mstart m - d) (mend m - d) (mpattern m)"])
    (simp add: shift_mat_def)

lemma is_match_append_cases:
  assumes "is_match pats (h1 @ h2) m"
  obtains (left) "is_match pats h1 m"
  | (right) m' where "m = shift_mat (length h1) m'" "is_match pats h2 m'"
  | (across) "mstart m < length h1" "length h1 < mend m"
proof -
  consider "mend m \<le> length h1" | "length h1 \<le> mstart m"
    | "mstart m < length h1" "length h1 < mend m" by linarith
  then show ?thesis
  proof cases
    case 1
    with assms left show ?thesis by (simp add: is_match_append_left)
  next
    case 2
    with is_match_span [OF assms] obtain m' where m': "m = shift_mat (length h1) m'"
      using unshift_mat [of "length h1" m] by auto
    with assms right show ?thesis by (simp add: is_match_append_right)
  next
    case 3
    with across show ?thesis by simp
  qed
qed

section \<open>The contract of the matcher\<close>

text \<open>
  What \<open>find_iter\<close> promises for the patterns it was built from: what it reports are occurrences;
  they come in order and do not overlap; and it never skips an occurrence, that is, of every
  occurrence at least a part has been consumed by a match that ends no later (with standard
  semantics the match that ends first is reported first).
\<close>

locale searcher =
  fixes pats :: "bytes list" and fi :: "bytes \<Rightarrow> mat list"
  assumes fi_sound: "m \<in> set (fi h) \<Longrightarrow> is_match pats h m"
    and fi_ordered: "sorted_wrt (\<lambda>m m'. mend m \<le> mstart m') (fi h)"
    and fi_complete: "is_match pats h m \<Longrightarrow> mstart m < mend m \<Longrightarrow>
      \<exists>m' \<in> set (fi h). mstart m < mend m' \<and> mend m' \<le> mend m"
begin

lemma fi_span: "m \<in> set (fi h) \<Longrightarrow> mstart m \<le> mend m \<and> mend m \<le> length h \<and> mpattern m < length pats"
  by (blast dest: fi_sound is_match_span)

lemma fi_Nil: "[] \<notin> set pats \<Longrightarrow> fi h = [] \<longleftrightarrow> (\<forall>m. \<not> is_match pats h m)"
  using fi_complete fi_sound is_match_nonempty
  by (metis all_not_in_conv set_empty empty_iff)

lemma fi_strict: "[] \<notin> set pats \<Longrightarrow> sorted_wrt (<) (fi h)"
proof -
  assume "[] \<notin> set pats"
  then have "m < m'" if "m \<in> set (fi h)" "mend m \<le> mstart m'" for m m'
    using that fi_sound is_match_nonempty unfolding less_mat_def by (meson less_le_trans)
  with fi_ordered show ?thesis
    by (rule sorted_wrt_mono_rel [rotated])
qed

end

section \<open>A reference search\<close>

text \<open>The patterns that occur in \<open>h\<close> from \<open>at\<close> on and end at \<open>e\<close>.\<close>

definition ends_here :: "bytes list \<Rightarrow> bytes \<Rightarrow> nat \<Rightarrow> nat \<Rightarrow> nat list" where
  "ends_here pats h at e =
     filter (\<lambda>i. pats ! i \<noteq> [] \<and> at + length (pats ! i) \<le> e \<and>
                lower (slice h (e - length (pats ! i)) e) = lower (pats ! i))
       [0..<length pats]"

fun longest_of :: "bytes list \<Rightarrow> nat \<Rightarrow> nat list \<Rightarrow> nat" where
  "longest_of pats i [] = i"
| "longest_of pats i (j # js) =
     longest_of pats (if length (pats ! i) < length (pats ! j) then j else i) js"

fun scan :: "bytes list \<Rightarrow> bytes \<Rightarrow> nat \<Rightarrow> nat list \<Rightarrow> mat list" where
  "scan pats h at [] = []"
| "scan pats h at (e # es) =
     (case ends_here pats h at e of
        [] \<Rightarrow> scan pats h at es
      | i # js \<Rightarrow> (let k = longest_of pats i js
                  in Mat (e - length (pats ! k)) e k # scan pats h e es))"

definition reference_find_iter :: "bytes list \<Rightarrow> bytes \<Rightarrow> mat list" where
  "reference_find_iter pats h = scan pats h 0 [1..<Suc (length h)]"

lemma longest_of_in: "longest_of pats i js \<in> set (i # js)"
  by (induction pats i js rule: longest_of.induct) auto

lemma in_ends_here:
  "k \<in> set (ends_here pats h at e) \<longleftrightarrow>
     k < length pats \<and> pats ! k \<noteq> [] \<and> at + length (pats ! k) \<le> e \<and>
     lower (slice h (e - length (pats ! k)) e) = lower (pats ! k)"
  by (auto simp: ends_here_def)

lemma in_ends_here_match:
  "e \<le> length h \<Longrightarrow> k \<in> set (ends_here pats h at e) \<Longrightarrow>
     is_match pats h (Mat (e - length (pats ! k)) e k) \<and> at \<le> e - length (pats ! k)"
  by (auto simp: in_ends_here is_match_def)

lemma scan_sound:
  "\<forall>e \<in> set es. e \<le> length h \<Longrightarrow> sorted_wrt (<) es \<Longrightarrow> m \<in> set (scan pats h at es) \<Longrightarrow>
     is_match pats h m \<and> at \<le> mstart m"
proof (induction pats h at es rule: scan.induct)
  case (2 pats h at e es)
  show ?case
  proof (cases "ends_here pats h at e")
    case Nil
    with 2 show ?thesis by simp
  next
    case (Cons i js)
    let ?k = "longest_of pats i js"
    have "?k \<in> set (ends_here pats h at e)" using longest_of_in [of pats i js] Cons by simp
    with "2.prems" have k: "is_match pats h (Mat (e - length (pats ! ?k)) e ?k) \<and> at \<le> e - length (pats ! ?k)"
      by (intro in_ends_here_match) auto
    from "2.prems"(3) Cons consider "m = Mat (e - length (pats ! ?k)) e ?k" | "m \<in> set (scan pats h e es)"
      by (auto simp: Let_def)
    then show ?thesis
    proof cases
      case 1
      with k show ?thesis by simp
    next
      case 2
      with "2.IH"(2) [OF Cons refl] "2.prems" have "is_match pats h m \<and> e \<le> mstart m" by simp
      with k show ?thesis by auto
    qed
  qed
qed simp

lemma scan_ordered:
  "\<forall>e \<in> set es. e \<le> length h \<Longrightarrow> sorted_wrt (<) es \<Longrightarrow>
     sorted_wrt (\<lambda>m m'. mend m \<le> mstart m') (scan pats h at es)"
  by (induction pats h at es rule: scan.induct)
    (auto simp: Let_def dest: scan_sound split: list.splits)

lemma scan_complete:
  "sorted_wrt (<) es \<Longrightarrow> is_match pats h m \<Longrightarrow> mstart m < mend m \<Longrightarrow> at \<le> mstart m \<Longrightarrow>
     mend m \<in> set es \<Longrightarrow> \<exists>m' \<in> set (scan pats h at es). mstart m < mend m' \<and> mend m' \<le> mend m"
proof (induction pats h at es rule: scan.induct)
  case (2 pats h at e es)
  show ?case
  proof (cases "ends_here pats h at e")
    case Nil
    have "mend m \<noteq> e"
    proof
      assume "mend m = e"
      with "2.prems" have "mpattern m \<in> set (ends_here pats h at e)"
        by (auto simp: in_ends_here is_match_def)
      with Nil show False by simp
    qed
    with 2 Nil show ?thesis by simp
  next
    case (Cons i js)
    show ?thesis
    proof (cases "mstart m < e")
      case True
      with "2.prems" Cons show ?thesis by (auto simp: Let_def)
    next
      case False
      with "2.prems" "2.IH"(2) [OF Cons refl]
      have "\<exists>m' \<in> set (scan pats h e es). mstart m < mend m' \<and> mend m' \<le> mend m" by auto
      with Cons show ?thesis by (auto simp: Let_def)
    qed
  qed
qed simp

interpretation reference: searcher pats "reference_find_iter pats" for pats
proof
  fix m h assume "m \<in> set (reference_find_iter pats h)"
  then show "is_match pats h m"
    unfolding reference_find_iter_def by (intro conjunct1 [OF scan_sound]) (auto simp del: upt_Suc)
next
  fix h show "sorted_wrt (\<lambda>m m'. mend m \<le> mstart m') (reference_find_iter pats h)"
    unfolding reference_find_iter_def by (intro scan_ordered) (auto simp del: upt_Suc)
next
  fix h m assume "is_match pats h m" and "mstart m < mend m"
  then show "\<exists>m' \<in> set (reference_find_iter pats h). mstart m < mend m' \<and> mend m' \<le> mend m"
    unfolding reference_find_iter_def
    by (intro scan_complete) (auto simp del: upt_Suc dest: is_match_span)
qed

section \<open>Pattern sets whose occurrences never overlap\<close>

definition comparable :: "'a list \<Rightarrow> 'a list \<Rightarrow> bool" where
  "comparable xs ys \<longleftrightarrow> prefix xs ys \<or> prefix ys xs"

text \<open>
  No end of a pattern is the beginning of a pattern, and no pattern lies inside another one (all up
  to ASCII case). The default rules \<open>password,secret,ssn\<close> are of this kind.
\<close>

definition overlap_free :: "bytes list \<Rightarrow> bool" where
  "overlap_free pats \<longleftrightarrow>
     list_all (\<lambda>p. p \<noteq> []) pats \<and>
     list_all (\<lambda>i. list_all (\<lambda>j.
       list_all (\<lambda>k. \<not> comparable (drop k (lower (pats ! i))) (lower (pats ! j)))
         [1..<length (pats ! i)] \<and>
       (i \<noteq> j \<longrightarrow> \<not> comparable (lower (pats ! i)) (lower (pats ! j))))
       [0..<length pats]) [0..<length pats]"

lemma overlap_free_nonempty: "overlap_free pats \<Longrightarrow> [] \<notin> set pats"
  by (auto simp: overlap_free_def list_all_iff)

lemma overlap_free_inside:
  "overlap_free pats \<Longrightarrow> i < length pats \<Longrightarrow> j < length pats \<Longrightarrow> 1 \<le> k \<Longrightarrow> k < length (pats ! i) \<Longrightarrow>
     \<not> comparable (drop k (lower (pats ! i))) (lower (pats ! j))"
  by (auto simp: overlap_free_def list_all_iff)

lemma overlap_free_distinct:
  "overlap_free pats \<Longrightarrow> i < length pats \<Longrightarrow> j < length pats \<Longrightarrow>
     comparable (lower (pats ! i)) (lower (pats ! j)) \<Longrightarrow> i = j"
  unfolding overlap_free_def list_all_iff by (metis atLeastLessThan_iff le0 set_upt)

lemma comparable_of_prefixes: "prefix xs zs \<Longrightarrow> prefix ys zs \<Longrightarrow> comparable xs ys"
  unfolding comparable_def using prefix_same_cases by blast

lemma prefix_drop: "prefix xs ys \<Longrightarrow> prefix (drop k xs) (drop k ys)"
  by (auto simp: prefix_def)

lemma is_match_prefix:
  "is_match pats h m \<Longrightarrow> prefix (lower (pats ! mpattern m)) (drop (mstart m) (lower h))"
  by (metis is_match_def slice_def drop_map take_is_prefix take_map)

lemma overlap_free_disjoint_aux:
  assumes of: "overlap_free pats" and m: "is_match pats h m" and m': "is_match pats h m'"
    and le: "mstart m \<le> mstart m'" and ov: "mstart m' < mend m"
  shows "m = m'"
proof -
  let ?P = "lower (pats ! mpattern m)" and ?Q = "lower (pats ! mpattern m')"
  let ?k = "mstart m' - mstart m"
  have "prefix (drop ?k ?P) (drop ?k (drop (mstart m) (lower h)))"
    by (rule prefix_drop [OF is_match_prefix [OF m]])
  moreover have "drop ?k (drop (mstart m) (lower h)) = drop (mstart m') (lower h)"
    using le by simp
  ultimately have cmp: "comparable (drop ?k ?P) ?Q"
    using is_match_prefix [OF m'] by (metis comparable_of_prefixes)
  have k: "?k < length (pats ! mpattern m)" using m ov le by (auto simp: is_match_def)
  have "\<not> 1 \<le> ?k"
    using overlap_free_inside [OF of, of "mpattern m" "mpattern m'" ?k] m m' k cmp
    by (auto simp: is_match_def)
  then have "?k = 0" by simp
  with cmp le have same: "mstart m = mstart m'" and "mpattern m = mpattern m'"
    using overlap_free_distinct [OF of] m m' by (auto simp: is_match_def)
  with m m' show ?thesis by (auto simp: is_match_def intro: mat.expand)
qed

lemma overlap_free_disjoint:
  assumes "overlap_free pats" "is_match pats h m" "is_match pats h m'"
    and "mstart m < mend m'" "mstart m' < mend m"
  shows "m = m'"
  using assms overlap_free_disjoint_aux [of pats h m m'] overlap_free_disjoint_aux [of pats h m' m]
  by (cases "mstart m \<le> mstart m'") auto

section \<open>Cutting a text\<close>

text \<open>No occurrence lies across position \<open>c\<close>.\<close>

definition clean_cut :: "bytes list \<Rightarrow> bytes \<Rightarrow> nat \<Rightarrow> bool" where
  "clean_cut pats h c \<longleftrightarrow> (\<forall>m. is_match pats h m \<longrightarrow> mend m \<le> c \<or> c \<le> mstart m)"

lemma is_match_append_clean:
  assumes "clean_cut pats (h1 @ h2) (length h1)"
  shows "is_match pats (h1 @ h2) m \<longleftrightarrow>
    is_match pats h1 m \<or> (\<exists>m'. m = shift_mat (length h1) m' \<and> is_match pats h2 m')"
proof
  assume "is_match pats (h1 @ h2) m"
  then show "is_match pats h1 m \<or> (\<exists>m'. m = shift_mat (length h1) m' \<and> is_match pats h2 m')"
  proof (cases rule: is_match_append_cases)
    case across
    with assms \<open>is_match pats (h1 @ h2) m\<close> show ?thesis by (fastforce simp: clean_cut_def)
  qed auto
next
  assume "is_match pats h1 m \<or> (\<exists>m'. m = shift_mat (length h1) m' \<and> is_match pats h2 m')"
  then show "is_match pats (h1 @ h2) m"
    using is_match_append_left [of m h1 pats h2] is_match_span [of pats h1 m]
    by (auto simp: is_match_append_right)
qed

context searcher
begin

lemma fi_set:
  assumes "overlap_free pats"
  shows "set (fi h) = {m. is_match pats h m}"
proof -
  have "m \<in> set (fi h)" if m: "is_match pats h m" for m
  proof -
    have "mstart m < mend m"
      using is_match_nonempty [OF m] overlap_free_nonempty [OF assms] by simp
    then obtain m' where m': "m' \<in> set (fi h)" "mstart m < mend m'" "mend m' \<le> mend m"
      using fi_complete [OF m] by blast
    then have "mstart m' < mend m'" "is_match pats h m'"
      using fi_sound is_match_nonempty overlap_free_nonempty [OF assms] by blast+
    with overlap_free_disjoint [OF assms m] m' have "m = m'" by auto
    with m' show ?thesis by simp
  qed
  with fi_sound show ?thesis by blast
qed

lemma fi_append:
  assumes "overlap_free pats" and "clean_cut pats (h1 @ h2) (length h1)"
  shows "fi (h1 @ h2) = fi h1 @ map (shift_mat (length h1)) (fi h2)"
proof (rule strict_sorted_equal)
  note ne = overlap_free_nonempty [OF assms(1)]
  show "sorted_wrt (<) (fi (h1 @ h2))" by (rule fi_strict [OF ne])
  have "sorted_wrt (<) (map (shift_mat (length h1)) (fi h2))"
    using fi_strict [OF ne, of h2] by (simp add: sorted_wrt_map)
  moreover have "m < shift_mat (length h1) m'" if "m \<in> set (fi h1)" "m' \<in> set (fi h2)" for m m'
    using that is_match_nonempty [OF fi_sound ne, of m h1] fi_span [of m h1] by (simp add: less_mat_def)
  ultimately show "sorted_wrt (<) (fi h1 @ map (shift_mat (length h1)) (fi h2))"
    using fi_strict [OF ne, of h1] by (auto simp: sorted_wrt_append)
  show "set (fi (h1 @ h2)) = set (fi h1 @ map (shift_mat (length h1)) (fi h2))"
    using is_match_append_clean [OF assms(2)] by (auto simp: fi_set [OF assms(1)])
qed

end

end
