(* ===== verification/Engine.thy ===== *)
theory Engine
  imports Utf8 Search
begin

text \<open>
  The redaction engine, \<open>src/engine.rs\<close>: the compiled rule set (\<open>EngineState\<close>, \<open>PiiVault\<close>), the
  one-shot \<open>redact_text\<close>, and the streaming \<open>StreamRedactor\<close>, which holds back the bytes at the end
  of a chunk that may be the beginning of a pattern or of a UTF-8 scalar value. The automaton is the
  parameter described in theory \<open>Search\<close>; \<open>serde_json\<close> and \<open>blake3\<close> are parameters too.
\<close>

section \<open>Data\<close>

text \<open>A compiled automaton, by the two searches the engine calls.\<close>

record automaton =
  ac_find :: "bytes \<Rightarrow> mat option"
  ac_find_iter :: "bytes \<Rightarrow> mat list"

text \<open>\<open>AhoCorasick::builder().ascii_case_insensitive(true).build(..)\<close>; \<open>None\<close> is a build error.\<close>

type_synonym ac_builder = "bytes list \<Rightarrow> automaton option"

datatype OutputSegment = Input bytes | Replacement bytes

record EngineState =
  es_ac :: automaton
  es_max_pattern_len :: nat
  es_patterns :: "bytes list"
  es_replacements :: "bytes list"
  es_replacement_strings :: "bytes list"

datatype StreamRedactionError = BufferLimitExceeded | InvalidUtf8

record PiiVault =
  pv_searcher :: automaton
  pv_max_pattern_len :: nat
  pv_patterns :: "bytes list"
  pv_replacements :: "bytes list"
  pv_replacement_strings :: "bytes list"
  pv_escaped_replacements :: "bytes list"
  pv_engine_state :: EngineState

record StreamRedactor =
  sr_state :: EngineState
  sr_pending :: bytes
  sr_max_capacity :: nat

definition DEFAULT_MAX_BUFFER_CAPACITY :: nat where
  "DEFAULT_MAX_BUFFER_CAPACITY = 64 * 1024"

section \<open>Building the rules\<close>

definition expect :: "'a option \<Rightarrow> ('a, 'e) outcome" where
  "expect x = (case x of None \<Rightarrow> Panic | Some v \<Rightarrow> Ok v)"

definition default_patterns :: "bytes list" where
  "default_patterns = [''password'', ''secret'', ''ssn'']"

definition REDACTION_DFA :: "ac_builder \<Rightarrow> (automaton, 'e) outcome" where
  "REDACTION_DFA build = expect (build [''password'', ''secret'', ''ssn''])"

definition build_redaction_dfa :: "ac_builder \<Rightarrow> bytes list \<Rightarrow> (automaton, 'e) outcome" where
  "build_redaction_dfa build patterns =
     (if patterns = [''password'', ''secret'', ''ssn''] then REDACTION_DFA build
      else expect (build patterns))"

definition max_len :: "bytes list \<Rightarrow> nat" where
  "max_len ps = foldr max (map length ps) 0"

definition EngineState_new ::
  "ac_builder \<Rightarrow> bytes list \<Rightarrow> bytes list \<Rightarrow> (EngineState, 'e) outcome" where
  "EngineState_new build patterns replacements =
     obind (build_redaction_dfa build patterns) (\<lambda>a.
       Ok \<lparr>es_ac = a, es_max_pattern_len = max_len patterns, es_patterns = patterns,
           es_replacements = replacements, es_replacement_strings = replacements\<rparr>)"

text \<open>
  \<open>to_vec\<close> is \<open>serde_json::to_vec\<close> on the pair of string vectors, \<open>blake3_hex\<close> the hexadecimal
  digest of its argument.
\<close>

definition policy_digest ::
  "(bytes list \<times> bytes list \<Rightarrow> bytes) \<Rightarrow> (bytes \<Rightarrow> bytes) \<Rightarrow> EngineState \<Rightarrow> bytes" where
  "policy_digest to_vec blake3_hex st =
     (let canonical = to_vec (es_patterns st, es_replacement_strings st) in blake3_hex canonical)"

text \<open>\<open>to_string\<close> is \<open>serde_json::to_string\<close> on a string; an error gives two quotes.\<close>

definition escape_replacement :: "(bytes \<Rightarrow> bytes option) \<Rightarrow> bytes \<Rightarrow> bytes" where
  "escape_replacement to_string value =
     (let quoted = (case to_string value of Some q \<Rightarrow> q | None \<Rightarrow> [CHR 0x22, CHR 0x22]) in
      if 2 \<le> length quoted \<and> hd quoted = CHR 0x22 \<and> last quoted = CHR 0x22
      then slice quoted 1 (length quoted - 1) else quoted)"

definition PiiVault_new ::
  "ac_builder \<Rightarrow> (bytes \<Rightarrow> bytes option) \<Rightarrow> bytes list \<Rightarrow> bytes list \<Rightarrow> (PiiVault, 'e) outcome" where
  "PiiVault_new build to_string patterns replacements =
     (if length patterns \<noteq> length replacements then Panic
      else obind (build_redaction_dfa build patterns) (\<lambda>searcher.
           obind (EngineState_new build patterns replacements) (\<lambda>engine_state.
           Ok \<lparr>pv_searcher = searcher, pv_max_pattern_len = max_len patterns,
               pv_patterns = patterns, pv_replacements = replacements,
               pv_replacement_strings = replacements,
               pv_escaped_replacements = map (escape_replacement to_string) replacements,
               pv_engine_state = engine_state\<rparr>)))"

section \<open>One-shot redaction\<close>

datatype cow = Borrowed bytes | Owned bytes

primrec into_owned :: "cow \<Rightarrow> bytes" where
  "into_owned (Borrowed b) = b"
| "into_owned (Owned b) = b"

text \<open>\<open>&text[s..e]\<close> on a string panics out of range and off a character boundary.\<close>

definition str_slice :: "bytes \<Rightarrow> nat \<Rightarrow> nat \<Rightarrow> (bytes, 'e) outcome" where
  "str_slice text s e =
     (if s \<le> e \<and> e \<le> length text \<and> is_char_boundary text s \<and> is_char_boundary text e
      then Ok (slice text s e) else Panic)"

fun redact_text_loop :: "bytes list \<Rightarrow> bytes \<Rightarrow> nat \<Rightarrow> bytes \<Rightarrow> mat list \<Rightarrow> (bytes, 'e) outcome" where
  "redact_text_loop reps text last_end output [] =
     obind (str_slice text last_end (length text)) (\<lambda>tail. Ok (output @ tail))"
| "redact_text_loop reps text last_end output (m # ms) =
     (if mstart m \<ge> last_end
      then obind (str_slice text last_end (mstart m)) (\<lambda>pre.
           obind (nth_checked reps (mpattern m)) (\<lambda>r.
           redact_text_loop reps text (mend m) (output @ pre @ r) ms))
      else redact_text_loop reps text last_end output ms)"

definition redact_text :: "bytes \<Rightarrow> PiiVault \<Rightarrow> (cow, 'e) outcome" where
  "redact_text text vault =
     (if ac_find (pv_searcher vault) text = None then Ok (Borrowed text)
      else obind (redact_text_loop (pv_replacement_strings vault) text 0 []
                    (ac_find_iter (pv_searcher vault) text)) (\<lambda>out. Ok (Owned out)))"

section \<open>The safe boundary\<close>

definition retain_pattern :: "bytes \<Rightarrow> nat \<Rightarrow> bytes \<Rightarrow> nat" where
  "retain_pattern text retain p =
     (let max_prefix = min (length p) (length text) in
      foldl (\<lambda>r n. if suffix (take n p) text then max r n else r) retain [1..<max_prefix])"

fun back_to_boundary :: "bytes \<Rightarrow> nat \<Rightarrow> nat" where
  "back_to_boundary text 0 = 0"
| "back_to_boundary text (Suc n) =
     (if is_char_boundary text (Suc n) then Suc n else back_to_boundary text n)"

definition determine_safe_boundary_state :: "bytes \<Rightarrow> EngineState \<Rightarrow> bytes \<times> bytes" where
  "determine_safe_boundary_state text st =
     (if text = [] then ([], [])
      else if length text \<le> es_max_pattern_len st then ([], text)
      else if list_ex (\<lambda>p. suffix p text) (es_patterns st) then (text, [])
      else let retain = foldl (retain_pattern text) 0 (es_patterns st) in
        if retain = 0 then (text, [])
        else let split_at = back_to_boundary text (length text - retain) in
          if split_at = 0 then ([], text) else (take split_at text, drop split_at text))"

definition determine_safe_boundary :: "bytes \<Rightarrow> PiiVault \<Rightarrow> bytes \<times> bytes" where
  "determine_safe_boundary text vault = determine_safe_boundary_state text (pv_engine_state vault)"

section \<open>The stream redactor\<close>

definition with_state_max_capacity :: "EngineState \<Rightarrow> nat \<Rightarrow> (StreamRedactor, 'e) outcome" where
  "with_state_max_capacity st max_capacity =
     (if max_capacity > 0
      then Ok \<lparr>sr_state = st, sr_pending = [], sr_max_capacity = max_capacity\<rparr> else Panic)"

definition from_state :: "EngineState \<Rightarrow> (StreamRedactor, 'e) outcome" where
  "from_state st = with_state_max_capacity st DEFAULT_MAX_BUFFER_CAPACITY"

definition StreamRedactor_new :: "PiiVault \<Rightarrow> (StreamRedactor, 'e) outcome" where
  "StreamRedactor_new vault = from_state (pv_engine_state vault)"

definition with_max_capacity :: "PiiVault \<Rightarrow> nat \<Rightarrow> (StreamRedactor, 'e) outcome" where
  "with_max_capacity vault max_capacity = with_state_max_capacity (pv_engine_state vault) max_capacity"

fun redact_loop :: "bytes list \<Rightarrow> bytes \<Rightarrow> nat \<Rightarrow> nat \<Rightarrow> mat list \<Rightarrow> (OutputSegment list, 'e) outcome" where
  "redact_loop reps source safe_len last_end [] =
     (if last_end < safe_len
      then obind (slice_checked source last_end safe_len) (\<lambda>b. Ok [Input b]) else Ok [])"
| "redact_loop reps source safe_len last_end (m # ms) =
     obind (if mstart m > last_end
            then obind (slice_checked source last_end (mstart m)) (\<lambda>b. Ok [Input b]) else Ok []) (\<lambda>pre.
     obind (nth_checked reps (mpattern m)) (\<lambda>r.
     obind (redact_loop reps source safe_len (mend m) ms) (\<lambda>rest.
     Ok (pre @ Replacement r # rest))))"

definition redact_source :: "StreamRedactor \<Rightarrow> bytes \<Rightarrow> nat \<Rightarrow> (OutputSegment list, 'e) outcome" where
  "redact_source self source safe_len =
     obind (slice_checked source 0 safe_len) (\<lambda>hay.
       redact_loop (es_replacements (sr_state self)) source safe_len 0
         (ac_find_iter (es_ac (sr_state self)) hay))"

text \<open>\<open>&mut self\<close> methods return the new \<open>self\<close> beside the result.\<close>

definition process_source ::
  "StreamRedactor \<Rightarrow> bytes \<Rightarrow> bool \<Rightarrow>
     StreamRedactor \<times> (OutputSegment list, StreamRedactionError) outcome" where
  "process_source self source flush_all =
     (case (case from_utf8 source of
              Utf8_Ok \<Rightarrow> Some (length source)
            | Utf8_Err valid_up_to None \<Rightarrow> Some valid_up_to
            | Utf8_Err valid_up_to (Some _) \<Rightarrow> None) of
        None \<Rightarrow> (self, Err InvalidUtf8)
      | Some valid_len \<Rightarrow>
          if flush_all \<and> valid_len \<noteq> length source then (self, Err InvalidUtf8)
          else let text = take valid_len source in
            if from_utf8 text \<noteq> Utf8_Ok then (self, Err InvalidUtf8)
            else let safe_len = (if flush_all then length text
                                 else length (fst (determine_safe_boundary_state text (sr_state self)))) in
              (case redact_source self source safe_len of
                 Panic \<Rightarrow> (self, Panic)
               | Err e \<Rightarrow> (self, Err e)
               | Ok output \<Rightarrow>
                   let retained_end = (if flush_all then length source else valid_len);
                       p1 = (if safe_len < retained_end
                             then sr_pending self @ slice source safe_len retained_end
                             else sr_pending self);
                       p2 = (if \<not> flush_all \<and> valid_len < length source
                             then p1 @ drop valid_len source else p1);
                       self' = self\<lparr>sr_pending := p2\<rparr> in
                   if length p2 > sr_max_capacity self then (self', Err BufferLimitExceeded)
                   else (self', Ok output)))"

definition push ::
  "StreamRedactor \<Rightarrow> bytes \<Rightarrow> StreamRedactor \<times> (OutputSegment list, StreamRedactionError) outcome" where
  "push self chunk =
     (if chunk = [] then (self, Ok [])
      else if sr_pending self = [] then process_source self chunk False
      else process_source (self\<lparr>sr_pending := []\<rparr>) (sr_pending self @ chunk) False)"

definition finish ::
  "StreamRedactor \<Rightarrow> StreamRedactor \<times> (OutputSegment list, StreamRedactionError) outcome" where
  "finish self =
     (if sr_pending self = [] then (self, Ok [])
      else process_source (self\<lparr>sr_pending := []\<rparr>) (sr_pending self) True)"

primrec segment_bytes :: "OutputSegment \<Rightarrow> bytes" where
  "segment_bytes (Input b) = b"
| "segment_bytes (Replacement b) = b"

text \<open>
  A whole stream: every chunk is pushed, then the redactor is finished; the first error ends it. This
  is how the stream task of \<open>lib.rs\<close> drives the redactor.
\<close>

fun push_all ::
  "StreamRedactor \<Rightarrow> bytes list \<Rightarrow> StreamRedactor \<times> (OutputSegment list, StreamRedactionError) outcome" where
  "push_all self [] = (self, Ok [])"
| "push_all self (c # cs) =
     (case push self c of
        (self', Ok out) \<Rightarrow> (case push_all self' cs of
             (self'', r) \<Rightarrow> (self'', obind r (\<lambda>out'. Ok (out @ out'))))
      | (self', r) \<Rightarrow> (self', r))"

definition redact_stream ::
  "StreamRedactor \<Rightarrow> bytes list \<Rightarrow> (OutputSegment list, StreamRedactionError) outcome" where
  "redact_stream self chunks =
     (case push_all self chunks of
        (self', Ok out) \<Rightarrow> obind (snd (finish self')) (\<lambda>out'. Ok (out @ out'))
      | (self', r) \<Rightarrow> r)"

definition rendered :: "OutputSegment list \<Rightarrow> bytes" where
  "rendered segs = concat (map segment_bytes segs)"

end
