(* ===== verification/Redaction.thy ===== *)
theory Redaction
  imports Engine
begin

text \<open>
  What the redaction engine guarantees. \<open>redacted\<close> is the specification: the text with every match
  replaced. The main results are that the segments forwarded unchanged never contain a pattern, that
  the buffer of the stream redactor is bounded, and that the output of a stream does not depend on
  how it was cut into chunks, under conditions that are spelled out and shown to be needed.
\<close>

section \<open>The specification\<close>

fun render :: "bytes list \<Rightarrow> bytes \<Rightarrow> nat \<Rightarrow> mat list \<Rightarrow> bytes" where
  "render reps h l [] = drop l h"
| "render reps h l (m # ms) = slice h l (mstart m) @ reps ! mpattern m @ render reps h (mend m) ms"

definition redacted :: "EngineState \<Rightarrow> bytes \<Rightarrow> bytes" where
  "redacted st h = render (es_replacements st) h 0 (ac_find_iter (es_ac st) h)"

text \<open>The spans of \<open>ms\<close> lie one after the other between \<open>l\<close> and \<open>n\<close>.\<close>

fun spans :: "nat \<Rightarrow> nat \<Rightarrow> mat list \<Rightarrow> bool" where
  "spans n l [] \<longleftrightarrow> l \<le> n"
| "spans n l (m # ms) \<longleftrightarrow> l \<le> mstart m \<and> mstart m \<le> mend m \<and> spans n (mend m) ms"

text \<open>The engine state is what \<open>EngineState::new\<close> builds from well-formed strings.\<close>

definition engine_ok :: "EngineState \<Rightarrow> bool" where
  "engine_ok st \<longleftrightarrow>
     searcher (es_patterns st) (ac_find_iter (es_ac st)) \<and>
     es_max_pattern_len st = max_len (es_patterns st) \<and>
     length (es_replacements st) = length (es_patterns st) \<and>
     (\<forall>p \<in> set (es_patterns st). valid_utf8 p)"

text \<open>Every occurrence of a pattern is spelled in the case of the configured pattern.\<close>

definition case_exact :: "bytes list \<Rightarrow> bytes \<Rightarrow> bool" where
  "case_exact pats h \<longleftrightarrow>
     (\<forall>m. is_match pats h m \<longrightarrow> slice h (mstart m) (mend m) = pats ! mpattern m)"

text \<open>The contract of the automaton builder, for every pattern set it accepts.\<close>

definition builder_ok :: "ac_builder \<Rightarrow> bool" where
  "builder_ok build \<longleftrightarrow>
     (\<forall>pats a. build pats = Some a \<longrightarrow>
        searcher pats (ac_find_iter a) \<and>
        (\<forall>h. ac_find a h = (case ac_find_iter a h of [] \<Rightarrow> None | m # _ \<Rightarrow> Some m)))"

definition reference_build :: ac_builder where
  "reference_build pats = Some \<lparr>
     ac_find = (\<lambda>h. case reference_find_iter pats h of [] \<Rightarrow> None | m # _ \<Rightarrow> Some m),
     ac_find_iter = reference_find_iter pats\<rparr>"

lemma builder_ok_reference: "builder_ok reference_build"
  by (auto simp: builder_ok_def reference_build_def intro: reference.searcher_axioms)

section \<open>Rendering\<close>

lemma spansI:
  "sorted_wrt (\<lambda>m m'. mend m \<le> mstart m') ms \<Longrightarrow>
     \<forall>m \<in> set ms. l \<le> mstart m \<and> mstart m \<le> mend m \<and> mend m \<le> n \<Longrightarrow> l \<le> n \<Longrightarrow> spans n l ms"
  by (induction ms arbitrary: l) auto

lemma spans_bounds: "spans n l ms \<Longrightarrow> l \<le> n \<and> (\<forall>m \<in> set ms. l \<le> mstart m \<and> mstart m \<le> mend m \<and> mend m \<le> n)"
  by (induction n l ms rule: spans.induct) force+

context searcher
begin

lemma fi_spans: "spans (length h) 0 (fi h)"
  using fi_ordered [of h] fi_span by (intro spansI) auto

end

lemma redact_loop_render:
  assumes "spans safe l ms" and "safe \<le> length source" and "\<forall>m \<in> set ms. mpattern m < length reps"
  shows "\<exists>segs. redact_loop reps source safe l ms = (Ok segs :: (OutputSegment list, 'e) outcome) \<and>
           rendered segs = render reps (take safe source) l ms"
  using assms
proof (induction ms arbitrary: l)
  case Nil
  then show ?case
    by (auto simp: rendered_def slice_checked_def slice_def drop_take)
next
  case (Cons m ms)
  have b: "mstart m \<le> safe" "l \<le> mstart m" "mend m \<le> safe"
    using spans_bounds [OF Cons.prems(1)] by auto
  from Cons obtain segs where segs:
    "redact_loop reps source safe (mend m) ms = (Ok segs :: (OutputSegment list, 'e) outcome)"
    "rendered segs = render reps (take safe source) (mend m) ms" by auto
  let ?pre = "if mstart m > l then [Input (slice source l (mstart m))] else []"
  have "redact_loop reps source safe l (m # ms) =
      (Ok (?pre @ Replacement (reps ! mpattern m) # segs) :: (OutputSegment list, 'e) outcome)"
    using b Cons.prems segs(1) by (auto simp: slice_checked_def nth_checked_def)
  moreover have "rendered (?pre @ Replacement (reps ! mpattern m) # segs) =
      render reps (take safe source) l (m # ms)"
    using b segs(2) by (auto simp: rendered_def slice_take)
  ultimately show ?case by blast
qed

lemma render_shift:
  "render reps (h1 @ h2) (length h1 + l) (map (shift_mat (length h1)) ms) = render reps h2 l ms"
  by (induction ms arbitrary: l) (auto simp: slice_shift)

lemma render_append:
  "spans (length h1) l ms1 \<Longrightarrow>
     render reps (h1 @ h2) l (ms1 @ map (shift_mat (length h1)) ms2) =
     render reps h1 l ms1 @ render reps h2 0 ms2"
proof (induction ms1 arbitrary: l)
  case Nil
  then have l: "l \<le> length h1" by simp
  show ?case
  proof (cases ms2)
    case Nil
    with l show ?thesis by simp
  next
    case (Cons m ms)
    have "slice (h1 @ h2) l (length h1 + mstart m) = drop l h1 @ take (mstart m) h2"
      using l by (simp add: slice_def)
    with Cons show ?thesis by (simp add: render_shift)
  qed
next
  case (Cons m ms)
  then have "mstart m \<le> length h1" using spans_bounds [of "length h1" "mend m" ms] by auto
  with Cons show ?case by (simp add: slice_append_left)
qed

lemma redacted_append:
  assumes "engine_ok st" and "overlap_free (es_patterns st)"
    and "clean_cut (es_patterns st) (h1 @ h2) (length h1)"
  shows "redacted st (h1 @ h2) = redacted st h1 @ redacted st h2"
proof -
  from assms(1) have s: "searcher (es_patterns st) (ac_find_iter (es_ac st))"
    by (simp add: engine_ok_def)
  show ?thesis
    unfolding redacted_def searcher.fi_append [OF s assms(2,3)]
    by (rule render_append [OF searcher.fi_spans [OF s]])
qed

lemma redact_source_ok:
  assumes "engine_ok (sr_state self)" and "safe \<le> length source"
  shows "\<exists>segs. redact_source self source safe = (Ok segs :: (OutputSegment list, 'e) outcome) \<and>
           rendered segs = redacted (sr_state self) (take safe source)"
proof -
  let ?st = "sr_state self" and ?h = "take safe source"
  have s: "searcher (es_patterns ?st) (ac_find_iter (es_ac ?st))"
    and len: "length (es_replacements ?st) = length (es_patterns ?st)"
    using assms(1) by (simp_all add: engine_ok_def)
  have "spans safe 0 (ac_find_iter (es_ac ?st) ?h)"
    using searcher.fi_spans [OF s, of ?h] assms(2) by simp
  moreover have "\<forall>m \<in> set (ac_find_iter (es_ac ?st) ?h). mpattern m < length (es_replacements ?st)"
    using searcher.fi_span [OF s] len by auto
  ultimately show ?thesis
    using redact_loop_render [of safe 0 "ac_find_iter (es_ac ?st) ?h" source "es_replacements ?st"] assms(2)
    by (auto simp: redact_source_def redacted_def slice_checked_def)
qed

section \<open>The safe boundary\<close>

lemma foldl_max_filter:
  assumes "foldl (\<lambda>r n. if P n then max r n else r) ini ns = (r :: nat)"
  shows "ini \<le> r" and "\<forall>n \<in> set ns. P n \<longrightarrow> n \<le> r" and "r = ini \<or> (r \<in> set ns \<and> P r)"
proof -
  have "ini \<le> r \<and> (\<forall>n \<in> set ns. P n \<longrightarrow> n \<le> r) \<and> (r = ini \<or> (r \<in> set ns \<and> P r))"
    using assms
  proof (induction ns arbitrary: ini)
    case (Cons n ns)
    from Cons.IH [OF Cons.prems [simplified]] show ?case
      by (auto simp: max_def split: if_splits)
  qed auto
  then show "ini \<le> r" and "\<forall>n \<in> set ns. P n \<longrightarrow> n \<le> r" and "r = ini \<or> (r \<in> set ns \<and> P r)" by blast+
qed

text \<open>\<open>n\<close> bytes at the end of the text are a proper prefix of \<open>p\<close>.\<close>

definition partial :: "bytes \<Rightarrow> bytes \<Rightarrow> nat \<Rightarrow> bool" where
  "partial tx p n \<longleftrightarrow> 1 \<le> n \<and> n < min (length p) (length tx) \<and> suffix (take n p) tx"

lemma retain_pattern_spec:
  "retain_pattern tx ini p = r \<Longrightarrow>
     ini \<le> r \<and> (\<forall>n. partial tx p n \<longrightarrow> n \<le> r) \<and> (r = ini \<or> partial tx p r)"
  unfolding retain_pattern_def Let_def partial_def
  using foldl_max_filter [of "\<lambda>n. suffix (take n p) tx" ini "[1..<min (length p) (length tx)]" r]
  by auto

lemma retain_spec:
  "foldl (retain_pattern tx) ini ps = r \<Longrightarrow>
     ini \<le> r \<and> (\<forall>p \<in> set ps. \<forall>n. partial tx p n \<longrightarrow> n \<le> r) \<and>
     (r = ini \<or> (\<exists>p \<in> set ps. partial tx p r))"
proof (induction ps arbitrary: ini)
  case (Cons p ps)
  from Cons.IH [OF Cons.prems [simplified]] retain_pattern_spec [where tx = tx and ini = ini and p = p, OF refl]
  show ?case by (auto intro: order_trans)
qed simp

lemma max_len_ge: "p \<in> set ps \<Longrightarrow> length p \<le> max_len ps"
  by (induction ps) (auto simp: max_len_def)

lemma partial_boundary:
  assumes "partial tx p n" and "valid_utf8 p"
  shows "is_char_boundary tx (length tx - n)" and "0 < length tx - n"
proof -
  from assms(1) have n: "1 \<le> n" "n < length p" "n < length tx" and sfx: "suffix (take n p) tx"
    by (auto simp: partial_def)
  from n obtain b q where p: "p = b # q" by (cases p) auto
  from sfx have "drop (length tx - n) tx = take n p"
    using n by (auto simp: suffix_def)
  then have "tx ! (length tx - n) = hd (take n p)"
    using n by (simp flip: hd_drop_conv_nth)
  then have "tx ! (length tx - n) = b" using n p by (cases n) auto
  moreover have "\<not> is_cont b" using assms(2) p by (auto dest: valid_utf8_first)
  ultimately show "is_char_boundary tx (length tx - n)"
    using n by (simp add: is_char_boundary_def)
  show "0 < length tx - n" using n by simp
qed

lemma back_to_boundary_id: "is_char_boundary tx n \<Longrightarrow> back_to_boundary tx n = n"
  by (cases n) auto

text \<open>The ways the boundary is drawn.\<close>

lemma safe_boundary_cases:
  assumes "\<forall>p \<in> set (es_patterns st). valid_utf8 p"
    and "es_max_pattern_len st = max_len (es_patterns st)"
  obtains (hold) "determine_safe_boundary_state tx st = ([], tx)"
      "length tx \<le> max_len (es_patterns st)"
  | (ends) p where "determine_safe_boundary_state tx st = (tx, [])"
      "max_len (es_patterns st) < length tx" "p \<in> set (es_patterns st)" "suffix p tx"
  | (free) "determine_safe_boundary_state tx st = (tx, [])"
      "max_len (es_patterns st) < length tx"
      "\<forall>p \<in> set (es_patterns st). \<forall>n. \<not> partial tx p n"
  | (cut) p r where
      "determine_safe_boundary_state tx st = (take (length tx - r) tx, drop (length tx - r) tx)"
      "max_len (es_patterns st) < length tx" "p \<in> set (es_patterns st)" "partial tx p r"
      "\<forall>p \<in> set (es_patterns st). \<forall>n. partial tx p n \<longrightarrow> n \<le> r"
proof -
  let ?r = "foldl (retain_pattern tx) 0 (es_patterns st)"
  note r = retain_spec [where tx = tx and ini = 0 and ps = "es_patterns st", OF refl]
  consider (a) "length tx \<le> max_len (es_patterns st)"
    | (b) "max_len (es_patterns st) < length tx" "list_ex (\<lambda>p. suffix p tx) (es_patterns st)"
    | (c) "max_len (es_patterns st) < length tx" "\<not> list_ex (\<lambda>p. suffix p tx) (es_patterns st)" "?r = 0"
    | (d) "max_len (es_patterns st) < length tx" "\<not> list_ex (\<lambda>p. suffix p tx) (es_patterns st)" "?r \<noteq> 0"
    by linarith
  then show ?thesis
  proof cases
    case a
    with assms(2) hold show ?thesis by (simp add: determine_safe_boundary_state_def)
  next
    case b
    then obtain p where "p \<in> set (es_patterns st)" "suffix p tx" by (auto simp: list_ex_iff)
    moreover have "determine_safe_boundary_state tx st = (tx, [])"
      using b assms(2) by (auto simp: determine_safe_boundary_state_def)
    ultimately show ?thesis using ends b by blast
  next
    case c
    then have "determine_safe_boundary_state tx st = (tx, [])"
      using assms(2) by (auto simp: determine_safe_boundary_state_def)
    moreover have "\<forall>p \<in> set (es_patterns st). \<forall>n. \<not> partial tx p n"
      using r c(3) by (force simp: partial_def)
    ultimately show ?thesis using free c by blast
  next
    case d
    with r obtain p where p: "p \<in> set (es_patterns st)" "partial tx p ?r" by auto
    note pb = partial_boundary [OF p(2)]
    have "back_to_boundary tx (length tx - ?r) = length tx - ?r"
      using pb(1) assms(1) p(1) by (simp add: back_to_boundary_id)
    then have "determine_safe_boundary_state tx st =
        (take (length tx - ?r) tx, drop (length tx - ?r) tx)"
      using d pb(2) assms p(1) by (auto simp: determine_safe_boundary_state_def Let_def)
    with cut d p r show ?thesis by blast
  qed
qed

lemma prefix_map_lower: "prefix xs ys \<Longrightarrow> prefix (lower xs) (lower ys)"
  by (auto simp: prefix_def)

lemma drop_slice: "s \<le> c \<Longrightarrow> drop (c - s) (slice h s e) = slice h c e"
  by (simp add: slice_def drop_take)

text \<open>
  An occurrence that runs over the end of the text begins with a partial match; a text that ends in a pattern
  has an occurrence there; and no occurrence covers a cut at a partial match.
\<close>

lemma crossing_is_partial:
  assumes P: "slice (tx @ fut) (mstart m) (mend m) = P" and e: "mend m = mstart m + length P"
    and "mstart m < length tx" "length tx < mend m" "length P < length tx"
  shows "partial tx P (length tx - mstart m)"
proof -
  have "P = drop (mstart m) tx @ take (mend m - length tx) fut"
    using assms(3,4) unfolding P [symmetric] by (simp add: slice_def)
  then have "take (length tx - mstart m) P = drop (mstart m) tx" using assms(3) by simp
  then show ?thesis using assms by (auto simp: partial_def suffix_drop)
qed

lemma ends_in_match:
  assumes "p \<in> set pats" and "suffix p tx"
  obtains j where "is_match pats (tx @ fut) (Mat (length tx - length p) (length tx) j)"
proof -
  obtain j where j: "j < length pats" "p = pats ! j" using assms(1) by (auto simp: in_set_conv_nth)
  moreover have "slice (tx @ fut) (length tx - length p) (length tx) = p"
    using assms(2) by (auto simp: suffix_def slice_def)
  ultimately have "is_match pats (tx @ fut) (Mat (length tx - length p) (length tx) j)"
    using suffix_length_le [OF assms(2)] by (auto simp: is_match_def)
  then show ?thesis by (rule that)
qed

lemma partial_not_inside:
  assumes of: "overlap_free pats" and idx: "mpattern m < length pats"
    and P: "slice (tx @ fut) (mstart m) (mend m) = pats ! mpattern m"
      "mend m = mstart m + length (pats ! mpattern m)"
    and p: "p \<in> set pats" "partial tx p r"
    and "mstart m < length tx - r" "length tx - r < mend m" "mend m \<le> length tx"
  shows False
proof -
  let ?c = "length tx - r" and ?P = "pats ! mpattern m"
  let ?k = "?c - mstart m"
  have r: "r < length tx" "suffix (take r p) tx" "r < length p" using p(2) by (auto simp: partial_def)
  have "drop ?k ?P = slice (tx @ fut) ?c (mend m)"
    using P(1) assms(7) by (metis drop_slice less_imp_le)
  also have "\<dots> = take (mend m - ?c) (drop ?c tx)"
    using assms(8,9) by (simp add: slice_def)
  also have "drop ?c tx = take r p" using r by (auto simp: suffix_def)
  finally have "prefix (drop ?k ?P) p"
    by (metis prefix_order.trans take_is_prefix)
  then have "comparable (drop ?k (lower ?P)) (lower p)"
    by (metis comparable_def drop_map prefix_map_lower)
  moreover obtain j where "j < length pats" "p = pats ! j" using p(1) by (auto simp: in_set_conv_nth)
  moreover have "1 \<le> ?k" "?k < length ?P" using assms(7,8) P(2) by arith+
  ultimately show False
    using overlap_free_inside [OF of idx, of j ?k] by auto
qed

text \<open>
  No occurrence in the text, together with whatever follows it on the stream, lies across the
  boundary.
\<close>

lemma safe_boundary_clean:
  assumes st: "\<forall>p \<in> set (es_patterns st). valid_utf8 p"
      "es_max_pattern_len st = max_len (es_patterns st)"
    and of: "overlap_free (es_patterns st)" and ex: "case_exact (es_patterns st) (tx @ fut)"
  shows "clean_cut (es_patterns st) (tx @ fut) (length (fst (determine_safe_boundary_state tx st)))"
  unfolding clean_cut_def
proof (intro allI impI, rule ccontr)
  fix m
  let ?c = "length (fst (determine_safe_boundary_state tx st))" and ?n = "length tx"
  let ?P = "es_patterns st ! mpattern m"
  assume m: "is_match (es_patterns st) (tx @ fut) m" and "\<not> (mend m \<le> ?c \<or> ?c \<le> mstart m)"
  then have lt: "mstart m < ?c" "?c < mend m" by auto
  have P: "slice (tx @ fut) (mstart m) (mend m) = ?P" using ex m by (simp add: case_exact_def)
  have idx: "mpattern m < length (es_patterns st)" and e: "mend m = mstart m + length ?P"
    using m by (auto simp: is_match_def)
  have Pin: "?P \<in> set (es_patterns st)" using idx by simp
  note reach = crossing_is_partial [OF P e]
  show False
    using st
  proof (cases rule: safe_boundary_cases [where tx = tx])
    case hold
    with lt show False by simp
  next
    case (ends p)
    obtain j where "is_match (es_patterns st) (tx @ fut) (Mat (?n - length p) ?n j)"
      by (rule ends_in_match [OF ends(3,4)])
    moreover have "p \<noteq> []" "length p \<le> ?n"
      using overlap_free_nonempty [OF of] ends(3,4) by (auto dest: suffix_length_le)
    ultimately have "m = Mat (?n - length p) ?n j"
      using overlap_free_disjoint [OF of m] lt ends(1) by (cases p) auto
    with lt ends(1) show False by simp
  next
    case free
    with lt reach Pin max_len_ge [OF Pin] show False by auto
  next
    case (cut p r)
    have c: "?c = ?n - r" and r: "1 \<le> r" "r < ?n" using cut(1,4) by (auto simp: partial_def)
    show False
    proof (cases "?n < mend m")
      case True
      with reach lt c cut(2) max_len_ge [OF Pin] have "partial tx ?P (?n - mstart m)" by auto
      with cut(5) Pin have "?n - mstart m \<le> r" by blast
      with lt c r show False by auto
    next
      case False
      then show False using partial_not_inside [OF of idx P e cut(3,4)] lt c by auto
    qed
  qed
qed

lemma safe_boundary_split:
  assumes st: "\<forall>p \<in> set (es_patterns st). valid_utf8 p"
      "es_max_pattern_len st = max_len (es_patterns st)" and tx: "valid_utf8 tx"
    and c: "c = length (fst (determine_safe_boundary_state tx st))"
  shows "c \<le> length tx" and "length tx - c \<le> max_len (es_patterns st)" and "valid_utf8 (take c tx)"
proof -
  have "c \<le> length tx \<and> length tx - c \<le> max_len (es_patterns st) \<and> is_char_boundary tx c"
    using st
  proof (cases rule: safe_boundary_cases [where tx = tx])
    case (cut p r)
    then show ?thesis
      using c partial_boundary(1) [OF cut(4)] st(1) max_len_ge [OF cut(3)]
      by (auto simp: partial_def)
  qed (use c in \<open>auto simp: is_char_boundary_def\<close>)
  then show "c \<le> length tx" and "length tx - c \<le> max_len (es_patterns st)" and "valid_utf8 (take c tx)"
    using valid_utf8_split(1) [OF tx] by auto
qed

section \<open>One call of the stream redactor\<close>

text \<open>
  A buffer without a definite encoding error (\<open>error_len\<close> is \<open>None\<close>): at most three bytes are left
  over after its valid prefix.
\<close>

definition utf8_pending :: "bytes \<Rightarrow> bool" where
  "utf8_pending source \<longleftrightarrow> (\<forall>k n. from_utf8 source \<noteq> Utf8_Err k (Some n))"

lemma utf8_pending_stream: "valid_utf8 (source @ fut) \<Longrightarrow> utf8_pending source"
  using from_utf8_prefix [of source fut] by (auto simp: utf8_pending_def valid_utf8_def)

lemma utf8_pending_valid_len:
  assumes "utf8_pending source"
  obtains v where "v \<le> length source" "length source - v \<le> 3" "valid_utf8 (take v source)"
    "(case from_utf8 source of Utf8_Ok \<Rightarrow> Some (length source)
      | Utf8_Err valid_up_to None \<Rightarrow> Some valid_up_to
      | Utf8_Err valid_up_to (Some _) \<Rightarrow> None) = Some v"
proof (cases "from_utf8 source")
  case Utf8_Ok
  then show ?thesis using that [of "length source"] by (simp add: valid_utf8_def)
next
  case (Utf8_Err k e)
  with assms have k: "from_utf8 source = Utf8_Err k None"
    by (cases e) (auto simp: utf8_pending_def)
  with from_utf8_Err [OF k] show ?thesis using that [of k] by simp
qed

lemma process_source_step:
  assumes ok: "engine_ok (sr_state self)" and p: "sr_pending self = []"
    and u: "utf8_pending source"
    and cap: "max_len (es_patterns (sr_state self)) + 3 \<le> sr_max_capacity self"
  shows "\<exists>c out.
    process_source self source False = (self\<lparr>sr_pending := drop c source\<rparr>, Ok out) \<and>
    rendered out = redacted (sr_state self) (take c source) \<and>
    c \<le> length source \<and> valid_utf8 (take c source) \<and>
    length source - c \<le> max_len (es_patterns (sr_state self)) + 3 \<and>
    (\<forall>fut. overlap_free (es_patterns (sr_state self)) \<longrightarrow>
       case_exact (es_patterns (sr_state self)) (source @ fut) \<longrightarrow>
       clean_cut (es_patterns (sr_state self)) (source @ fut) c)"
proof -
  let ?st = "sr_state self"
  from ok have st: "\<forall>p \<in> set (es_patterns ?st). valid_utf8 p"
    "es_max_pattern_len ?st = max_len (es_patterns ?st)" by (auto simp: engine_ok_def)
  obtain v where v: "v \<le> length source" "length source - v \<le> 3" "valid_utf8 (take v source)"
    and dec: "(case from_utf8 source of Utf8_Ok \<Rightarrow> Some (length source)
      | Utf8_Err valid_up_to None \<Rightarrow> Some valid_up_to
      | Utf8_Err valid_up_to (Some _) \<Rightarrow> None) = Some v"
    by (rule utf8_pending_valid_len [OF u])
  define c where c: "c = length (fst (determine_safe_boundary_state (take v source) ?st))"
  note b = safe_boundary_split [OF st v(3) c]
  have cv: "c \<le> v" using b(1) v(1) by simp
  obtain out where out: "redact_source self source c = (Ok out :: (_, StreamRedactionError) outcome)"
    "rendered out = redacted ?st (take c source)"
    using redact_source_ok [OF ok, of c source] cv v(1) by auto
  have rest: "(if v < length source
        then (if c < v then slice source c v else []) @ drop v source
        else (if c < v then slice source c v else [])) = drop c source"
    using slice_glue [of c v "length source" source] cv v(1) by auto
  have len: "length source - c \<le> max_len (es_patterns ?st) + 3"
    using b(2) v(1,2) cv by simp
  then have 1: "process_source self source False = (self\<lparr>sr_pending := drop c source\<rparr>, Ok out)"
    unfolding process_source_def dec using v(3) p out(1) rest cv cap
    by (auto simp: Let_def c [symmetric] valid_utf8_def split: if_splits)
  have 2: "valid_utf8 (take c source)" using b(3) cv by (simp add: min_absorb1)
  have 3: "clean_cut (es_patterns ?st) (source @ fut) c"
    if "overlap_free (es_patterns ?st)" "case_exact (es_patterns ?st) (source @ fut)" for fut
    using safe_boundary_clean [OF st that(1), of "take v source" "drop v source @ fut"] that(2)
    by (metis append.assoc append_take_drop_id c)
  show ?thesis using 1 out(2) cv v(1) len 2 3 by (meson order_trans)
qed

lemma process_source_flush:
  assumes "engine_ok (sr_state self)" and "sr_pending self = []" and "valid_utf8 source"
  shows "\<exists>out. process_source self source True = (self\<lparr>sr_pending := []\<rparr>, Ok out) \<and>
           rendered out = redacted (sr_state self) source"
proof -
  obtain out where "redact_source self source (length source) = (Ok out :: (_, StreamRedactionError) outcome)"
    "rendered out = redacted (sr_state self) source"
    using redact_source_ok [OF assms(1), of "length source" source] by auto
  then show ?thesis
    using assms(2,3) by (auto simp: process_source_def Let_def valid_utf8_def)
qed

section \<open>A whole stream\<close>

lemma case_exact_drop: "case_exact pats (h1 @ h2) \<Longrightarrow> case_exact pats h2"
  unfolding case_exact_def
  by (metis is_match_append_right shift_mat_sel slice_shift)

lemma pending_Nil: "sr_pending self = [] \<Longrightarrow> self\<lparr>sr_pending := []\<rparr> = self"
  by (cases self) simp

lemma push_process:
  "push self chunk = (if chunk = [] then (self, Ok [])
     else process_source (self\<lparr>sr_pending := []\<rparr>) (sr_pending self @ chunk) False)"
  by (auto simp: push_def pending_Nil)

lemma finish_process:
  "finish self = (if sr_pending self = [] then (self, Ok [])
     else process_source (self\<lparr>sr_pending := []\<rparr>) (sr_pending self) True)"
  by (simp add: finish_def)

lemma redacted_Nil: "engine_ok st \<Longrightarrow> overlap_free (es_patterns st) \<Longrightarrow> redacted st [] = []"
  using redacted_append [of st "[]" "[]"] by (simp add: clean_cut_def is_match_def)

lemma redact_stream_Cons_Nil: "redact_stream self ([] # cs) = redact_stream self cs"
  by (auto simp: redact_stream_def push_process split: prod.splits outcome.splits)

lemma redact_stream_Cons:
  assumes "c \<noteq> []" and "process_source (self\<lparr>sr_pending := []\<rparr>) (sr_pending self @ c) False = (self', Ok out)"
  shows "redact_stream self (c # cs) = obind (redact_stream self' cs) (\<lambda>out'. Ok (out @ out'))"
  using assms by (auto simp: redact_stream_def push_process obind_assoc split: prod.splits outcome.splits)

lemma redact_stream_spec:
  assumes "engine_ok (sr_state self)" and "overlap_free (es_patterns (sr_state self))"
    and "max_len (es_patterns (sr_state self)) + 3 \<le> sr_max_capacity self"
    and "valid_utf8 (sr_pending self @ concat chunks)"
    and "case_exact (es_patterns (sr_state self)) (sr_pending self @ concat chunks)"
  shows "\<exists>out. redact_stream self chunks = Ok out \<and>
           rendered out = redacted (sr_state self) (sr_pending self @ concat chunks)"
  using assms
proof (induction chunks arbitrary: self)
  case Nil
  then show ?case
    using process_source_flush [of "self\<lparr>sr_pending := []\<rparr>" "sr_pending self"] redacted_Nil
    by (auto simp: redact_stream_def finish_process rendered_def)
next
  case (Cons c cs)
  show ?case
  proof (cases "c = []")
    case True
    with Cons.IH [OF Cons.prems(1-3)] Cons.prems(4,5) show ?thesis by (simp add: redact_stream_Cons_Nil)
  next
    case False
    let ?fut = "concat cs" and ?self = "self\<lparr>sr_pending := []\<rparr>"
    define src where src: "src = sr_pending self @ c"
    have v: "valid_utf8 (src @ ?fut)" and ex: "case_exact (es_patterns (sr_state self)) (src @ ?fut)"
      using Cons.prems(4,5) by (simp_all add: src)
    obtain k out where
      step: "process_source ?self src False = (?self\<lparr>sr_pending := drop k src\<rparr>, Ok out)"
      and out: "rendered out = redacted (sr_state self) (take k src)"
      and k: "k \<le> length src" "valid_utf8 (take k src)"
      and cut: "clean_cut (es_patterns (sr_state self)) (src @ ?fut) k"
      using process_source_step [of ?self src] utf8_pending_stream [OF v] Cons.prems(1-3) ex by auto
    let ?self' = "?self\<lparr>sr_pending := drop k src\<rparr>"
    have whole: "src @ ?fut = take k src @ (drop k src @ ?fut)" by (metis append_assoc append_take_drop_id)
    have "valid_utf8 (drop k src @ ?fut)"
      using v valid_utf8_append [OF k(2), of "drop k src @ ?fut"] whole by metis
    moreover have "case_exact (es_patterns (sr_state self)) (drop k src @ ?fut)"
      using ex whole case_exact_drop by metis
    ultimately obtain out' where out': "redact_stream ?self' cs = Ok out'"
      "rendered out' = redacted (sr_state self) (drop k src @ ?fut)"
      using Cons.IH [of ?self'] Cons.prems(1-3) by auto
    have "redacted (sr_state self) (src @ ?fut) =
        redacted (sr_state self) (take k src) @ redacted (sr_state self) (drop k src @ ?fut)"
      using redacted_append [OF Cons.prems(1,2), of "take k src" "drop k src @ ?fut"] cut k(1) whole
      by (metis length_take min.absorb2)
    moreover have "redact_stream self (c # cs) = Ok (out @ out')"
      using out'(1) redact_stream_Cons [OF False step [unfolded src]] by (simp add: src)
    ultimately show ?thesis using out out'(2) by (simp add: rendered_def src)
  qed
qed

text \<open>Whether the stream is UTF-8 decides alone whether it is accepted.\<close>

lemma process_source_flush_invalid:
  assumes "\<not> valid_utf8 source"
  shows "process_source self source True = (self, Err InvalidUtf8)"
proof -
  obtain k e where k: "from_utf8 source = Utf8_Err k e"
    using assms by (cases "from_utf8 source") (auto simp: valid_utf8_def)
  with from_utf8_Err [OF k] show ?thesis by (cases e) (auto simp: process_source_def)
qed

lemma process_source_rejects:
  "\<not> utf8_pending source \<Longrightarrow> process_source self source fl = (self, Err InvalidUtf8)"
  by (auto simp: utf8_pending_def process_source_def)

lemma redact_stream_utf8:
  assumes "engine_ok (sr_state self)"
    and "max_len (es_patterns (sr_state self)) + 3 \<le> sr_max_capacity self"
  shows "if valid_utf8 (sr_pending self @ concat chunks) then \<exists>out. redact_stream self chunks = Ok out
         else redact_stream self chunks = Err InvalidUtf8"
  using assms
proof (induction chunks arbitrary: self)
  case Nil
  then show ?case
    using process_source_flush [of "self\<lparr>sr_pending := []\<rparr>" "sr_pending self"]
      process_source_flush_invalid [of "sr_pending self" "self\<lparr>sr_pending := []\<rparr>"]
    by (auto simp: redact_stream_def finish_process)
next
  case (Cons c cs)
  show ?case
  proof (cases "c = []")
    case True
    with Cons.IH [OF Cons.prems] show ?thesis by (simp add: redact_stream_Cons_Nil)
  next
    case False
    define src where src: "src = sr_pending self @ c"
    let ?self = "self\<lparr>sr_pending := []\<rparr>"
    show ?thesis
    proof (cases "utf8_pending src")
      case True
      obtain k out where
        step: "process_source ?self src False = (?self\<lparr>sr_pending := drop k src\<rparr>, Ok out)"
        and k: "valid_utf8 (take k src)"
        using process_source_step [of ?self src] True Cons.prems by auto
      have "valid_utf8 (src @ concat cs) \<longleftrightarrow> valid_utf8 (drop k src @ concat cs)"
        using valid_utf8_append [OF k, of "drop k src @ concat cs"]
        by (metis append_assoc append_take_drop_id)
      moreover have "redact_stream self (c # cs) =
          obind (redact_stream (?self\<lparr>sr_pending := drop k src\<rparr>) cs) (\<lambda>out'. Ok (out @ out'))"
        using redact_stream_Cons [OF False step [unfolded src]] by (simp add: src)
      ultimately show ?thesis
        using Cons.IH [of "?self\<lparr>sr_pending := drop k src\<rparr>"] Cons.prems by (auto simp: src split: if_splits)
    next
      case False
      then have "\<not> valid_utf8 (src @ concat cs)" by (auto dest: utf8_pending_stream)
      moreover have "redact_stream self (c # cs) = Err InvalidUtf8"
        using process_source_rejects [OF False] \<open>c \<noteq> []\<close> by (simp add: redact_stream_def push_process src)
      ultimately show ?thesis by (simp add: src)
    qed
  qed
qed

section \<open>What is forwarded unchanged\<close>

lemma redact_loop_gap:
  assumes "redact_loop reps source safe l ms = (Ok segs :: (OutputSegment list, 'e) outcome)"
    and "Input b \<in> set segs" and "spans safe l ms"
  shows "\<exists>s e. b = slice source s e \<and> l \<le> s \<and> s \<le> e \<and> e \<le> safe \<and>
           (\<forall>m \<in> set ms. mend m \<le> s \<or> e \<le> mstart m)"
  using assms
proof (induction ms arbitrary: l segs)
  case Nil
  then have "b = slice source l safe" "l \<le> safe" by (auto simp: slice_checked_def split: if_splits)
  then show ?case by auto
next
  case (Cons m ms)
  from Cons.prems(1) obtain rest where rest:
    "redact_loop reps source safe (mend m) ms = (Ok rest :: (OutputSegment list, 'e) outcome)"
    and segs: "segs = (if mstart m > l then [Input (slice source l (mstart m))] else []) @
      Replacement (reps ! mpattern m) # rest"
    by (auto simp: slice_checked_def nth_checked_def split: if_splits)
  note sp = spans_bounds [OF Cons.prems(3)]
  from Cons.prems(2) segs consider "l < mstart m" "b = slice source l (mstart m)" | "Input b \<in> set rest"
    by (auto split: if_splits)
  then show ?case
  proof cases
    case 1
    have "mstart m \<le> mend m'" "mstart m \<le> mstart m'" if "m' \<in> set ms" for m'
      using Cons.prems(3) spans_bounds [of safe "mend m" ms] that by auto
    with 1 sp show ?thesis by fastforce
  next
    case 2
    with Cons.IH [OF rest] Cons.prems(3) show ?thesis by fastforce
  qed
qed

lemma gap_has_no_match:
  assumes s: "searcher pats fi" and ne: "[] \<notin> set pats" and b: "b = slice h s e" "s \<le> e" "e \<le> length h"
    and gap: "\<forall>m \<in> set (fi h). mend m \<le> s \<or> e \<le> mstart m"
  shows "\<not> is_match pats b m"
proof
  assume m: "is_match pats b m"
  have h: "h = take s h @ b @ drop e h"
    using b slice_glue_take [of s e h] by (metis append.assoc append_take_drop_id)
  have "is_match pats (b @ drop e h) m"
    using m is_match_span [OF m] by (simp add: is_match_append_left)
  then have hm: "is_match pats h (shift_mat s m)"
    using is_match_append_right [of pats "take s h" "b @ drop e h" m] h b by simp
  have lt: "mstart m < mend m" using is_match_nonempty [OF m ne] .
  have "mend m \<le> e - s" using is_match_span [OF m] b by simp
  with b(2) have e: "s + mend m \<le> e" by simp
  obtain m' where m': "m' \<in> set (fi h)" "s + mstart m < mend m'" "mend m' \<le> s + mend m"
    using searcher.fi_complete [OF s hm] lt by auto
  with is_match_nonempty [OF searcher.fi_sound [OF s m'(1)] ne] gap e show False by fastforce
qed

lemma redact_source_gap:
  assumes ok: "engine_ok (sr_state self)" and ne: "[] \<notin> set (es_patterns (sr_state self))"
    and r: "redact_source self source safe = (Ok segs :: (OutputSegment list, 'e) outcome)"
    and b: "Input b \<in> set segs"
  shows "\<not> is_match (es_patterns (sr_state self)) b m"
proof -
  let ?fi = "ac_find_iter (es_ac (sr_state self))" and ?h = "take safe source"
  have s: "searcher (es_patterns (sr_state self)) ?fi" using ok by (simp add: engine_ok_def)
  from r have safe: "safe \<le> length source" and loop:
    "redact_loop (es_replacements (sr_state self)) source safe 0 (?fi ?h) = (Ok segs :: (_, 'e) outcome)"
    by (auto simp: redact_source_def slice_checked_def split: if_splits)
  have "spans safe 0 (?fi ?h)" using searcher.fi_spans [OF s, of ?h] safe by simp
  from redact_loop_gap [OF loop b this] obtain i j where g: "b = slice source i j" "i \<le> j" "j \<le> safe"
    "\<forall>m \<in> set (?fi ?h). mend m \<le> i \<or> j \<le> mstart m" by auto
  then show ?thesis using gap_has_no_match [OF s ne, of b ?h i j] safe by (simp add: slice_take)
qed

lemma process_source_Ok:
  "process_source self source fl = (self', Ok out) \<Longrightarrow>
     \<exists>safe. redact_source self source safe = (Ok out :: (_, StreamRedactionError) outcome) \<and>
       length (sr_pending self') \<le> sr_max_capacity self'"
  unfolding process_source_def Let_def
  by (auto split: option.splits if_splits outcome.splits)

section \<open>One-shot redaction\<close>

lemma ascii_lower_ascii: "(of_char c :: nat) < 128 \<Longrightarrow> (of_char (ascii_lower c) :: nat) < 128"
  by (auto simp: ascii_lower_def Let_def)

lemma ascii_lower_id: "128 \<le> (of_char c :: nat) \<Longrightarrow> ascii_lower c = c"
  by (simp add: ascii_lower_def Let_def)

lemma ascii_lower_ge: "128 \<le> (of_char (ascii_lower c) :: nat) \<longleftrightarrow> 128 \<le> (of_char c :: nat)"
  using ascii_lower_ascii [of c] ascii_lower_id [of c] by (cases "128 \<le> (of_char c :: nat)") auto

lemma is_cont_lower [simp]: "is_cont (ascii_lower c) = is_cont c"
  using ascii_lower_ge [of c] ascii_lower_id [of c]
  by (cases "128 \<le> (of_char c :: nat)") (auto simp: is_cont_def)

lemma byte_in_lower: "128 \<le> lo \<Longrightarrow> byte_in lo hi (ascii_lower c) = byte_in lo hi c"
  using ascii_lower_ge [of c] ascii_lower_id [of c]
  by (cases "128 \<le> (of_char c :: nat)") (auto simp: byte_in_def)

lemma utf8_tail_lower: "utf8_tail (ascii_lower b) = utf8_tail b"
proof (cases "(of_char b :: nat) < 128")
  case True
  with ascii_lower_ascii [OF True] show ?thesis by (simp add: utf8_tail_def Let_def)
next
  case False
  then show ?thesis by (simp add: ascii_lower_id)
qed

lemma utf8_tail_member_lower:
  "utf8_tail b = Some Ps \<Longrightarrow> P \<in> set Ps \<Longrightarrow> P (ascii_lower c) = P c"
  by (auto simp: utf8_tail_def Let_def byte_in_lower split: if_splits)

lemma match_tail_lower:
  "\<forall>P \<in> set Ps. \<forall>c. P (ascii_lower c) = P c \<Longrightarrow> match_tail k Ps (lower cs) = match_tail k Ps cs"
  by (induction k Ps cs rule: match_tail.induct) auto

lemma utf8_next_lower: "utf8_next (ascii_lower b) (lower cs) = utf8_next b cs"
  using utf8_tail_member_lower [of b]
  by (auto simp: utf8_next_def utf8_tail_lower intro!: match_tail_lower split: option.splits)

lemma valid_utf8_lower: "valid_utf8 (lower xs) = valid_utf8 xs"
proof (induction xs rule: length_induct)
  case (1 xs)
  show ?case
  proof (cases xs)
    case (Cons b r)
    have "valid_utf8 (drop n (lower r)) = valid_utf8 (drop n r)" for n
      using "1.IH" Cons by (simp add: drop_map)
    with Cons show ?thesis by (auto simp: valid_utf8_Cons utf8_next_lower)
  qed simp
qed

text \<open>A match of a UTF-8 pattern in a UTF-8 text begins and ends at character boundaries.\<close>

lemma match_boundary:
  assumes m: "is_match pats h m" and h: "valid_utf8 h" and pats: "\<forall>p \<in> set pats. valid_utf8 p"
    and ne: "[] \<notin> set pats"
  shows "is_char_boundary h (mstart m)" and "is_char_boundary h (mend m)"
proof -
  let ?s = "mstart m" and ?e = "mend m"
  define w where w: "w = slice h ?s ?e"
  have sp: "?s < ?e" "?e \<le> length h" using is_match_nonempty [OF m ne] is_match_span [OF m] by auto
  have "lower w = lower (pats ! mpattern m)" using m unfolding is_match_def w by blast
  moreover have "valid_utf8 (pats ! mpattern m)" using m pats by (auto simp: is_match_def)
  ultimately have vw: "valid_utf8 w" by (metis valid_utf8_lower)
  have "drop ?s h = w @ drop ?e h"
    using slice_glue [of ?s ?e "length h" h] sp w by simp
  moreover have "w \<noteq> []" using sp w by (auto simp flip: length_0_conv)
  ultimately obtain b w' where bw: "w = b # w'" and "drop ?s h = b # w' @ drop ?e h"
    by (cases w) auto
  then have "h ! ?s = b" using sp by (metis hd_drop_conv_nth list.sel(1) less_le_trans)
  with vw bw sp show s: "is_char_boundary h ?s"
    by (auto simp: is_char_boundary_def dest: valid_utf8_first)
  have "drop ?s h = w @ drop ?e h"
    using slice_glue [of ?s ?e "length h" h] sp w by simp
  then have "valid_utf8 (w @ drop ?e h)"
    using valid_utf8_split(2) [OF h s] by simp
  then have d: "valid_utf8 (drop ?e h)" using valid_utf8_append [OF vw] by simp
  show "is_char_boundary h ?e"
  proof (cases "?e < length h")
    case True
    then have "drop ?e h = h ! ?e # drop (Suc ?e) h" by (simp add: Cons_nth_drop_Suc)
    with d True show ?thesis by (metis is_char_boundary_def not_le valid_utf8_first)
  next
    case False
    with sp show ?thesis by (simp add: is_char_boundary_def)
  qed
qed

lemma redact_text_loop_render:
  assumes "spans (length h) l ms" and "\<forall>m \<in> set ms. mpattern m < length reps"
    and "is_char_boundary h l"
    and "\<forall>m \<in> set ms. is_char_boundary h (mstart m) \<and> is_char_boundary h (mend m)"
  shows "redact_text_loop reps h l acc ms = Ok (acc @ render reps h l ms)"
  using assms
proof (induction ms arbitrary: l acc)
  case Nil
  then show ?case by (auto simp: str_slice_def is_char_boundary_def)
next
  case (Cons m ms)
  note sp = spans_bounds [OF Cons.prems(1)]
  have "str_slice h l (mstart m) = Ok (slice h l (mstart m))"
    using sp Cons.prems by (auto simp: str_slice_def)
  with Cons sp show ?case by (auto simp: nth_checked_def)
qed

lemma redact_text_spec:
  assumes ok: "engine_ok (pv_engine_state vault)"
    and v: "pv_searcher vault = es_ac (pv_engine_state vault)"
      "pv_replacement_strings vault = es_replacements (pv_engine_state vault)"
    and f: "\<forall>h. ac_find (pv_searcher vault) h =
      (case ac_find_iter (pv_searcher vault) h of [] \<Rightarrow> None | m # _ \<Rightarrow> Some m)"
    and ne: "[] \<notin> set (es_patterns (pv_engine_state vault))" and h: "valid_utf8 h"
  shows "\<exists>c. redact_text h vault = (Ok c :: (cow, 'e) outcome) \<and>
           into_owned c = redacted (pv_engine_state vault) h"
proof (cases "ac_find_iter (pv_searcher vault) h")
  case Nil
  with f v show ?thesis by (auto simp: redact_text_def redacted_def)
next
  case (Cons m ms)
  let ?st = "pv_engine_state vault"
  have s: "searcher (es_patterns ?st) (ac_find_iter (es_ac ?st))"
    and len: "length (es_replacements ?st) = length (es_patterns ?st)"
    and pats: "\<forall>p \<in> set (es_patterns ?st). valid_utf8 p"
    using ok by (simp_all add: engine_ok_def)
  have "redact_text_loop (es_replacements ?st) h 0 [] (ac_find_iter (es_ac ?st) h) =
      (Ok ([] @ redacted ?st h) :: (bytes, 'e) outcome)"
    unfolding redacted_def
    using searcher.fi_spans [OF s] searcher.fi_span [OF s, of _ h] searcher.fi_sound [OF s, of _ h]
      match_boundary [OF _ h pats ne] len
    by (intro redact_text_loop_render) (auto simp: is_char_boundary_def [of h 0])
  with Cons f v have "redact_text h vault = (Ok (Owned (redacted ?st h)) :: (cow, 'e) outcome)"
    by (simp add: redact_text_def del: redact_text_loop.simps)
  then show ?thesis by simp
qed

section \<open>Vaults built from well-formed rules\<close>

lemma build_redaction_dfa_eq: "build_redaction_dfa build pats = expect (build pats)"
  by (simp add: build_redaction_dfa_def REDACTION_DFA_def)

lemma EngineState_new_ok:
  assumes "builder_ok build" and "EngineState_new build pats reps = Ok st"
    and "length reps = length pats" and "\<forall>p \<in> set pats. valid_utf8 p"
  shows "engine_ok st" and "es_patterns st = pats" and "es_replacements st = reps"
    and "\<forall>h. ac_find (es_ac st) h =
      (case ac_find_iter (es_ac st) h of [] \<Rightarrow> None | m # _ \<Rightarrow> Some m)"
  using assms
  by (auto simp: EngineState_new_def build_redaction_dfa_eq expect_def engine_ok_def builder_ok_def
      split: option.splits)

lemma PiiVault_new_ok:
  assumes "builder_ok build" and "PiiVault_new build to_string pats reps = Ok vault"
    and "\<forall>p \<in> set pats. valid_utf8 p"
  shows "engine_ok (pv_engine_state vault)" and "es_patterns (pv_engine_state vault) = pats"
    and "es_replacements (pv_engine_state vault) = reps" and "length reps = length pats"
    and "pv_searcher vault = es_ac (pv_engine_state vault)"
    and "pv_replacement_strings vault = es_replacements (pv_engine_state vault)"
    and "\<forall>h. ac_find (pv_searcher vault) h =
      (case ac_find_iter (pv_searcher vault) h of [] \<Rightarrow> None | m # _ \<Rightarrow> Some m)"
  using assms
  by (auto simp: PiiVault_new_def EngineState_new_def build_redaction_dfa_eq expect_def engine_ok_def
      builder_ok_def split: option.splits if_splits)

lemma with_max_capacity_Ok:
  "with_max_capacity vault cap = Ok r \<longleftrightarrow>
     0 < cap \<and> r = \<lparr>sr_state = pv_engine_state vault, sr_pending = [], sr_max_capacity = cap\<rparr>"
  by (auto simp: with_max_capacity_def with_state_max_capacity_def)

section \<open>Searches that are determined by the contract\<close>

lemma fi_eq_reference:
  assumes s: "searcher pats fi" and "overlap_free pats"
  shows "fi h = reference_find_iter pats h"
  using searcher.fi_strict [OF s] searcher.fi_set [OF s assms(2)] reference.fi_strict
    reference.fi_set [OF assms(2)] overlap_free_nonempty [OF assms(2)]
  by (intro strict_sorted_equal) auto

lemma fi_Nil_reference:
  assumes s: "searcher pats fi" and "[] \<notin> set pats"
  shows "fi h = [] \<longleftrightarrow> reference_find_iter pats h = []"
  using searcher.fi_Nil [OF s assms(2)] reference.fi_Nil [OF assms(2)] by simp

lemma case_exact_reference:
  "overlap_free pats \<Longrightarrow> case_exact pats h \<longleftrightarrow>
     list_all (\<lambda>m. slice h (mstart m) (mend m) = pats ! mpattern m) (reference_find_iter pats h)"
  using reference.fi_set [of pats h] by (auto simp: case_exact_def list_all_iff)

text \<open>For such rules every automaton with the contract is the reference automaton.\<close>

lemma build_eq_reference:
  assumes "builder_ok build" and "build pats = Some a" and "overlap_free pats"
  shows "build pats = reference_build pats"
proof -
  have s: "searcher pats (ac_find_iter a)"
    and f: "ac_find a = (\<lambda>h. case ac_find_iter a h of [] \<Rightarrow> None | m # _ \<Rightarrow> Some m)"
    using assms(1,2) by (auto simp: builder_ok_def)
  have "ac_find_iter a = reference_find_iter pats"
    using fi_eq_reference [OF s assms(3)] by blast
  with f assms(2) show ?thesis by (cases a) (simp add: reference_build_def)
qed

section \<open>Properties\<close>

text \<open>
  C1: fragmentation does not change the result. For rules whose occurrences cannot overlap, a
  stream that is UTF-8 and spells the rules' words as configured, and a buffer that can hold the
  longest rule, the stream redactor produces for every way of cutting the stream into chunks
  the same bytes as \<open>redact_text\<close> on the whole text.
\<close>
theorem redact_stream_equals_redact_text:
  assumes "builder_ok build"
    and "PiiVault_new build to_string pats reps = (Ok vault :: (PiiVault, unit) outcome)"
    and "\<forall>p \<in> set pats. valid_utf8 p" and "overlap_free pats"
    and "with_max_capacity vault cap = (Ok r :: (StreamRedactor, unit) outcome)"
    and "max_len pats + 3 \<le> cap"
    and "valid_utf8 (concat chunks)" and "case_exact pats (concat chunks)"
  shows "\<exists>segs c. redact_stream r chunks = Ok segs \<and>
           redact_text (concat chunks) vault = (Ok c :: (cow, unit) outcome) \<and>
           rendered segs = into_owned c"
proof -
  note v = PiiVault_new_ok [OF assms(1,2,3)]
  have ne: "[] \<notin> set (es_patterns (pv_engine_state vault))"
    using overlap_free_nonempty [OF assms(4)] v(2) by simp
  obtain segs where "redact_stream r chunks = Ok segs"
    "rendered segs = redacted (pv_engine_state vault) (concat chunks)"
    using redact_stream_spec [of r chunks] assms(4-8) v(1,2) by (auto simp: with_max_capacity_Ok)
  moreover obtain c where "redact_text (concat chunks) vault = (Ok c :: (cow, unit) outcome)"
    "into_owned c = redacted (pv_engine_state vault) (concat chunks)"
    using redact_text_spec [OF v(1,5,6,7) ne assms(7)] by blast
  ultimately show ?thesis by simp
qed

text \<open>The three default rules, each replaced by \<open>[REDACTED]\<close>, with the reference automaton.\<close>

definition sample_vault :: PiiVault where
  "sample_vault =
     (let a = the (reference_build default_patterns);
          reps = [''[REDACTED]'', ''[REDACTED]'', ''[REDACTED]''] in
      \<lparr>pv_searcher = a, pv_max_pattern_len = 8, pv_patterns = default_patterns,
       pv_replacements = reps, pv_replacement_strings = reps, pv_escaped_replacements = reps,
       pv_engine_state = \<lparr>es_ac = a, es_max_pattern_len = 8, es_patterns = default_patterns,
         es_replacements = reps, es_replacement_strings = reps\<rparr>\<rparr>)"

definition sample_to_string :: "bytes \<Rightarrow> bytes option" where
  "sample_to_string v = Some ([CHR 0x22] @ v @ [CHR 0x22])"

lemma sample_vault_new:
  "PiiVault_new reference_build sample_to_string default_patterns
     [''[REDACTED]'', ''[REDACTED]'', ''[REDACTED]''] = (Ok sample_vault :: (PiiVault, 'e) outcome)"
  by (simp add: PiiVault_new_def EngineState_new_def build_redaction_dfa_eq expect_def
      reference_build_def sample_vault_def default_patterns_def max_len_def
      escape_replacement_def sample_to_string_def slice_def Let_def eval_nat_numeral)

lemma sample_rules: "overlap_free default_patterns" "\<forall>p \<in> set default_patterns. valid_utf8 p"
  "max_len default_patterns = 8"
  by (code_simp, code_simp, code_simp)

lemma sample_redactor:
  "with_max_capacity sample_vault 64 = (Ok \<lparr>sr_state = pv_engine_state sample_vault, sr_pending = [],
     sr_max_capacity = 64\<rparr> :: (StreamRedactor, 'e) outcome)"
  by (simp add: with_max_capacity_Ok)

theorem redact_stream_equals_redact_text_witness:
  "\<exists>segs c. redact_stream \<lparr>sr_state = pv_engine_state sample_vault, sr_pending = [], sr_max_capacity = 64\<rparr>
       [''my pass'', ''word is a sec'', ''ret''] = Ok segs \<and>
     redact_text (concat [''my pass'', ''word is a sec'', ''ret'']) sample_vault = (Ok c :: (cow, unit) outcome) \<and>
     rendered segs = into_owned c"
proof (rule redact_stream_equals_redact_text [OF builder_ok_reference sample_vault_new
      sample_rules(2,1) sample_redactor])
  show "max_len default_patterns + 3 \<le> 64" by (simp add: sample_rules(3))
  show "valid_utf8 (concat [''my pass'', ''word is a sec'', ''ret''])" by code_simp
  show "case_exact default_patterns (concat [''my pass'', ''word is a sec'', ''ret''])"
    unfolding case_exact_reference [OF sample_rules(1)] by code_simp
qed

text \<open>
  C4: no leak inside a segment. Whatever the rules, as long as none of them is the empty string, and wherever
  the chunks are cut, a segment that \<open>push\<close> or \<open>finish\<close> forwards as input contains no occurrence of any
  rule, in any case.
\<close>
theorem input_segments_pattern_free:
  assumes "engine_ok (sr_state self)" and "[] \<notin> set (es_patterns (sr_state self))"
    and "push self chunk = (self', Ok segs) \<or> finish self = (self', Ok segs)"
    and "Input b \<in> set segs"
  shows "\<not> is_match (es_patterns (sr_state self)) b m"
proof -
  let ?self = "self\<lparr>sr_pending := []\<rparr>"
  have "\<exists>src fl. process_source ?self src fl = (self', Ok segs)"
    using assms(3,4) by (auto simp: push_process finish_process split: if_splits)
  then obtain src safe where "redact_source ?self src safe = (Ok segs :: (_, StreamRedactionError) outcome)"
    using process_source_Ok by blast
  with redact_source_gap [of ?self src safe segs b m] assms show ?thesis by simp
qed

theorem input_segments_pattern_free_witness:
  "\<not> is_match default_patterns '' is a '' (Mat 0 3 2)"
proof -
  let ?r = "\<lparr>sr_state = pv_engine_state sample_vault, sr_pending = ''password'', sr_max_capacity = 64\<rparr>"
  have ok: "engine_ok (sr_state ?r)"
    using PiiVault_new_ok(1) [OF builder_ok_reference sample_vault_new sample_rules(2)] by simp
  have pats: "es_patterns (sr_state ?r) = default_patterns" by (simp add: sample_vault_def Let_def)
  have "snd (push ?r '' is a '') = Ok [Replacement ''[REDACTED]'', Input '' is a '']"
    by code_simp
  then obtain r' where "push ?r '' is a '' = (r', Ok [Replacement ''[REDACTED]'', Input '' is a ''])"
    by (cases "push ?r '' is a ''") auto
  then have "push ?r '' is a '' = (r', Ok [Replacement ''[REDACTED]'', Input '' is a '']) \<or>
      finish ?r = (r', Ok [Replacement ''[REDACTED]'', Input '' is a ''])" by simp
  from input_segments_pattern_free [OF ok _ this, of "'' is a ''" "Mat 0 3 2"] pats
  show ?thesis using overlap_free_nonempty [OF sample_rules(1)] by simp
qed

lemma redact_stream_outcome:
  assumes "engine_ok st" and "max_len (es_patterns st) + 3 \<le> cap"
    and "with_state_max_capacity st cap = (Ok r :: (StreamRedactor, 'e) outcome)"
  shows "((\<exists>segs. redact_stream r chunks = Ok segs) \<longleftrightarrow> valid_utf8 (concat chunks)) \<and>
         (redact_stream r chunks = Err InvalidUtf8 \<longleftrightarrow> \<not> valid_utf8 (concat chunks))"
proof -
  have r: "sr_state r = st" "sr_pending r = []" "sr_max_capacity r = cap"
    using assms(3) by (auto simp: with_state_max_capacity_def split: if_splits)
  show ?thesis
    using redact_stream_utf8 [of r chunks, unfolded r, OF assms(1,2)] by (auto split: if_splits)
qed

text \<open>
  C22: The stream redactor fails exactly on streams that are not UTF-8. With a buffer that can
  hold the longest rule and one incomplete character it never panics and never
  reports \<open>BufferLimitExceeded\<close>; a scalar value may be cut anywhere by the chunks.
\<close>
theorem redact_stream_fails_iff_not_utf8:
  assumes "engine_ok st" and "max_len (es_patterns st) + 3 \<le> cap"
    and "with_state_max_capacity st cap = (Ok r :: (StreamRedactor, unit) outcome)"
  shows "((\<exists>segs. redact_stream r chunks = Ok segs) \<longleftrightarrow> valid_utf8 (concat chunks)) \<and>
         (redact_stream r chunks = Err InvalidUtf8 \<longleftrightarrow> \<not> valid_utf8 (concat chunks))"
  using assms by (rule redact_stream_outcome)

lemma sample_engine_ok: "engine_ok (pv_engine_state sample_vault)"
  using PiiVault_new_ok(1) [OF builder_ok_reference sample_vault_new sample_rules(2)] .

theorem redact_stream_fails_iff_not_utf8_witness:
  "redact_stream \<lparr>sr_state = pv_engine_state sample_vault, sr_pending = [], sr_max_capacity = 64\<rparr>
     [[CHR 0xF0, CHR 0x9F], [CHR 0x9A]] = Err InvalidUtf8"
proof -
  let ?st = "pv_engine_state sample_vault"
  have "max_len (es_patterns ?st) + 3 \<le> 64"
    using sample_rules(3) by (simp add: sample_vault_def Let_def)
  moreover have "with_state_max_capacity ?st 64 =
      (Ok \<lparr>sr_state = ?st, sr_pending = [], sr_max_capacity = 64\<rparr> :: (StreamRedactor, unit) outcome)"
    by (simp add: with_state_max_capacity_def)
  moreover have "\<not> valid_utf8 (concat [[CHR 0xF0, CHR 0x9F], [CHR 0x9A]])" by code_simp
  ultimately show ?thesis
    using redact_stream_fails_iff_not_utf8 [OF sample_engine_ok] by blast
qed

text \<open>
  C21: the memory a stream can pin. After every accepted chunk the bytes held back are at most the
  longest rule plus one incomplete character, however long the chunk was.
\<close>
theorem pending_bounded_by_longest_rule:
  assumes "engine_ok (sr_state self)" and "length (sr_pending self) \<le> max_len (es_patterns (sr_state self)) + 3"
    and "max_len (es_patterns (sr_state self)) + 3 \<le> sr_max_capacity self"
    and "push self chunk = (self', Ok segs)"
  shows "length (sr_pending self') \<le> max_len (es_patterns (sr_state self')) + 3 \<and>
         sr_state self' = sr_state self"
proof (cases "chunk = []")
  case True
  with assms show ?thesis by (simp add: push_def)
next
  case False
  let ?self = "self\<lparr>sr_pending := []\<rparr>" and ?src = "sr_pending self @ chunk"
  have p: "process_source ?self ?src False = (self', Ok segs)"
    using assms(4) False by (simp add: push_process)
  then have "utf8_pending ?src" using process_source_rejects [of ?src ?self False] by auto
  then obtain c where "self' = ?self\<lparr>sr_pending := drop c ?src\<rparr>"
    "length ?src - c \<le> max_len (es_patterns (sr_state ?self)) + 3"
    using process_source_step [of ?self ?src] assms(1,3) p by auto
  then show ?thesis by simp
qed

theorem pending_bounded_by_longest_rule_witness:
  "length (sr_pending (fst (push \<lparr>sr_state = pv_engine_state sample_vault, sr_pending = [],
     sr_max_capacity = 64\<rparr> ''the log ends in pass''))) \<le> 11"
proof -
  let ?r = "\<lparr>sr_state = pv_engine_state sample_vault, sr_pending = [], sr_max_capacity = 64\<rparr>"
  have max: "max_len (es_patterns (sr_state ?r)) = 8"
    using sample_rules(3) by (simp add: sample_vault_def Let_def)
  have "snd (push ?r ''the log ends in pass'') = Ok [Input ''the log ends in '']" by code_simp
  then obtain r' where r': "push ?r ''the log ends in pass'' = (r', Ok [Input ''the log ends in ''])"
    by (cases "push ?r ''the log ends in pass''") auto
  with pending_bounded_by_longest_rule [OF _ _ _ r'] sample_engine_ok max
  show ?thesis by auto
qed

text \<open>
  the match is case-insensitive, the boundary is not. With the default rules, a word in
  upper case that is cut by a chunk boundary is forwarded unredacted, while the one-shot redaction of
  the same text replaces it: the hypothesis on spelling in C1 is needed.
\<close>
lemma case_folding_lost_across_chunks:
  assumes "builder_ok build"
    and "PiiVault_new build to_string default_patterns
           [''[REDACTED]'', ''[REDACTED]'', ''[REDACTED]''] = (Ok vault :: (PiiVault, unit) outcome)"
    and "StreamRedactor_new vault = (Ok r :: (StreamRedactor, unit) outcome)"
  shows "map_outcome rendered id (redact_stream r [''my login PASS'', ''WORD'']) = Ok ''my login PASSWORD'' \<and>
         redact_text ''my login PASSWORD'' vault = (Ok (Owned ''my login [REDACTED]'') :: (cow, unit) outcome)"
proof -
  have "build default_patterns \<noteq> None"
    using assms(2) by (auto simp: PiiVault_new_def build_redaction_dfa_eq expect_def split: option.splits if_splits)
  then have b: "build default_patterns = reference_build default_patterns"
    using build_eq_reference [OF assms(1) _ sample_rules(1)] by blast
  have v: "pv_engine_state vault = pv_engine_state sample_vault"
    "pv_searcher vault = pv_searcher sample_vault"
    "pv_replacement_strings vault = pv_replacement_strings sample_vault"
    using assms(2)
    by (auto simp: PiiVault_new_def EngineState_new_def build_redaction_dfa_eq b sample_vault_def
        Let_def expect_def reference_build_def sample_rules(3) split: if_splits)
  have r: "r = \<lparr>sr_state = pv_engine_state sample_vault, sr_pending = [], sr_max_capacity = 65536\<rparr>"
    using assms(3) v(1) by (simp add: StreamRedactor_new_def from_state_def
        with_state_max_capacity_def DEFAULT_MAX_BUFFER_CAPACITY_def)
  have f: "ac_find_iter (es_ac (pv_engine_state sample_vault)) ''my login PASS'' = []"
      "ac_find_iter (es_ac (pv_engine_state sample_vault)) ''WORD'' = []"
      "ac_find_iter (es_ac (pv_engine_state sample_vault)) [] = []"
    and u: "from_utf8 ''my login PASS'' = Utf8_Ok" "from_utf8 ''WORD'' = Utf8_Ok"
    and b: "determine_safe_boundary_state ''my login PASS'' (pv_engine_state sample_vault) = (''my login PASS'', [])"
      "determine_safe_boundary_state ''WORD'' (pv_engine_state sample_vault) = ([], ''WORD'')"
    by code_simp+
  have leak: "map_outcome rendered id (redact_stream r [''my login PASS'', ''WORD'']) = Ok ''my login PASSWORD''"
    unfolding r using f u b
    by (simp add: redact_stream_def push_def finish_def process_source_def redact_source_def
        slice_checked_def slice_def rendered_def)
  have "redact_text ''my login PASSWORD'' vault = (redact_text ''my login PASSWORD'' sample_vault :: (cow, unit) outcome)"
    using v by (simp add: redact_text_def)
  also have "\<dots> = Ok (Owned ''my login [REDACTED]'')" by code_simp
  finally show ?thesis using leak by simp
qed

lemma case_folding_lost_across_chunks_witness:
  "redact_text ''my login PASSWORD'' sample_vault = (Ok (Owned ''my login [REDACTED]'') :: (cow, unit) outcome)"
proof -
  have "StreamRedactor_new sample_vault = (Ok \<lparr>sr_state = pv_engine_state sample_vault, sr_pending = [],
      sr_max_capacity = DEFAULT_MAX_BUFFER_CAPACITY\<rparr> :: (StreamRedactor, unit) outcome)"
    by (simp add: StreamRedactor_new_def from_state_def with_state_max_capacity_def
        DEFAULT_MAX_BUFFER_CAPACITY_def)
  then show ?thesis
    using case_folding_lost_across_chunks [OF builder_ok_reference sample_vault_new] by blast
qed

text \<open>
  a rule that overlaps itself leaks. With the single rule \<open>1212\<close> the redactor keeps back the
  last three bytes of \<open>id: 12121\<close> as a possible beginning of the rule, although they are part of a
  complete occurrence, and the occurrence passes through: the hypothesis on overlaps
  in C1 is needed.
\<close>
lemma self_overlapping_rule_leaks:
  assumes "builder_ok build"
    and "EngineState_new build [''1212''] [''[REDACTED]''] = (Ok st :: (EngineState, unit) outcome)"
    and "from_state st = (Ok r :: (StreamRedactor, unit) outcome)"
  shows "map_outcome rendered id (redact_stream r [''id: 12121'', '' done'']) = Ok ''id: 12121 done'' \<and>
         is_match [''1212''] ''id: 12121 done'' (Mat 4 8 0)"
proof -
  have v: "\<forall>p \<in> set [''1212'']. valid_utf8 p" by code_simp
  note st = EngineState_new_ok [OF assms(1,2) _ v, simplified]
  have s: "searcher [''1212''] (ac_find_iter (es_ac st))"
    and max: "es_max_pattern_len st = 4" using st(1,2) by (auto simp: engine_ok_def max_len_def)
  have no: "ac_find_iter (es_ac st) h = []" if "reference_find_iter [''1212''] h = []" for h
    using fi_Nil_reference [OF s, of h] that by simp
  have f: "ac_find_iter (es_ac st) ''id: 12'' = []" "ac_find_iter (es_ac st) ''121 done'' = []"
    by (rule no, code_simp)+
  have u: "from_utf8 ''id: 12121'' = Utf8_Ok" "from_utf8 ''121 done'' = Utf8_Ok"
    by code_simp+
  have "list_ex (\<lambda>p. suffix p ''id: 12121'') [''1212''] = False"
    "foldl (retain_pattern ''id: 12121'') 0 [''1212''] = 3"
    "is_char_boundary ''id: 12121'' (Suc (Suc (Suc (Suc (Suc (Suc 0))))))"
    "list_ex (\<lambda>p. suffix p ''121 done'') [''1212''] = False"
    "foldl (retain_pattern ''121 done'') 0 [''1212''] = 0"
    by code_simp+
  then have b: "determine_safe_boundary_state ''id: 12121'' st = (''id: 12'', ''121'')"
    "determine_safe_boundary_state ''121 done'' st = (''121 done'', [])"
    unfolding determine_safe_boundary_state_def st(2) max by simp_all
  have r: "r = \<lparr>sr_state = st, sr_pending = [], sr_max_capacity = 65536\<rparr>"
    using assms(3) by (simp add: from_state_def with_state_max_capacity_def DEFAULT_MAX_BUFFER_CAPACITY_def)
  have "redact_stream r [''id: 12121'', '' done''] = Ok [Input ''id: 12'', Input ''121 done'']"
    unfolding r using f u b
    by (simp add: redact_stream_def push_def finish_def process_source_def redact_source_def
        slice_checked_def slice_def)
  moreover have "is_match [''1212''] ''id: 12121 done'' (Mat 4 8 0)" by code_simp
  ultimately show ?thesis by (simp add: rendered_def)
qed

lemma self_overlapping_rule_leaks_witness:
  "is_match [''1212''] ''id: 12121 done'' (Mat 4 8 0)"
proof -
  obtain st where st: "EngineState_new reference_build [''1212''] [''[REDACTED]''] =
      (Ok st :: (EngineState, unit) outcome)"
    by (simp add: EngineState_new_def build_redaction_dfa_eq expect_def reference_build_def)
  obtain r where "from_state st = (Ok r :: (StreamRedactor, unit) outcome)"
    by (simp add: from_state_def with_state_max_capacity_def DEFAULT_MAX_BUFFER_CAPACITY_def)
  with self_overlapping_rule_leaks [OF builder_ok_reference st] show ?thesis by blast
qed

end
