(* ===== verification/Receipt.thy ===== *)
theory Receipt
  imports Utf8 "HOL-Library.Word"
begin

text \<open>
  Audit receipts, \<open>src/lib.rs\<close>: the attested receipt, the canonical encoding of the seven fields the
  proxy signs, and the server-sent event that carries the receipt to the client. The hash, the
  signature, the base-64 and hexadecimal encodings and the JSON serialiser are code of other crates:
  they are the components of the record \<open>crypto\<close>, which every definition that uses them takes as an
  argument.
\<close>

section \<open>Data\<close>

record AttestedReceipt =
  ar_request_id :: bytes
  ar_tenant_id :: bytes
  ar_upstream_url :: bytes
  ar_request_hash :: bytes
  ar_payload_hash :: bytes
  ar_policy_digest :: bytes
  ar_pcr0 :: bytes
  ar_tuple_digest :: bytes
  ar_timestamp :: "64 word"

text \<open>
  \<open>'h\<close> is the state of an incremental \<open>blake3::Hasher\<close>, \<open>'k\<close> a signing key; digests and signatures
  are byte strings.
\<close>

record ('h, 'k) crypto =
  hasher_new :: 'h
  hasher_update :: "'h \<Rightarrow> bytes \<Rightarrow> 'h"
  hasher_finalize :: "'h \<Rightarrow> bytes"
  blake3_hash :: "bytes \<Rightarrow> bytes"
  to_hex :: "bytes \<Rightarrow> bytes"
  ed25519_sign :: "'k \<Rightarrow> bytes \<Rightarrow> bytes"
  b64_encode :: "bytes \<Rightarrow> bytes"
  receipt_to_vec :: "AttestedReceipt \<Rightarrow> bytes option"

text \<open>
  The documented behaviour of the incremental hasher: hashing the pieces one after the other is
  hashing their concatenation.
\<close>

definition incremental :: "('h, 'k) crypto \<Rightarrow> bool" where
  "incremental cr \<longleftrightarrow>
     (\<forall>xs. hasher_finalize cr (foldl (hasher_update cr) (hasher_new cr) xs) = blake3_hash cr (concat xs))"

section \<open>The signed digest\<close>

text \<open>\<open>u64::to_be_bytes\<close>\<close>

definition to_be_bytes :: "64 word \<Rightarrow> bytes" where
  "to_be_bytes w = map (\<lambda>i. char_of (unat w div 256 ^ i)) [7, 6, 5, 4, 3, 2, 1, 0]"

definition canonical_fields :: "bytes list \<Rightarrow> bytes" where
  "canonical_fields fs =
     foldl (\<lambda>canonical field. canonical @ to_be_bytes (of_nat (length field)) @ field) [] fs"

definition canonical_receipt_digest ::
  "('h, 'k) crypto \<Rightarrow> bytes \<Rightarrow> bytes \<Rightarrow> bytes \<Rightarrow> bytes \<Rightarrow> bytes \<Rightarrow> bytes \<Rightarrow> bytes \<Rightarrow> bytes" where
  "canonical_receipt_digest cr request_id tenant_id upstream_url request_hash policy_digest pcr0
       redacted_response_hash =
     blake3_hash cr (canonical_fields
       [request_id, tenant_id, upstream_url, request_hash, policy_digest, pcr0,
        redacted_response_hash])"

section \<open>The audit frame\<close>

definition NL :: bytes where
  "NL = [CHR 0x0A]"

definition DQ :: bytes where
  "DQ = [CHR 0x22]"

definition build_proxy_audit_frame :: "bytes \<Rightarrow> bytes \<Rightarrow> bytes" where
  "build_proxy_audit_frame receipt_json signature =
     (let receipt_json = from_utf8_lossy receipt_json in
      NL @ ''event: proxy_audit'' @ NL @ ''data: {'' @ DQ @ ''receipt'' @ DQ @ '': '' @ receipt_json @
      '', '' @ DQ @ ''signature'' @ DQ @ '': '' @ DQ @ signature @ DQ @ ''}'' @ NL @ NL)"

section \<open>The encoding is injective\<close>

definition from_be_bytes :: "bytes \<Rightarrow> nat" where
  "from_be_bytes bs = foldl (\<lambda>a c. a * 256 + of_char c) 0 bs"

lemma length_to_be_bytes [simp]: "length (to_be_bytes w) = 8"
  by (simp add: to_be_bytes_def)

lemma from_be_bytes_to_be_bytes [simp]: "from_be_bytes (to_be_bytes w) = unat w"
proof -
  have lt: "unat w < 256 ^ 8" using unsigned_less [of w] by simp
  have step: "n div (m * 256) * 256 + n div m mod 256 = n div m" for n m :: nat
    by (metis div_mult2_eq div_mult_mod_eq)
  have "unat w div 256 ^ 7 mod 256 = unat w div 256 ^ 7"
    using lt by (simp add: div_less_iff_less_mult mod_less)
  then show ?thesis
    using step [of "unat w" "256 ^ 6"] step [of "unat w" "256 ^ 5"] step [of "unat w" "256 ^ 4"]
      step [of "unat w" "256 ^ 3"] step [of "unat w" "256 ^ 2"] step [of "unat w" 256]
      step [of "unat w" 1]
    by (simp add: from_be_bytes_def to_be_bytes_def of_char_of)
qed

text \<open>Reading one field back from the front of the encoding.\<close>

definition read_field :: "bytes \<Rightarrow> bytes \<times> bytes" where
  "read_field bs = (let n = from_be_bytes (take 8 bs) in (take n (drop 8 bs), drop (8 + n) bs))"

lemma read_field_encoded:
  assumes "length f < 2 ^ 64"
  shows "read_field (to_be_bytes (of_nat (length f)) @ f @ rest) = (f, rest)"
proof -
  have "unat (of_nat (length f) :: 64 word) = length f"
    using assms by (simp add: unat_of_nat)
  then show ?thesis by (simp add: read_field_def)
qed

fun read_fields :: "nat \<Rightarrow> bytes \<Rightarrow> bytes list \<times> bytes" where
  "read_fields 0 bs = ([], bs)"
| "read_fields (Suc n) bs =
     (case read_field bs of (f, rest) \<Rightarrow> (case read_fields n rest of (fs, rest') \<Rightarrow> (f # fs, rest')))"

lemma canonical_fields_append_acc:
  "foldl (\<lambda>c f. c @ to_be_bytes (of_nat (length f)) @ f) acc fs = acc @ canonical_fields fs"
proof (induction fs arbitrary: acc)
  case (Cons f fs)
  show ?case using Cons.IH [of "acc @ to_be_bytes (of_nat (length f)) @ f"]
      Cons.IH [of "to_be_bytes (of_nat (length f)) @ f"]
    by (simp add: canonical_fields_def)
qed (simp add: canonical_fields_def)

lemma canonical_fields_Nil [simp]: "canonical_fields [] = []"
  by (simp add: canonical_fields_def)

lemma canonical_fields_Cons [simp]:
  "canonical_fields (f # fs) = to_be_bytes (of_nat (length f)) @ f @ canonical_fields fs"
  using canonical_fields_append_acc [of "to_be_bytes (of_nat (length f)) @ f" fs]
  by (simp add: canonical_fields_def)

lemma read_fields_canonical:
  "\<forall>f \<in> set fs. length f < 2 ^ 64 \<Longrightarrow>
   read_fields (length fs) (canonical_fields fs @ rest) = (fs, rest)"
proof (induction fs)
  case (Cons f fs)
  have rd: "read_field (to_be_bytes (of_nat (length f)) @ f @ canonical_fields fs @ rest)
      = (f, canonical_fields fs @ rest)"
    using Cons.prems by (intro read_field_encoded) simp
  show ?case using Cons by (simp add: rd)
qed simp

lemma canonical_fields_inj:
  assumes "\<forall>f \<in> set fs. length f < 2 ^ 64" and "\<forall>g \<in> set gs. length g < 2 ^ 64"
    and "length fs = length gs" and "canonical_fields fs = canonical_fields gs"
  shows "fs = gs"
  using read_fields_canonical [OF assms(1), of "[]"] read_fields_canonical [OF assms(2), of "[]"]
    assms(3,4) by simp

text \<open>
  C10: The signed tuple digest binds all seven fields: unless the two encodings the proxy hashes are
  themselves a collision of the hash, two receipts have the same tuple digest exactly when they
  agree in every field. No choice of fields makes two tuples run together.
\<close>
theorem receipt_digest_binds_fields:
  assumes "\<forall>f \<in> set [a1, a2, a3, a4, a5, a6, a7] \<union> set [b1, b2, b3, b4, b5, b6, b7]. length f < 2 ^ 64"
    and "inj_on (blake3_hash cr) {canonical_fields [a1, a2, a3, a4, a5, a6, a7],
                                  canonical_fields [b1, b2, b3, b4, b5, b6, b7]}"
  shows "canonical_receipt_digest cr a1 a2 a3 a4 a5 a6 a7 = canonical_receipt_digest cr b1 b2 b3 b4 b5 b6 b7
    \<longleftrightarrow> (a1, a2, a3, a4, a5, a6, a7) = (b1, b2, b3, b4, b5, b6, b7)"
proof
  assume "canonical_receipt_digest cr a1 a2 a3 a4 a5 a6 a7 = canonical_receipt_digest cr b1 b2 b3 b4 b5 b6 b7"
  then have "canonical_fields [a1, a2, a3, a4, a5, a6, a7] = canonical_fields [b1, b2, b3, b4, b5, b6, b7]"
    using inj_onD [OF assms(2)] by (metis canonical_receipt_digest_def insert_iff)
  then have "[a1, a2, a3, a4, a5, a6, a7] = [b1, b2, b3, b4, b5, b6, b7]"
    by (intro canonical_fields_inj) (use assms(1) in simp_all)
  then show "(a1, a2, a3, a4, a5, a6, a7) = (b1, b2, b3, b4, b5, b6, b7)" by simp
qed simp

section \<open>A crypto provider to evaluate with\<close>

text \<open>
  A hasher that keeps what it was given, and identity encodings; it satisfies \<open>incremental\<close>.
\<close>

definition sample_json :: "AttestedReceipt \<Rightarrow> bytes" where
  "sample_json r = ar_request_id r @ ''|'' @ ar_payload_hash r"

definition sample_crypto :: "(bytes, bytes) crypto" where
  "sample_crypto = \<lparr>hasher_new = [], hasher_update = (\<lambda>h b. h @ b), hasher_finalize = (\<lambda>h. h),
     blake3_hash = (\<lambda>b. b), to_hex = (\<lambda>b. b), ed25519_sign = (\<lambda>k m. k @ m), b64_encode = (\<lambda>b. b),
     receipt_to_vec = (\<lambda>r. Some (sample_json r))\<rparr>"

lemma foldl_append_concat: "foldl (@) acc xs = acc @ concat xs"
  by (induction xs arbitrary: acc) simp_all

lemma sample_crypto_incremental: "incremental sample_crypto"
  by (simp add: incremental_def sample_crypto_def foldl_append_concat)

theorem receipt_digest_binds_fields_witness:
  "canonical_receipt_digest sample_crypto ''ab'' ''c'' [] [] [] [] []
    = canonical_receipt_digest sample_crypto ''a'' ''bc'' [] [] [] [] []
   \<longleftrightarrow> (''ab'', ''c'', [], [], [], [], [])
       = (''a'', ''bc'', [] :: bytes, [] :: bytes, [] :: bytes, [] :: bytes, [] :: bytes)"
  by (rule receipt_digest_binds_fields) (simp_all add: sample_crypto_def)

end
