(* ===== verification/DoneDetector.thy ===== *)
theory DoneDetector
  imports Receipt
begin

text \<open>
  The end-of-stream detector of \<open>src/lib.rs\<close>: \<open>DoneDetector\<close> watches the redacted response for
  \<open>data: [DONE]\<close>, hashes what it forwards, and puts the signed audit receipt in front of the marker.
  It holds back the last eleven bytes of the stream, since they may be the beginning of a marker
  that a later chunk completes.
\<close>

section \<open>Data\<close>

datatype StreamEvent = Data bytes | AuditReceipt bytes | DoneMarker bytes

text \<open>
  The request hasher is behind an \<open>Arc<Mutex<..>>\<close> that the task hashing the request body shares: the
  detector keeps its address, and the operations take the mutexes \<open>mem\<close> (\<open>None\<close>: poisoned).
\<close>

record DoneDetector =
  dd_trailing :: bytes
  dd_completed :: bool
  dd_request_id :: bytes
  dd_tenant_id :: bytes
  dd_upstream_url :: bytes
  dd_request_hasher :: nat
  dd_policy_digest :: bytes
  dd_pcr0 :: bytes

type_synonym 'h mutexes = "nat \<Rightarrow> 'h option"

definition SSE_DONE_MARKER :: bytes where
  "SSE_DONE_MARKER = ''data: [DONE]''"

definition DoneDetector_new ::
  "bytes \<Rightarrow> bytes \<Rightarrow> bytes \<Rightarrow> nat \<Rightarrow> bytes \<Rightarrow> bytes \<Rightarrow> DoneDetector" where
  "DoneDetector_new request_id tenant_id upstream_url request_hasher policy_digest pcr0 =
     \<lparr>dd_trailing = [], dd_completed = False, dd_request_id = request_id, dd_tenant_id = tenant_id,
      dd_upstream_url = upstream_url, dd_request_hasher = request_hasher,
      dd_policy_digest = policy_digest, dd_pcr0 = pcr0\<rparr>"

section \<open>Operations\<close>

text \<open>
  What a call reads besides its arguments: the crypto code, the mutexes, the signing key and the
  clock (whole seconds since the epoch; negative before it).
\<close>

record ('h, 'k) receipt_env =
  re_crypto :: "('h, 'k) crypto"
  re_mem :: "'h mutexes"
  re_key :: 'k
  re_now :: int

text \<open>\<open>duration_since(UNIX_EPOCH).unwrap_or_default().as_secs()\<close>\<close>

definition unix_secs :: "int \<Rightarrow> 64 word" where
  "unix_secs now = (if now < 0 then 0 else word_of_int now)"

text \<open>Methods with \<open>&mut self\<close> and \<open>&mut hasher\<close> return both beside their events.\<close>

type_synonym 'h dd_result = "(DoneDetector \<times> 'h \<times> StreamEvent list, unit) outcome"

definition receipt_events ::
  "('h, 'k) receipt_env \<Rightarrow> DoneDetector \<Rightarrow> bytes \<Rightarrow> 'h \<Rightarrow> 'h dd_result" where
  "receipt_events env self done hasher =
     (let cr = re_crypto env;
          payload_hash = to_hex cr (hasher_finalize cr hasher) in
      case re_mem env (dd_request_hasher self) of
        None \<Rightarrow> Panic
      | Some request_hasher \<Rightarrow>
          let request_hash = to_hex cr (hasher_finalize cr request_hasher);
              tuple_digest = canonical_receipt_digest cr (dd_request_id self) (dd_tenant_id self)
                (dd_upstream_url self) request_hash (dd_policy_digest self) (dd_pcr0 self) payload_hash;
              receipt = \<lparr>ar_request_id = dd_request_id self, ar_tenant_id = dd_tenant_id self,
                ar_upstream_url = dd_upstream_url self, ar_request_hash = request_hash,
                ar_payload_hash = payload_hash, ar_policy_digest = dd_policy_digest self,
                ar_pcr0 = dd_pcr0 self, ar_tuple_digest = to_hex cr tuple_digest,
                ar_timestamp = unix_secs (re_now env)\<rparr> in
          (case receipt_to_vec cr receipt of
             None \<Rightarrow> Panic
           | Some receipt_json \<Rightarrow>
               let signature = ed25519_sign cr (re_key env) tuple_digest;
                   audit = build_proxy_audit_frame receipt_json (b64_encode cr signature) in
               Ok (self\<lparr>dd_completed := True\<rparr>, hasher, [AuditReceipt audit, DoneMarker done])))"

text \<open>
  The three parts of \<open>inspect\<close> on a stream that is not yet completed: the marker lies in the chunk, the
  marker begins in the held bytes, no marker.
\<close>

definition inspect_in_chunk ::
  "('h, 'k) receipt_env \<Rightarrow> DoneDetector \<Rightarrow> bytes \<Rightarrow> nat \<Rightarrow> 'h \<Rightarrow> 'h dd_result" where
  "inspect_in_chunk env self bytes start hasher =
     (let update = hasher_update (re_crypto env);
          trailing = dd_trailing self;
          (self1, hasher1, events1) =
            (if trailing \<noteq> [] then (self\<lparr>dd_trailing := []\<rparr>, update hasher trailing, [Data trailing])
             else (self, hasher, []));
          before_done = take start bytes;
          (hasher2, events2) =
            (if before_done \<noteq> [] then (update hasher1 before_done, events1 @ [Data before_done])
             else (hasher1, events1)) in
      obind (receipt_events env self1 (drop start bytes) hasher2) (\<lambda>(self3, hasher3, events3).
        Ok (self3, hasher3, events2 @ events3)))"

text \<open>
  \<open>probe\<close> is the array of twice the marker's length; the copies into it panic when they do not fit.
\<close>

definition probe_window :: "bytes \<Rightarrow> bytes \<Rightarrow> (bytes, 'e) outcome" where
  "probe_window trailing bytes =
     (let marker_len = length SSE_DONE_MARKER;
          probe_len = min (length bytes) (marker_len - 1) in
      if length trailing + probe_len \<le> 2 * marker_len then Ok (trailing @ take probe_len bytes)
      else Panic)"

definition inspect_straddling ::
  "('h, 'k) receipt_env \<Rightarrow> DoneDetector \<Rightarrow> bytes \<Rightarrow> bytes \<Rightarrow> nat \<Rightarrow> 'h \<Rightarrow> 'h dd_result" where
  "inspect_straddling env self bytes probe start hasher =
     (let marker_len = length SSE_DONE_MARKER;
          trailing_len = length (dd_trailing self) in
      if \<not> start \<le> trailing_len \<or> \<not> trailing_len - start \<le> marker_len then Panic
      else
        let current_start = marker_len - (trailing_len - start);
            before = take start (dd_trailing self);
            self1 = self\<lparr>dd_trailing := []\<rparr>;
            (hasher1, events1) =
              (if before \<noteq> [] then (hasher_update (re_crypto env) hasher before, [Data before])
               else (hasher, [])) in
        obind (slice_checked probe start (start + marker_len)) (\<lambda>marker.
        obind (receipt_events env self1 marker hasher1) (\<lambda>(self2, hasher2, events2).
        Ok (self2, hasher2, events1 @ events2 @
              (if current_start < length bytes then [Data (drop current_start bytes)] else [])))))"

definition inspect_retain ::
  "('h, 'k) receipt_env \<Rightarrow> DoneDetector \<Rightarrow> bytes \<Rightarrow> 'h \<Rightarrow> 'h dd_result" where
  "inspect_retain env self bytes hasher =
     (let update = hasher_update (re_crypto env);
          retain_len = length SSE_DONE_MARKER - 1 in
      if length bytes \<ge> retain_len
      then
        let (held, self1) =
              (if dd_trailing self = [] then (None, self)
               else (Some (dd_trailing self), self\<lparr>dd_trailing := []\<rparr>)) in
        obind (if dd_trailing self1 \<noteq> []
               then (case held of None \<Rightarrow> Panic | Some h \<Rightarrow> Ok (update hasher h))
               else Ok hasher) (\<lambda>hasher1.
          let emit_len = length bytes - retain_len;
              data = take emit_len bytes;
              hasher2 = (if data \<noteq> [] then update hasher1 data else hasher1);
              self2 = self1\<lparr>dd_trailing := dd_trailing self1 @ drop emit_len bytes\<rparr> in
          Ok (self2, hasher2,
              (case held of None \<Rightarrow> [] | Some h \<Rightarrow> [Data h]) @ (if data \<noteq> [] then [Data data] else [])))
      else
        let held = dd_trailing self @ bytes;
            emit_len = length held - retain_len in
        if emit_len = 0 then Ok (self\<lparr>dd_trailing := held\<rparr>, hasher, [])
        else
          let data = take emit_len held in
          Ok (self\<lparr>dd_trailing := drop emit_len held\<rparr>, update hasher data, [Data data]))"

definition inspect ::
  "('h, 'k) receipt_env \<Rightarrow> DoneDetector \<Rightarrow> bytes \<Rightarrow> 'h \<Rightarrow> 'h dd_result" where
  "inspect env self bytes hasher =
     (if dd_completed self then Ok (self, hasher, [Data bytes])
      else case position_window SSE_DONE_MARKER bytes of
        Some start \<Rightarrow> inspect_in_chunk env self bytes start hasher
      | None \<Rightarrow>
          if dd_trailing self = [] then inspect_retain env self bytes hasher
          else obind (probe_window (dd_trailing self) bytes) (\<lambda>probe.
            case position_window SSE_DONE_MARKER probe of
              Some start \<Rightarrow> inspect_straddling env self bytes probe start hasher
            | None \<Rightarrow> inspect_retain env self bytes hasher))"

definition DoneDetector_finish ::
  "('h, 'k) receipt_env \<Rightarrow> DoneDetector \<Rightarrow> 'h \<Rightarrow> DoneDetector \<times> 'h \<times> StreamEvent list" where
  "DoneDetector_finish env self hasher =
     (if dd_trailing self = [] then (self, hasher, [])
      else (self\<lparr>dd_trailing := []\<rparr>, hasher_update (re_crypto env) hasher (dd_trailing self),
            [Data (dd_trailing self)]))"

definition KILLED_BY_SHUTDOWN :: bytes where
  "KILLED_BY_SHUTDOWN = ''data: [ERROR: KILLED BY SHUTDOWN]'' @ NL @ NL"

definition shutdown_events ::
  "('h, 'k) receipt_env \<Rightarrow> DoneDetector \<Rightarrow> 'h \<Rightarrow> 'h dd_result" where
  "shutdown_events env self hasher =
     (if dd_completed self then Ok (self, hasher, [])
      else
        let (self1, hasher1, events1) =
              (if dd_trailing self \<noteq> []
               then (self\<lparr>dd_trailing := []\<rparr>, hasher_update (re_crypto env) hasher (dd_trailing self),
                     [Data (dd_trailing self)])
               else (self, hasher, [])) in
        obind (receipt_events env self1 KILLED_BY_SHUTDOWN hasher1) (\<lambda>(self2, hasher2, events2).
          Ok (self2, hasher2, events1 @ events2)))"

text \<open>The response as the stream task drives it: \<open>inspect\<close> on every chunk, then \<open>finish\<close>.\<close>

definition inspect_step ::
  "('h, 'k) receipt_env \<Rightarrow> DoneDetector \<times> 'h \<Rightarrow> bytes \<Rightarrow>
     ((DoneDetector \<times> 'h) \<times> StreamEvent list, unit) outcome" where
  "inspect_step env = (\<lambda>(self, hasher) c.
     obind (inspect env self c hasher) (\<lambda>(self', hasher', events). Ok ((self', hasher'), events)))"

definition detect_stream ::
  "('h, 'k) receipt_env \<Rightarrow> DoneDetector \<Rightarrow> bytes list \<Rightarrow> 'h \<Rightarrow> 'h dd_result" where
  "detect_stream env self cs hasher =
     obind (run_steps (inspect_step env) (self, hasher) cs) (\<lambda>((self1, hasher1), events1).
       case DoneDetector_finish env self1 hasher1 of
         (self2, hasher2, events2) \<Rightarrow> Ok (self2, hasher2, events1 @ events2))"

end
