(* ===== verification/Detection.thy ===== *)
theory Detection
  imports DoneDetector
begin

text \<open>
  Correctness of the end-of-stream detector: it never panics, forwards every byte once and in order,
  issues exactly one receipt when the marker occurs in the stream, puts it directly in front of the
  marker, and (under a condition on the chunk lengths that the code needs) the payload hash in the
  receipt is the hash of the bytes forwarded before it.
\<close>

section \<open>One step\<close>

lemma length_marker [simp]: "length SSE_DONE_MARKER = 12"
  by (simp add: SSE_DONE_MARKER_def)

lemma marker_not_Nil [simp]: "SSE_DONE_MARKER \<noteq> []"
  by (simp add: SSE_DONE_MARKER_def)

definition has_marker :: "bytes \<Rightarrow> bool" where
  "has_marker s \<longleftrightarrow> position_window SSE_DONE_MARKER s \<noteq> None"

lemma has_marker_iff: "has_marker s \<longleftrightarrow> (\<exists>i. occurs_at SSE_DONE_MARKER s i)"
  using position_window_iff [of SSE_DONE_MARKER s] by (auto simp: has_marker_def)

text \<open>What issuing a receipt needs: an unpoisoned mutex and a receipt that serialises.\<close>

definition receipts_ok :: "('h, 'k) receipt_env \<Rightarrow> nat \<Rightarrow> bool" where
  "receipts_ok env addr \<longleftrightarrow>
     re_mem env addr \<noteq> None \<and> (\<forall>r. receipt_to_vec (re_crypto env) r \<noteq> None)"

text \<open>The receipt frame for a hasher state.\<close>

definition receipt_for :: "('h, 'k) receipt_env \<Rightarrow> DoneDetector \<Rightarrow> bytes \<Rightarrow> AttestedReceipt" where
  "receipt_for env self payload_hash =
     (let cr = re_crypto env;
          request_hash = to_hex cr (hasher_finalize cr (the (re_mem env (dd_request_hasher self)))) in
      \<lparr>ar_request_id = dd_request_id self, ar_tenant_id = dd_tenant_id self,
       ar_upstream_url = dd_upstream_url self, ar_request_hash = request_hash,
       ar_payload_hash = payload_hash, ar_policy_digest = dd_policy_digest self,
       ar_pcr0 = dd_pcr0 self,
       ar_tuple_digest = to_hex cr (canonical_receipt_digest cr (dd_request_id self) (dd_tenant_id self)
          (dd_upstream_url self) request_hash (dd_policy_digest self) (dd_pcr0 self) payload_hash),
       ar_timestamp = unix_secs (re_now env)\<rparr>)"

definition signature_for :: "('h, 'k) receipt_env \<Rightarrow> DoneDetector \<Rightarrow> bytes \<Rightarrow> bytes" where
  "signature_for env self payload_hash =
     (let cr = re_crypto env; r = receipt_for env self payload_hash in
      ed25519_sign cr (re_key env) (canonical_receipt_digest cr (ar_request_id r) (ar_tenant_id r)
          (ar_upstream_url r) (ar_request_hash r) (ar_policy_digest r) (ar_pcr0 r) (ar_payload_hash r)))"

definition audit_frame :: "('h, 'k) receipt_env \<Rightarrow> DoneDetector \<Rightarrow> bytes \<Rightarrow> bytes" where
  "audit_frame env self payload_hash =
     build_proxy_audit_frame (the (receipt_to_vec (re_crypto env) (receipt_for env self payload_hash)))
       (b64_encode (re_crypto env) (signature_for env self payload_hash))"

definition hashed :: "('h, 'k) receipt_env \<Rightarrow> 'h \<Rightarrow> bytes list \<Rightarrow> 'h" where
  "hashed env h ps = foldl (hasher_update (re_crypto env)) h ps"

definition payload_hex :: "('h, 'k) receipt_env \<Rightarrow> 'h \<Rightarrow> bytes" where
  "payload_hex env h = to_hex (re_crypto env) (hasher_finalize (re_crypto env) h)"

lemma receipt_events_eq:
  assumes "receipts_ok env (dd_request_hasher self)"
  shows "receipt_events env self done h = Ok (self\<lparr>dd_completed := True\<rparr>, h,
           [AuditReceipt (audit_frame env self (payload_hex env h)), DoneMarker done])"
proof -
  obtain rh where rh: "re_mem env (dd_request_hasher self) = Some rh"
    using assms by (auto simp: receipts_ok_def)
  obtain js where js: "receipt_to_vec (re_crypto env) (receipt_for env self (payload_hex env h)) = Some js"
    using assms by (auto simp: receipts_ok_def)
  show ?thesis using rh js
    by (simp add: receipt_events_def audit_frame_def signature_for_def receipt_for_def payload_hex_def Let_def)
qed

lemma audit_frame_update [simp]:
  "audit_frame env (self\<lparr>dd_trailing := t\<rparr>) = audit_frame env self"
  "audit_frame env (self\<lparr>dd_completed := b\<rparr>) = audit_frame env self"
  by (simp_all add: fun_eq_iff audit_frame_def signature_for_def receipt_for_def Let_def)

lemma DoneDetector_new_simps [simp]:
  "dd_trailing (DoneDetector_new rid tid url addr pd pcr) = []"
  "\<not> dd_completed (DoneDetector_new rid tid url addr pd pcr)"
  "dd_request_hasher (DoneDetector_new rid tid url addr pd pcr) = addr"
  "(DoneDetector_new rid tid url addr pd pcr)\<lparr>dd_trailing := []\<rparr> = DoneDetector_new rid tid url addr pd pcr"
  by (simp_all add: DoneDetector_new_def)

definition dd_inv :: "DoneDetector \<Rightarrow> bool" where
  "dd_inv self \<longleftrightarrow> length (dd_trailing self) \<le> 11 \<and> (dd_completed self \<longrightarrow> dd_trailing self = [])"

text \<open>Whether a step hashes all it forwards: not when a long chunk meets held bytes.\<close>

definition hash_safe :: "bytes \<Rightarrow> bytes \<Rightarrow> bool" where
  "hash_safe trailing c \<longleftrightarrow> trailing = [] \<or> length c < 11 \<or> has_marker c"

lemma has_marker_suffix: "has_marker ys \<Longrightarrow> has_marker (xs @ ys)"
  by (metis has_marker_iff occurs_at_append_right le_add1 add_diff_cancel_left')

lemma has_marker_append:
  "has_marker (t @ c) \<longleftrightarrow> has_marker c \<or> has_marker (t @ take 11 c)"
proof
  assume "has_marker (t @ c)"
  then obtain i where i: "occurs_at SSE_DONE_MARKER (t @ c) i" by (auto simp: has_marker_iff)
  show "has_marker c \<or> has_marker (t @ take 11 c)"
  proof (cases "length t \<le> i")
    case True
    then show ?thesis using i by (auto simp: has_marker_iff occurs_at_append_right)
  next
    case False
    have "t @ c = (t @ take 11 c) @ drop 11 c" by simp
    moreover have "i + 12 \<le> length (t @ take 11 c)" 
      using occurs_at_length [OF i] False by auto
    ultimately have "occurs_at SSE_DONE_MARKER (t @ take 11 c) i"
      using i by (metis length_marker occurs_at_append_left)
    then show ?thesis by (auto simp: has_marker_iff)
  qed
next
  assume "has_marker c \<or> has_marker (t @ take 11 c)"
  then show "has_marker (t @ c)"
  proof
    assume "has_marker c"
    then show ?thesis by (rule has_marker_suffix)
  next
    assume "has_marker (t @ take 11 c)"
    then obtain i where i: "occurs_at SSE_DONE_MARKER (t @ take 11 c) i" by (auto simp: has_marker_iff)
    from occurs_at_length [OF i marker_not_Nil] have "i + length SSE_DONE_MARKER \<le> length (t @ take 11 c)" .
    from occurs_at_append_left [OF this, of "drop 11 c"] i have "occurs_at SSE_DONE_MARKER (t @ c) i" by simp
    then show ?thesis by (auto simp: has_marker_iff)
  qed
qed

lemma occurs_at_prefix: "occurs_at pat xs i \<Longrightarrow> prefix pat (drop i xs)"
  by (metis occurs_at_def take_is_prefix)

text \<open>Retaining: everything but the last eleven bytes is forwarded.\<close>

lemma inspect_retain_eq:
  assumes "length (dd_trailing self) \<le> 11"
  shows "\<exists>ds hs. inspect_retain env self c h
      = Ok (self\<lparr>dd_trailing := last_n 11 (dd_trailing self @ c)\<rparr>, hashed env h hs, map Data ds)
    \<and> concat ds = take (length (dd_trailing self @ c) - 11) (dd_trailing self @ c)
    \<and> (dd_trailing self = [] \<or> length c < 11 \<longrightarrow> hs = ds)"
proof (cases "length c \<ge> 11")
  case True
  let ?t = "dd_trailing self" and ?d = "take (length c - 11) c"
  have "length ?t + length c - 11 = length ?t + (length c - 11)" using True by simp
  then have split: "take (length ?t + length c - 11) (?t @ c) = ?t @ ?d" by simp
  have ln: "last_n 11 (?t @ c) = drop (length c - 11) c"
    using True by (simp add: last_n_append_long) (simp add: last_n_def)
  show ?thesis
  proof (cases "?t = []")
    case True
    then show ?thesis using ln split \<open>length c \<ge> 11\<close>
      by (intro exI [of _ "if ?d = [] then [] else [?d]"])
         (auto simp: inspect_retain_def Let_def hashed_def)
  next
    case False
    then show ?thesis using ln split \<open>length c \<ge> 11\<close>
      by (intro exI [of _ "?t # (if ?d = [] then [] else [?d])"] exI [of _ "if ?d = [] then [] else [?d]"])
         (auto simp: inspect_retain_def Let_def hashed_def)
  qed
next
  case False
  let ?s = "dd_trailing self @ c"
  show ?thesis
  proof (cases "length ?s - 11 = 0")
    case True
    then have "length ?s \<le> 11" by simp
    then show ?thesis using False
      by (intro exI [of _ "[]"]) (simp add: inspect_retain_def Let_def hashed_def)
  next
    case 2: False
    then show ?thesis using False
      by (intro exI [of _ "[take (length ?s - 11) ?s]"])
         (simp add: inspect_retain_def Let_def hashed_def last_n_def)
  qed
qed

text \<open>Completing: the receipt stands in front of the marker and covers all that was forwarded.\<close>

definition completes ::
  "('h, 'k) receipt_env \<Rightarrow> DoneDetector \<Rightarrow> 'h \<Rightarrow> bytes \<Rightarrow> 'h dd_result \<Rightarrow> bool" where
  "completes env self h s r \<longleftrightarrow> (\<exists>ds m ds' p.
     r = Ok (self\<lparr>dd_trailing := [], dd_completed := True\<rparr>, hashed env h ds,
             map Data ds @ AuditReceipt (audit_frame env self (payload_hex env (hashed env h ds)))
               # DoneMarker m # map Data ds')
     \<and> occurs_at SSE_DONE_MARKER s p \<and> prefix SSE_DONE_MARKER m
     \<and> concat ds = take p s \<and> m @ concat ds' = drop p s)"

lemma inspect_in_chunk_completes:
  assumes ok: "receipts_ok env (dd_request_hasher self)" and m: "occurs_at SSE_DONE_MARKER c start"
  shows "completes env self h (dd_trailing self @ c) (inspect_in_chunk env self c start h)"
proof -
  let ?t = "dd_trailing self" and ?b = "take start c"
  let ?ds = "(if ?t = [] then [] else [?t]) @ (if ?b = [] then [] else [?b])"
  have occ: "occurs_at SSE_DONE_MARKER (?t @ c) (length ?t + start)"
    using m by (simp add: occurs_at_append_right)
  have pre: "prefix SSE_DONE_MARKER (drop start c)" using occurs_at_prefix [OF m] .
  have cat: "concat ?ds = take (length ?t + start) (?t @ c)" by simp
  have run: "inspect_in_chunk env self c start h
      = Ok (self\<lparr>dd_trailing := [], dd_completed := True\<rparr>, hashed env h ?ds,
            map Data ?ds @ AuditReceipt (audit_frame env self (payload_hex env (hashed env h ?ds)))
              # DoneMarker (drop start c) # map Data [])"
    using ok by (auto simp: inspect_in_chunk_def Let_def hashed_def receipt_events_eq)
  show ?thesis unfolding completes_def
    by (intro exI conjI, rule run, rule occ, rule pre, rule cat) simp
qed

lemma occurs_at_slice: "occurs_at pat xs i \<Longrightarrow> Prelude.slice xs i (i + length pat) = pat"
  by (simp add: occurs_at_def Prelude.slice_def)

lemma inspect_straddling_completes:
  assumes ok: "receipts_ok env (dd_request_hasher self)" and no: "\<not> has_marker c"
    and t11: "length (dd_trailing self) \<le> 11"
    and m: "occurs_at SSE_DONE_MARKER (dd_trailing self @ take 11 c) start"
  shows "completes env self h (dd_trailing self @ c)
           (inspect_straddling env self c (dd_trailing self @ take 11 c) start h)"
proof -
  let ?t = "dd_trailing self" and ?b = "take start (dd_trailing self)"
  let ?k = "12 - (length ?t - start)"
  let ?ds = "if ?b = [] then [] else [?b]" and ?ds' = "if ?k < length c then [drop ?k c] else []"
  from occurs_at_length [OF m] have le: "start + 12 \<le> length ?t + min (length c) 11"
    by (simp add: min.commute)
  then have lt: "start < length ?t" by simp
  have k: "?k \<le> length c" using le lt t11 by simp
  have occ: "occurs_at SSE_DONE_MARKER (?t @ c) start"
    using occurs_at_append_left [of start SSE_DONE_MARKER "?t @ take 11 c" "drop 11 c"] m le by simp
  have sl: "slice_checked (?t @ take 11 c) start (start + 12) = Ok SSE_DONE_MARKER"
    using occurs_at_slice [OF m] le by (simp add: slice_checked_def min.commute)
  define probe where "probe = ?t @ take 11 c"
  have run: "inspect_straddling env self c probe start h
      = Ok (self\<lparr>dd_trailing := [], dd_completed := True\<rparr>, hashed env h ?ds,
            map Data ?ds @ AuditReceipt (audit_frame env self (payload_hex env (hashed env h ?ds)))
              # DoneMarker SSE_DONE_MARKER # map Data ?ds')"
    using ok lt t11 sl [folded probe_def]
    by (auto simp: inspect_straddling_def Let_def hashed_def receipt_events_eq)
  have cat: "concat ?ds = take start (?t @ c)" using lt by simp
  have "drop start (?t @ c) = take 12 (drop start (?t @ c)) @ drop (start + 12) (?t @ c)"
    by (metis append_take_drop_id drop_drop add.commute)
  moreover have "take 12 (drop start (?t @ c)) = SSE_DONE_MARKER"
    using occ by (simp add: occurs_at_def)
  moreover have "drop (start + 12) (?t @ c) = drop ?k c" using lt t11 by (simp add: add.commute)
  ultimately have tail: "SSE_DONE_MARKER @ drop ?k c = drop start (?t @ c)" by metis
  moreover have "concat ?ds' = drop ?k c" by simp
  ultimately have tail': "SSE_DONE_MARKER @ concat ?ds' = drop start (?t @ c)" by metis
  show ?thesis unfolding completes_def
    by (intro exI conjI, rule run [unfolded probe_def], rule occ, rule prefix_order.refl, rule cat, rule tail')
qed

lemma probe_window_eq: "length t \<le> 11 \<Longrightarrow> probe_window t c = Ok (t @ take 11 c)"
  by (simp add: probe_window_def Let_def min_def)

text \<open>One call of \<open>inspect\<close> on a stream that is not yet completed.\<close>

lemma inspect_marker:
  assumes ok: "receipts_ok env (dd_request_hasher self)" and "dd_inv self" and nc: "\<not> dd_completed self"
    and hm: "has_marker (dd_trailing self @ c)"
  shows "completes env self h (dd_trailing self @ c) (inspect env self c h)"
proof (cases "position_window SSE_DONE_MARKER c")
  case (Some start)
  then show ?thesis
    using nc inspect_in_chunk_completes [OF ok] position_window_Some [OF Some] by (simp add: inspect_def)
next
  case None
  then have no: "\<not> has_marker c" by (simp add: has_marker_def)
  with hm have hp: "has_marker (dd_trailing self @ take 11 c)" using has_marker_append by blast
  then obtain start where st: "position_window SSE_DONE_MARKER (dd_trailing self @ take 11 c) = Some start"
    by (auto simp: has_marker_def)
  have ne: "dd_trailing self \<noteq> []" using hm no by auto
  have t11: "length (dd_trailing self) \<le> 11" using assms(2) by (simp add: dd_inv_def)
  have "inspect env self c h = inspect_straddling env self c (dd_trailing self @ take 11 c) start h"
    using nc None ne st t11 by (simp add: inspect_def probe_window_eq)
  then show ?thesis
    using inspect_straddling_completes [OF ok no t11] position_window_Some [OF st] by simp
qed

lemma inspect_no_marker:
  assumes "dd_inv self" and nc: "\<not> dd_completed self" and hm: "\<not> has_marker (dd_trailing self @ c)"
  shows "inspect env self c h = inspect_retain env self c h"
proof -
  have t11: "length (dd_trailing self) \<le> 11" using assms(1) by (simp add: dd_inv_def)
  have "position_window SSE_DONE_MARKER c = None"
    and "position_window SSE_DONE_MARKER (dd_trailing self @ take 11 c) = None"
    using hm has_marker_append [of "dd_trailing self" c] by (simp_all add: has_marker_def)
  then show ?thesis using nc t11 by (simp add: inspect_def probe_window_eq)
qed

section \<open>A whole stream\<close>

primrec passthrough :: "StreamEvent \<Rightarrow> bytes" where
  "passthrough (Data b) = b"
| "passthrough (AuditReceipt b) = []"
| "passthrough (DoneMarker b) = b"

lemma map_passthrough_Data [simp]: "map (passthrough \<circ> Data) ds = ds"
  by (simp add: comp_def)

definition stage_inv :: "('h, 'k) receipt_env \<Rightarrow> DoneDetector \<times> 'h \<Rightarrow> bool" where
  "stage_inv env = (\<lambda>(self, h). dd_inv self \<and> receipts_ok env (dd_request_hasher self))"

lemma inspect_conserves:
  assumes "stage_inv env (self, h)"
  shows "\<exists>self' h' evs. inspect env self c h = Ok (self', h', evs) \<and> stage_inv env (self', h')
    \<and> concat (map passthrough evs) @ dd_trailing self' = dd_trailing self @ c"
proof -
  have inv: "dd_inv self" and ok: "receipts_ok env (dd_request_hasher self)"
    using assms by (simp_all add: stage_inv_def)
  consider (completed) "dd_completed self"
    | (marker) "\<not> dd_completed self" "has_marker (dd_trailing self @ c)"
    | (none) "\<not> dd_completed self" "\<not> has_marker (dd_trailing self @ c)" by blast
  then show ?thesis
  proof cases
    case completed
    then show ?thesis using inv ok by (simp add: inspect_def stage_inv_def dd_inv_def)
  next
    case marker
    let ?s = "dd_trailing self @ c"
    from inspect_marker [OF ok inv marker, of h] obtain ds m ds' p where
      r: "inspect env self c h = Ok (self\<lparr>dd_trailing := [], dd_completed := True\<rparr>, hashed env h ds,
            map Data ds @ AuditReceipt (audit_frame env self (payload_hex env (hashed env h ds)))
              # DoneMarker m # map Data ds')"
      and cat: "concat ds = take p ?s" "m @ concat ds' = drop p ?s" unfolding completes_def by blast
    have "concat ds @ m @ concat ds' = ?s" unfolding cat by (rule append_take_drop_id)
    then show ?thesis using r ok by (simp add: stage_inv_def dd_inv_def)
  next
    case none
    have "length (dd_trailing self) \<le> 11" using inv by (simp add: dd_inv_def)
    from inspect_retain_eq [OF this, of env c h] inspect_no_marker [OF inv none, of env h]
    obtain ds hs where r: "inspect env self c h
        = Ok (self\<lparr>dd_trailing := last_n 11 (dd_trailing self @ c)\<rparr>, hashed env h hs, map Data ds)"
      and cat: "concat ds = take (length (dd_trailing self @ c) - 11) (dd_trailing self @ c)" by auto
    have "concat ds @ last_n 11 (dd_trailing self @ c) = dd_trailing self @ c"
      unfolding cat by (rule take_last_n)
    then show ?thesis using r ok none(1) by (simp add: stage_inv_def dd_inv_def)
  qed
qed

interpretation detector_stage: byte_stage "inspect_step env" "stage_inv env"
    "\<lambda>(self, h). dd_trailing self" passthrough for env :: "('h, 'k) receipt_env"
proof
  fix s :: "DoneDetector \<times> 'h" and c
  assume "stage_inv env s"
  moreover obtain self h where "s = (self, h)" by (cases s)
  ultimately show "\<exists>s' out. inspect_step env s c = Ok (s', out) \<and> stage_inv env s' \<and>
      concat (map passthrough out) @ (case s' of (self, h) \<Rightarrow> dd_trailing self)
        = (case s of (self, h) \<Rightarrow> dd_trailing self) @ c"
    using inspect_conserves [of env self h c] by (fastforce simp: inspect_step_def)
qed

lemma stage_inv_new:
  "receipts_ok env addr \<Longrightarrow> stage_inv env (DoneDetector_new rid tid url addr pd pcr, h)"
  by (simp add: stage_inv_def dd_inv_def DoneDetector_new_def)

text \<open>
  What the stream so far determines: no marker yet and the last eleven bytes are held, or the receipt
  has been issued in front of an occurrence of the marker. \<open>safe\<close> says that every step so far hashed
  all it forwarded.
\<close>

definition watching ::
  "('h, 'k) receipt_env \<Rightarrow> DoneDetector \<Rightarrow> 'h \<Rightarrow> bool \<Rightarrow> bytes \<Rightarrow> DoneDetector \<Rightarrow> 'h \<Rightarrow> StreamEvent list \<Rightarrow> bool"
where
  "watching env ini h0 safe s self h evs \<longleftrightarrow>
     self = ini\<lparr>dd_trailing := last_n 11 s\<rparr> \<and> \<not> dd_completed self \<and> \<not> has_marker s
     \<and> (\<exists>ds. evs = map Data ds \<and> concat ds @ last_n 11 s = s \<and> (safe \<longrightarrow> h = hashed env h0 ds))"

definition attested ::
  "('h, 'k) receipt_env \<Rightarrow> DoneDetector \<Rightarrow> 'h \<Rightarrow> bool \<Rightarrow> bytes \<Rightarrow> DoneDetector \<Rightarrow> StreamEvent list \<Rightarrow> bool"
where
  "attested env ini h0 safe s self evs \<longleftrightarrow>
     self = ini\<lparr>dd_trailing := [], dd_completed := True\<rparr>
     \<and> (\<exists>ds h m ds' p. evs = map Data ds @ AuditReceipt (audit_frame env ini (payload_hex env h))
            # DoneMarker m # map Data ds'
          \<and> occurs_at SSE_DONE_MARKER s p \<and> prefix SSE_DONE_MARKER m
          \<and> concat ds = take p s \<and> m @ concat ds' = drop p s \<and> (safe \<longrightarrow> h = hashed env h0 ds))"

lemma hashed_append: "hashed env (hashed env h xs) ys = hashed env h (xs @ ys)"
  by (simp add: hashed_def)

lemma occurs_at_extend: "occurs_at SSE_DONE_MARKER s p \<Longrightarrow> occurs_at SSE_DONE_MARKER (s @ c) p"
  using occurs_at_length [of SSE_DONE_MARKER s p] by (simp add: occurs_at_append_left)

lemma attested_step:
  assumes "attested env ini h0 safe s self evs"
  shows "inspect env self c h = Ok (self, h, [Data c]) \<and> attested env ini h0 safe (s @ c) self (evs @ [Data c])"
proof -
  obtain ds h' m ds' p where
    evs: "evs = map Data ds @ AuditReceipt (audit_frame env ini (payload_hex env h')) # DoneMarker m # map Data ds'"
    and p: "occurs_at SSE_DONE_MARKER s p" "prefix SSE_DONE_MARKER m" "concat ds = take p s"
      "m @ concat ds' = drop p s" "safe \<longrightarrow> h' = hashed env h0 ds"
    and self: "self = ini\<lparr>dd_trailing := [], dd_completed := True\<rparr>"
    using assms by (auto simp: attested_def)
  have le: "p \<le> length s" using occurs_at_length [OF p(1)] by simp
  have "attested env ini h0 safe (s @ c) self (evs @ [Data c])"
    unfolding attested_def
    by (intro conjI self exI [of _ ds] exI [of _ h'] exI [of _ m] exI [of _ "ds' @ [c]"] exI [of _ p])
       (use evs p le occurs_at_extend in \<open>simp_all flip: append_assoc\<close>)
  then show ?thesis by (simp add: inspect_def self)
qed

lemma watching_marker:
  assumes w: "watching env ini h0 safe s self h evs" and ok: "receipts_ok env (dd_request_hasher ini)"
    and hm: "has_marker (s @ c)"
  shows "\<exists>self' h' evs'. inspect env self c h = Ok (self', h', evs')
           \<and> attested env ini h0 safe (s @ c) self' (evs @ evs')"
proof -
  let ?t = "last_n 11 s"
  obtain es where es: "evs = map Data es" "concat es @ ?t = s" "safe \<longrightarrow> h = hashed env h0 es"
    and self: "self = ini\<lparr>dd_trailing := ?t\<rparr>" and nc: "\<not> dd_completed self" and nm: "\<not> has_marker s"
    using w by (auto simp: watching_def)
  have inv: "dd_inv self" using self nc by (simp add: dd_inv_def)
  have hm': "has_marker (dd_trailing self @ c)"
  proof (rule ccontr)
    assume "\<not> has_marker (dd_trailing self @ c)"
    then have no: "\<not> occurs_at SSE_DONE_MARKER (?t @ c) j" for j by (simp add: self has_marker_iff)
    obtain i where i: "occurs_at SSE_DONE_MARKER (s @ c) i" using hm by (auto simp: has_marker_iff)
    have "\<not> i + 12 \<le> length s"
      using i nm by (metis has_marker_iff length_marker occurs_at_append_left)
    moreover have "length (concat es) + length ?t = length s" using es(2) by (metis length_append)
    ultimately have le: "length (concat es) \<le> i" unfolding length_last_n by linarith
    have "s @ c = concat es @ ?t @ c" using es(2) by (metis append_assoc)
    then have "occurs_at SSE_DONE_MARKER (?t @ c) (i - length (concat es))"
      using i le by (metis occurs_at_append_right)
    then show False using no by blast
  qed
  from inspect_marker [OF _ inv nc hm', of env h] ok self
  have "completes env self h (dd_trailing self @ c) (inspect env self c h)" by simp
  then obtain ds m ds' p where
    r: "inspect env self c h = Ok (self\<lparr>dd_trailing := [], dd_completed := True\<rparr>, hashed env h ds,
          map Data ds @ AuditReceipt (audit_frame env self (payload_hex env (hashed env h ds)))
            # DoneMarker m # map Data ds')"
    and o: "occurs_at SSE_DONE_MARKER (?t @ c) p" "prefix SSE_DONE_MARKER m"
      "concat ds = take p (?t @ c)" "m @ concat ds' = drop p (?t @ c)"
    unfolding completes_def by (auto simp: self)
  let ?p = "length (concat es) + p"
  have sc: "s @ c = concat es @ ?t @ c" using es(2) by (metis append_assoc)
  have "attested env ini h0 safe (s @ c) (self\<lparr>dd_trailing := [], dd_completed := True\<rparr>)
      (evs @ map Data ds @ AuditReceipt (audit_frame env self (payload_hex env (hashed env h ds)))
            # DoneMarker m # map Data ds')"
    unfolding attested_def sc
    by (intro conjI exI [of _ "es @ ds"] exI [of _ "hashed env h ds"] exI [of _ m] exI [of _ ds'] exI [of _ ?p])
       (use o es in \<open>simp_all add: self occurs_at_append_right hashed_append\<close>)
  then show ?thesis using r by blast
qed

lemma watching_no_marker:
  assumes w: "watching env ini h0 safe s self h evs" and nm: "\<not> has_marker (s @ c)"
  shows "\<exists>self' h' evs'. inspect env self c h = Ok (self', h', evs')
           \<and> watching env ini h0 (safe \<and> hash_safe (last_n 11 s) c) (s @ c) self' h' (evs @ evs')"
proof -
  let ?t = "last_n 11 s"
  obtain es where es: "evs = map Data es" "concat es @ ?t = s" "safe \<longrightarrow> h = hashed env h0 es"
    and self: "self = ini\<lparr>dd_trailing := ?t\<rparr>" and nc: "\<not> dd_completed self"
    using w by (auto simp: watching_def)
  have inv: "dd_inv self" using self nc by (simp add: dd_inv_def)
  have sc: "s @ c = concat es @ ?t @ c" using es(2) by (metis append_assoc)
  have nm': "\<not> has_marker (dd_trailing self @ c)" "\<not> has_marker c"
    using nm has_marker_suffix [of "?t @ c" "concat es"] has_marker_suffix [of c s]
    by (auto simp: self simp flip: sc)
  from inspect_retain_eq [of self env c h] inspect_no_marker [OF inv nc nm'(1), of env h] self
  obtain ds hs where r: "inspect env self c h
        = Ok (self\<lparr>dd_trailing := last_n 11 (?t @ c)\<rparr>, hashed env h hs, map Data ds)"
    and cat: "concat ds = take (length (?t @ c) - 11) (?t @ c)"
    and hs: "?t = [] \<or> length c < 11 \<longrightarrow> hs = ds" by auto
  have "concat ds @ last_n 11 (?t @ c) = ?t @ c" unfolding cat by (rule take_last_n)
  then have "concat (es @ ds) @ last_n 11 (s @ c) = s @ c"
    by (simp add: sc last_n_append_last_n)
  then have "watching env ini h0 (safe \<and> hash_safe ?t c) (s @ c)
       (self\<lparr>dd_trailing := last_n 11 (?t @ c)\<rparr>) (hashed env h hs) (evs @ map Data ds)"
    unfolding watching_def using self nc nm es hs nm'(2)
    by (intro conjI exI [of _ "es @ ds"]) (auto simp: last_n_append_last_n hash_safe_def hashed_append)
  then show ?thesis using r by blast
qed

text \<open>Chunk sequences on which every step hashes what it forwards.\<close>

fun safe_chunks :: "bytes \<Rightarrow> bytes list \<Rightarrow> bool" where
  "safe_chunks s [] = True"
| "safe_chunks s (c # cs) = ((has_marker (s @ c) \<or> hash_safe (last_n 11 s) c) \<and> safe_chunks (s @ c) cs)"

lemma watching_weaken: "watching env ini h0 a s self h evs \<Longrightarrow> (b \<longrightarrow> a) \<Longrightarrow> watching env ini h0 b s self h evs"
  unfolding watching_def by blast

lemma attested_weaken: "attested env ini h0 a s self evs \<Longrightarrow> (b \<longrightarrow> a) \<Longrightarrow> attested env ini h0 b s self evs"
  unfolding attested_def by blast

lemma attested_run:
  assumes "attested env ini h0 safe s self evs"
  shows "run_steps (inspect_step env) (self, h) cs = Ok ((self, h), map Data cs)
    \<and> attested env ini h0 safe (s @ concat cs) self (evs @ map Data cs)"
  using assms
proof (induction cs arbitrary: s evs)
  case (Cons c cs)
  from attested_step [OF Cons.prems, of c h] Cons.IH [of "s @ c" "evs @ [Data c]"]
  show ?case by (simp add: inspect_step_def)
qed simp

lemma watching_run:
  assumes "watching env ini h0 safe s self h evs" and ok: "receipts_ok env (dd_request_hasher ini)"
  shows "\<exists>self' h' evs'. run_steps (inspect_step env) (self, h) cs = Ok ((self', h'), evs')
    \<and> (if has_marker (s @ concat cs)
       then attested env ini h0 (safe \<and> safe_chunks s cs) (s @ concat cs) self' (evs @ evs')
       else watching env ini h0 (safe \<and> safe_chunks s cs) (s @ concat cs) self' h' (evs @ evs'))"
  using assms(1)
proof (induction cs arbitrary: safe s self h evs)
  case Nil
  then show ?case by (auto simp: watching_def)
next
  case (Cons c cs)
  show ?case
  proof (cases "has_marker (s @ c)")
    case True
    from watching_marker [OF Cons.prems ok True] obtain self1 h1 evs1
      where 1: "inspect env self c h = Ok (self1, h1, evs1)"
        and a: "attested env ini h0 safe (s @ c) self1 (evs @ evs1)" by blast
    have "attested env ini h0 (safe \<and> safe_chunks s (c # cs)) (s @ c @ concat cs) self1 (evs @ evs1 @ map Data cs)"
      using attested_run [OF a, of h1 cs] by (auto intro: attested_weaken)
    moreover have "has_marker (s @ c @ concat cs)"
      using True occurs_at_extend [of "s @ c" _ "concat cs"] by (auto simp: has_marker_iff)
    ultimately show ?thesis using 1 attested_run [OF a, of h1 cs] by (simp add: inspect_step_def)
  next
    case False
    from watching_no_marker [OF Cons.prems False] obtain self1 h1 evs1
      where 1: "inspect env self c h = Ok (self1, h1, evs1)"
        and w: "watching env ini h0 (safe \<and> hash_safe (last_n 11 s) c) (s @ c) self1 h1 (evs @ evs1)"
      by blast
    from Cons.IH [OF w] 1 False show ?thesis
      by (auto simp: inspect_step_def conj_ac split: if_splits)
  qed
qed

lemma watching_new:
  "dd_trailing ini = [] \<Longrightarrow> \<not> dd_completed ini \<Longrightarrow> watching env ini h0 True [] ini h0 []"
  by (simp add: watching_def hashed_def has_marker_def)

lemma detect_run:
  fixes env :: "('h, 'k) receipt_env"
  assumes ok: "receipts_ok env addr" and ini: "ini = DoneDetector_new rid tid url addr pd pcr"
  shows "\<exists>self h evs. run_steps (inspect_step env) (ini, h0) cs = Ok ((self, h), evs)
    \<and> (if has_marker (concat cs) then attested env ini h0 (safe_chunks [] cs) (concat cs) self evs
       else watching env ini h0 (safe_chunks [] cs) (concat cs) self h evs)"
proof -
  have "dd_trailing ini = []" "\<not> dd_completed ini" "receipts_ok env (dd_request_hasher ini)"
    using assms by (simp_all add: DoneDetector_new_def)
  from watching_run [OF watching_new [OF this(1,2)] this(3), of h0 cs] show ?thesis
    unfolding append_Nil simp_thms .
qed

lemma finish_attested:
  "attested env ini h0 safe s self evs \<Longrightarrow> DoneDetector_finish env self h = (self, h, [])"
  by (auto simp: attested_def DoneDetector_finish_def)

lemma finish_watching:
  "watching env ini h0 safe s self h evs \<Longrightarrow> \<exists>self' h' ds. DoneDetector_finish env self h = (self', h', map Data ds)
     \<and> concat ds = last_n 11 s"
  by (cases "last_n 11 s = []")
     (auto simp: watching_def DoneDetector_finish_def intro: exI [of _ "[]"] exI [of _ "[last_n 11 s]"])

definition receipt_count :: "StreamEvent list \<Rightarrow> nat" where
  "receipt_count evs = length (filter (\<lambda>e. case e of AuditReceipt _ \<Rightarrow> True | _ \<Rightarrow> False) evs)"

lemma receipt_count_simps [simp]:
  "receipt_count [] = 0"
  "receipt_count (Data b # evs) = receipt_count evs"
  "receipt_count (DoneMarker b # evs) = receipt_count evs"
  "receipt_count (AuditReceipt b # evs) = Suc (receipt_count evs)"
  "receipt_count (xs @ ys) = receipt_count xs + receipt_count ys"
  by (simp_all add: receipt_count_def)

lemma receipt_count_Data [simp]: "receipt_count (map Data ds) = 0"
  by (induction ds) simp_all

lemma detect_stream_conserves:
  assumes "receipts_ok env addr"
  shows "\<exists>self h evs. detect_stream env (DoneDetector_new rid tid url addr pd pcr) cs h0 = Ok (self, h, evs)
    \<and> concat (map passthrough evs) = concat cs"
proof -
  let ?ini = "DoneDetector_new rid tid url addr pd pcr"
  from detector_stage.run_conserves [OF stage_inv_new [OF assms], of rid tid url pd pcr h0 cs]
  obtain self h evs where
    r: "run_steps (inspect_step env) (?ini, h0) cs = Ok ((self, h), evs)"
    and cat: "concat (map passthrough evs) @ dd_trailing self = concat cs"
    by (auto simp: DoneDetector_new_def)
  then show ?thesis by (auto simp: detect_stream_def DoneDetector_finish_def)
qed

lemma detect_stream_shape:
  assumes "receipts_ok env addr"
  shows "\<exists>self h evs. detect_stream env (DoneDetector_new rid tid url addr pd pcr) cs h0 = Ok (self, h, evs)
    \<and> (if \<exists>i. occurs_at SSE_DONE_MARKER (concat cs) i
       then \<exists>ds a m ds' p. evs = map Data ds @ AuditReceipt a # DoneMarker m # map Data ds'
              \<and> occurs_at SSE_DONE_MARKER (concat cs) p \<and> prefix SSE_DONE_MARKER m
              \<and> concat ds = take p (concat cs) \<and> m @ concat ds' = drop p (concat cs)
       else \<exists>ds. evs = map Data ds)"
proof -
  let ?ini = "DoneDetector_new rid tid url addr pd pcr"
  from detect_run [OF assms refl, of rid tid url pd pcr h0 cs] obtain self h evs where
    r: "run_steps (inspect_step env) (?ini, h0) cs = Ok ((self, h), evs)"
    and st: "if has_marker (concat cs) then attested env ?ini h0 (safe_chunks [] cs) (concat cs) self evs
             else watching env ?ini h0 (safe_chunks [] cs) (concat cs) self h evs" by blast
  show ?thesis
  proof (cases "has_marker (concat cs)")
    case True
    with st have a: "attested env ?ini h0 (safe_chunks [] cs) (concat cs) self evs" by simp
    from a finish_attested [OF a, of h] r True show ?thesis
      unfolding attested_def detect_stream_def has_marker_iff [symmetric] by fastforce
  next
    case False
    with st have w: "watching env ?ini h0 (safe_chunks [] cs) (concat cs) self h evs" by simp
    from finish_watching [OF w] obtain self' h' ds where
      "DoneDetector_finish env self h = (self', h', map Data ds)" by blast
    moreover from w obtain es where "evs = map Data es" by (auto simp: watching_def)
    ultimately show ?thesis using r False
      by (auto simp: detect_stream_def has_marker_iff [symmetric] intro!: exI [of _ "es @ ds"])
  qed
qed

section \<open>The properties of the detector\<close>

text \<open>
  C12: Transparency: for every way the response is cut into chunks the detector runs to the end
  without panicking, and the data and marker frames it emits, receipts left out, concatenate to
  exactly the response.
\<close>
theorem detector_forwards_every_byte:
  assumes "receipts_ok env addr"
  shows "\<exists>self h evs. detect_stream env (DoneDetector_new rid tid url addr pd pcr) cs h0 = Ok (self, h, evs)
    \<and> concat (map passthrough evs) = concat cs"
  using assms by (rule detect_stream_conserves)

text \<open>
  C5: The receipt: if the end marker occurs in the response, whatever chunks it is spread over, the
  detector emits exactly one receipt, directly in front of a frame that begins with the marker; the
  data in front of the receipt is the response up to an occurrence of the marker and the marker
  frame and the data behind it are the rest. If it does not occur there is no receipt.
\<close>
theorem receipt_precedes_done_marker:
  assumes "receipts_ok env addr"
  shows "\<exists>self h evs. detect_stream env (DoneDetector_new rid tid url addr pd pcr) cs h0 = Ok (self, h, evs)
    \<and> (if \<exists>i. occurs_at SSE_DONE_MARKER (concat cs) i
       then \<exists>ds a m ds' p. evs = map Data ds @ AuditReceipt a # DoneMarker m # map Data ds'
              \<and> occurs_at SSE_DONE_MARKER (concat cs) p \<and> prefix SSE_DONE_MARKER m
              \<and> concat ds = take p (concat cs) \<and> m @ concat ds' = drop p (concat cs)
       else \<exists>ds. evs = map Data ds)"
  using assms by (rule detect_stream_shape)

text \<open>
  C23: The payload hash: for an incremental hasher, and as long as every chunk behind the first is
  shorter than eleven bytes or contains the marker, the receipt the detector issues is the attested
  receipt (signed and framed) whose payload hash is the hash of exactly the bytes forwarded in front
  of it.
\<close>
theorem receipt_hashes_forwarded_payload:
  fixes env :: "('h, 'k) receipt_env"
  assumes "receipts_ok env addr" and inc: "incremental (re_crypto env)"
    and short: "\<forall>c \<in> set (tl cs). length c < 11 \<or> has_marker c" and "has_marker (concat cs)"
  shows "\<exists>self h ds m ds'. detect_stream env (DoneDetector_new rid tid url addr pd pcr) cs
            (hasher_new (re_crypto env))
      = Ok (self, h, map Data ds
          @ AuditReceipt (audit_frame env (DoneDetector_new rid tid url addr pd pcr)
              (to_hex (re_crypto env) (blake3_hash (re_crypto env) (concat ds))))
          # DoneMarker m # map Data ds')"
proof -
  let ?ini = "DoneDetector_new rid tid url addr pd pcr" and ?h0 = "hasher_new (re_crypto env)"
  have tail: "\<forall>c \<in> set xs. length c < 11 \<or> has_marker c \<Longrightarrow> safe_chunks s xs" for s xs
    by (induction xs arbitrary: s) (auto simp: hash_safe_def)
  have safe: "safe_chunks [] cs"
    using short by (cases cs) (auto simp: hash_safe_def tail)
  from detect_run [OF assms(1) refl, of rid tid url pd pcr ?h0 cs] obtain self h evs where
    r: "run_steps (inspect_step env) (?ini, ?h0) cs = Ok ((self, h), evs)"
    and a: "attested env ?ini ?h0 (safe_chunks [] cs) (concat cs) self evs" using assms(4) by auto
  have "payload_hex env (hashed env ?h0 ds) = to_hex (re_crypto env) (blake3_hash (re_crypto env) (concat ds))" for ds
    using inc by (simp add: payload_hex_def hashed_def incremental_def)
  then show ?thesis using a safe r finish_attested [OF a, of h]
    by (fastforce simp: attested_def detect_stream_def)
qed

text \<open>A long chunk without the marker: the bytes held before are forwarded, but not hashed.\<close>

lemma inspect_long_chunk:
  assumes "\<not> dd_completed self" and "length (dd_trailing self) \<le> 11" and "11 \<le> length c"
    and "\<not> has_marker (dd_trailing self @ c)"
  shows "\<exists>ds hs. inspect env self c h = Ok (self\<lparr>dd_trailing := last_n 11 c\<rparr>, hashed env h hs, map Data ds)
    \<and> concat ds = dd_trailing self @ take (length c - 11) c \<and> concat hs = take (length c - 11) c"
proof -
  let ?t = "dd_trailing self" and ?data = "take (length c - 11) c"
  have none: "position_window SSE_DONE_MARKER c = None" "position_window SSE_DONE_MARKER (?t @ take (min (length c) 11) c) = None"
    using assms(3,4) has_marker_append [of ?t c] unfolding has_marker_def by (auto simp: min_absorb2)
  have ret: "inspect_retain env self c h = Ok (self\<lparr>dd_trailing := last_n 11 c\<rparr>,
      hashed env h (if ?data = [] then [] else [?data]),
      map Data ((if ?t = [] then [] else [?t]) @ (if ?data = [] then [] else [?data])))"
    using assms(3) by (simp add: inspect_retain_def last_n_def hashed_def Let_def)
  have "inspect env self c h = inspect_retain env self c h"
    using assms(1,2) none by (simp add: inspect_def probe_window_def Let_def)
  then show ?thesis unfolding ret
    by (intro exI [of _ "(if ?t = [] then [] else [?t]) @ (if ?data = [] then [] else [?data])"]
        exI [of _ "if ?data = [] then [] else [?data]"]) auto
qed

lemma has_marker_prefix: "has_marker xs \<Longrightarrow> has_marker (xs @ ys)"
  by (metis has_marker_iff occurs_at_append_left occurs_at_length marker_not_Nil)

lemma inspect_step_eq: "inspect env self c h = Ok (self', h', evs) \<Longrightarrow> inspect_step env (self, h) c = Ok ((self', h'), evs)"
  by (simp add: inspect_step_def)

text \<open>What is held after chunks of at least eleven bytes.\<close>

definition held_after :: "bytes \<Rightarrow> bytes list \<Rightarrow> bytes" where
  "held_after t cs = (if cs = [] then t else last_n 11 (last cs))"

lemma held_after_Cons: "held_after t (c # cs) = held_after (last_n 11 c) cs"
  by (simp add: held_after_def)

lemma inspect_long_chunks:
  "\<lbrakk>\<not> dd_completed self; length (dd_trailing self) \<le> 11; \<forall>c \<in> set cs. 11 \<le> length c;
    \<not> has_marker (dd_trailing self @ concat cs)\<rbrakk> \<Longrightarrow>
   \<exists>ds hs. run_steps (inspect_step env) (self, h) cs
       = Ok ((self\<lparr>dd_trailing := held_after (dd_trailing self) cs\<rparr>, hashed env h hs), map Data ds)
     \<and> concat ds @ held_after (dd_trailing self) cs = dd_trailing self @ concat cs
     \<and> concat hs = concat (map (\<lambda>c. take (length c - 11) c) cs)"
proof (induction cs arbitrary: self h)
  case Nil
  show ?case by (intro exI [of _ "[]"]) (simp add: hashed_def held_after_def)
next
  case (Cons c cs)
  let ?self = "self\<lparr>dd_trailing := last_n 11 c\<rparr>"
  have cut: "take (length c - 11) c @ last_n 11 c = c" by (simp add: last_n_def)
  have "\<not> has_marker (dd_trailing self @ c)"
    using Cons.prems(4) has_marker_prefix [of "dd_trailing self @ c" "concat cs"] by auto
  with inspect_long_chunk [of self c env h] Cons.prems obtain ds hs where
    1: "inspect env self c h = Ok (?self, hashed env h hs, map Data ds)"
      "concat ds = dd_trailing self @ take (length c - 11) c" "concat hs = take (length c - 11) c" by auto
  have "dd_trailing self @ concat (c # cs) = (dd_trailing self @ take (length c - 11) c) @ (last_n 11 c @ concat cs)"
    by (simp add: last_n_def)
  then have "\<not> has_marker (last_n 11 c @ concat cs)" using Cons.prems(4) has_marker_suffix by metis
  moreover have "length (last_n 11 c) \<le> 11" by (simp add: last_n_def)
  ultimately have "\<exists>ds' hs'. run_steps (inspect_step env) (?self, hashed env h hs) cs
        = Ok ((self\<lparr>dd_trailing := held_after (last_n 11 c) cs\<rparr>, hashed env (hashed env h hs) hs'), map Data ds')
      \<and> concat ds' @ held_after (last_n 11 c) cs = last_n 11 c @ concat cs
      \<and> concat hs' = concat (map (\<lambda>c. take (length c - 11) c) cs)"
    using Cons.IH [of ?self "hashed env h hs"] Cons.prems(1,3) by simp
  then obtain ds' hs' where
    2: "run_steps (inspect_step env) (?self, hashed env h hs) cs
        = Ok ((self\<lparr>dd_trailing := held_after (last_n 11 c) cs\<rparr>, hashed env (hashed env h hs) hs'), map Data ds')"
      "concat ds' @ held_after (last_n 11 c) cs = last_n 11 c @ concat cs"
      "concat hs' = concat (map (\<lambda>c. take (length c - 11) c) cs)" by blast
  have "concat (ds @ ds') @ held_after (last_n 11 c) cs = dd_trailing self @ c @ concat cs"
    using 1(2) 2(2) cut by (metis append_assoc concat_append)
  moreover have "run_steps (inspect_step env) (self, h) (c # cs)
      = Ok ((self\<lparr>dd_trailing := held_after (last_n 11 c) cs\<rparr>, hashed env h (hs @ hs')), map Data (ds @ ds'))"
    using inspect_step_eq [OF 1(1)] 2(1) by (simp add: hashed_def)
  ultimately show ?case using 1(3) 2(3)
    by (intro exI [of _ "ds @ ds'"] exI [of _ "hs @ hs'"]) (simp add: held_after_Cons del: run_steps.simps)
qed

lemma inspect_marker_chunk:
  assumes "\<not> dd_completed self" and "receipts_ok env (dd_request_hasher self)"
    and "position_window SSE_DONE_MARKER c = Some start"
  shows "\<exists>ds. inspect env self c h = Ok (self\<lparr>dd_trailing := [], dd_completed := True\<rparr>, hashed env h ds,
      map Data ds @ [AuditReceipt (audit_frame env self (payload_hex env (hashed env h ds))), DoneMarker (drop start c)])
    \<and> concat ds = dd_trailing self @ take start c"
proof -
  let ?t = "dd_trailing self" and ?b = "take start c"
  have ok: "receipts_ok env (dd_request_hasher (self\<lparr>dd_trailing := []\<rparr>))" using assms(2) by simp
  have same: "?t = [] \<Longrightarrow> self\<lparr>dd_trailing := []\<rparr> = self" by (cases self) simp
  show ?thesis
    using assms same receipt_events_eq [OF assms(2)] receipt_events_eq [OF ok]
    by (intro exI [of _ "(if ?t = [] then [] else [?t]) @ (if ?b = [] then [] else [?b])"])
      (auto simp: inspect_def inspect_in_chunk_def hashed_def Let_def)
qed

text \<open>
  C24: Beyond that condition the payload hash is wrong. Take any response whose chunks before the marker are of at
  least eleven bytes each and do not contain it, followed by a chunk that does. Every byte in front of the marker is
  forwarded in front of the receipt, but the receipt carries the hash of a text from which the last eleven bytes
  of every chunk but the one before the marker are missing: the hashed text is eleven bytes shorter for each of
  these chunks.
\<close>
theorem payload_hash_skips_held_bytes:
  fixes env :: "('h, 'k) receipt_env"
  assumes "receipts_ok env addr" and "incremental (re_crypto env)"
    and "cs \<noteq> []" and "\<forall>c \<in> set cs. 11 \<le> length c" and "\<not> has_marker (concat cs)"
    and "position_window SSE_DONE_MARKER c = Some start"
  shows "\<exists>self h ds hashed_text. detect_stream env (DoneDetector_new rid tid url addr pd pcr) (cs @ [c]) (hasher_new (re_crypto env))
       = Ok (self, h, map Data ds @ [AuditReceipt (audit_frame env (DoneDetector_new rid tid url addr pd pcr)
           (to_hex (re_crypto env) (blake3_hash (re_crypto env) hashed_text))), DoneMarker (drop start c)])
     \<and> concat ds = concat cs @ take start c
     \<and> hashed_text = concat (map (\<lambda>c. take (length c - 11) c) (butlast cs)) @ last cs @ take start c
     \<and> length hashed_text + 11 * (length cs - 1) = length (concat ds)"
proof -
  let ?cr = "re_crypto env" and ?ini = "DoneDetector_new rid tid url addr pd pcr"
  let ?front = "\<lambda>cs. concat (map (\<lambda>c. take (length c - 11) c) cs)"
  obtain ds hs where
    1: "run_steps (inspect_step env) (?ini, hasher_new ?cr) cs
        = Ok ((?ini\<lparr>dd_trailing := last_n 11 (last cs)\<rparr>, hashed env (hasher_new ?cr) hs), map Data ds)"
      "concat ds @ last_n 11 (last cs) = concat cs" "concat hs = ?front cs"
    using inspect_long_chunks [of ?ini cs env "hasher_new ?cr"] assms(3-5) by (auto simp: held_after_def)
  obtain ds' where
    2: "inspect env (?ini\<lparr>dd_trailing := last_n 11 (last cs)\<rparr>) c (hashed env (hasher_new ?cr) hs)
        = Ok (?ini\<lparr>dd_completed := True\<rparr>, hashed env (hasher_new ?cr) (hs @ ds'),
            map Data ds' @ [AuditReceipt (audit_frame env ?ini (payload_hex env (hashed env (hasher_new ?cr) (hs @ ds')))),
              DoneMarker (drop start c)])"
      "concat ds' = last_n 11 (last cs) @ take start c"
    using inspect_marker_chunk [of "?ini\<lparr>dd_trailing := last_n 11 (last cs)\<rparr>" env c start "hashed env (hasher_new ?cr) hs"]
      assms(1,6) by (auto simp: hashed_def)
  have step: "inspect_step env (?ini\<lparr>dd_trailing := last_n 11 (last cs)\<rparr>, hashed env (hasher_new ?cr) hs) c
      = Ok ((?ini\<lparr>dd_completed := True\<rparr>, hashed env (hasher_new ?cr) (hs @ ds')),
          map Data ds' @ [AuditReceipt (audit_frame env ?ini (payload_hex env (hashed env (hasher_new ?cr) (hs @ ds')))),
            DoneMarker (drop start c)])"
    by (rule inspect_step_eq [OF 2(1)])
  have cut: "concat (hs @ ds') = ?front (butlast cs) @ last cs @ take start c"
  proof -
    have "?front cs = ?front (butlast cs) @ take (length (last cs) - 11) (last cs)"
      using assms(3) by (subst append_butlast_last_id [OF assms(3), symmetric]) (simp only: map_append concat_append, simp)
    then show ?thesis using 1(3) 2(2) by (simp add: last_n_def)
  qed
  have "payload_hex env (hashed env (hasher_new ?cr) (hs @ ds')) = to_hex ?cr (blake3_hash ?cr (concat (hs @ ds')))"
    using assms(2) unfolding payload_hex_def hashed_def incremental_def by metis
  moreover have "detect_stream env ?ini (cs @ [c]) (hasher_new ?cr) = Ok (?ini\<lparr>dd_completed := True\<rparr>,
      hashed env (hasher_new ?cr) (hs @ ds'),
      map Data (ds @ ds') @ [AuditReceipt (audit_frame env ?ini (payload_hex env (hashed env (hasher_new ?cr) (hs @ ds')))),
        DoneMarker (drop start c)])"
    by (simp add: detect_stream_def run_steps_append 1(1) step DoneDetector_finish_def)
  moreover have "concat (ds @ ds') = concat cs @ take start c" using 1(2) 2(2) by (metis append_assoc concat_append)
  moreover have "length (?front xs) + 11 * length xs = length (concat xs)" if "\<forall>c \<in> set xs. 11 \<le> length c" for xs :: "bytes list"
    using that by (induction xs) auto
  then have "length (?front (butlast cs)) + 11 * (length cs - 1) + length (last cs) = length (concat cs)"
    using assms(3,4) append_butlast_last_id [OF assms(3)]
    by (metis (no_types, lifting) concat.simps concat_append in_set_butlastD length_append length_butlast append_Nil2)
  ultimately show ?thesis unfolding cut
    by (intro exI [of _ "?ini\<lparr>dd_completed := True\<rparr>"] exI [of _ "hashed env (hasher_new ?cr) (hs @ ds')"] exI [of _ "ds @ ds'"]
        exI [of _ "?front (butlast cs) @ last cs @ take start c"]) simp
qed

text \<open>
  C25: Shutdown: killing the stream after any prefix of the response gives the client, over the whole
  stream, exactly one receipt, all of that prefix, and behind it the termination frame unless the
  response had already been completed by its marker.
\<close>
theorem shutdown_issues_one_receipt:
  fixes env :: "('h, 'k) receipt_env"
  assumes "receipts_ok env addr"
  shows "\<exists>self h evs self' h' evs'.
     run_steps (inspect_step env) (DoneDetector_new rid tid url addr pd pcr, h0) cs = Ok ((self, h), evs)
     \<and> shutdown_events env self h = Ok (self', h', evs') \<and> dd_completed self' \<and> dd_trailing self' = []
     \<and> receipt_count (evs @ evs') = 1
     \<and> concat (map passthrough (evs @ evs'))
       = concat cs @ (if has_marker (concat cs) then [] else KILLED_BY_SHUTDOWN)"
proof -
  let ?ini = "DoneDetector_new rid tid url addr pd pcr"
  from detect_run [OF assms refl, of rid tid url pd pcr h0 cs] obtain self h evs where
    r: "run_steps (inspect_step env) (?ini, h0) cs = Ok ((self, h), evs)"
    and st: "if has_marker (concat cs) then attested env ?ini h0 (safe_chunks [] cs) (concat cs) self evs
             else watching env ?ini h0 (safe_chunks [] cs) (concat cs) self h evs" by blast
  show ?thesis
  proof (cases "has_marker (concat cs)")
    case True
    with st obtain ds a m ds' p where
      evs: "evs = map Data ds @ AuditReceipt a # DoneMarker m # map Data ds'"
      and cat: "concat ds = take p (concat cs)" "m @ concat ds' = drop p (concat cs)"
      and self: "dd_completed self" "dd_trailing self = []"
      by (auto simp: attested_def)
    have "concat ds @ m @ concat ds' = concat cs" unfolding cat by (rule append_take_drop_id)
    then have "concat (map passthrough (evs @ [])) = concat cs" by (simp add: evs)
    then show ?thesis using r self True
      by (intro exI [of _ self] exI [of _ h] exI [of _ evs] exI [of _ "[]"]) (simp add: shutdown_events_def evs)
  next
    case False
    let ?t = "last_n 11 (concat cs)"
    from st False obtain ds where evs: "evs = map Data ds" and cat: "concat ds @ ?t = concat cs"
      and self: "self = ?ini\<lparr>dd_trailing := ?t\<rparr>" by (auto simp: watching_def)
    have ok: "receipts_ok env (dd_request_hasher ?ini)" using assms by simp
    have "\<exists>h' a. shutdown_events env self h = Ok (?ini\<lparr>dd_completed := True\<rparr>, h',
        (if ?t = [] then [] else [Data ?t]) @ [AuditReceipt a, DoneMarker KILLED_BY_SHUTDOWN])"
      by (simp add: shutdown_events_def self receipt_events_eq [OF ok])
    then obtain h' a where sd: "shutdown_events env self h = Ok (?ini\<lparr>dd_completed := True\<rparr>, h',
        (if ?t = [] then [] else [Data ?t]) @ [AuditReceipt a, DoneMarker KILLED_BY_SHUTDOWN])" by blast
    let ?evs' = "(if ?t = [] then [] else [Data ?t]) @ [AuditReceipt a, DoneMarker KILLED_BY_SHUTDOWN]"
    have "concat ds @ ?t @ x = concat cs @ x" for x using cat by (metis append_assoc)
    then have out: "concat (map passthrough (evs @ ?evs')) = concat cs @ KILLED_BY_SHUTDOWN"
      using cat by (cases "?t = []") (simp_all add: evs)
    have "receipt_count (evs @ ?evs') = 1" by (simp add: evs)
    then show ?thesis using r False sd out
      by (intro exI [of _ self] exI [of _ h] exI [of _ evs] exI [of _ "?ini\<lparr>dd_completed := True\<rparr>"]
            exI [of _ h'] exI [of _ ?evs']) simp
  qed
qed

text \<open>
  A marker that begins in the held bytes is overlooked when the chunk that completes it holds
  another marker: the receipt then stands in front of the second marker and the client sees the first
  marker as data, ahead of the receipt.
\<close>
lemma straddling_marker_overlooked:
  fixes env :: "('h, 'k) receipt_env"
  assumes "receipts_ok env addr"
  shows "\<exists>self h a. detect_stream env (DoneDetector_new rid tid url addr pd pcr)
           [''data: [DO'', ''NE] data: [DONE]''] h0
     = Ok (self, h, [Data ''data: [DO'', Data ''NE] '', AuditReceipt a, DoneMarker ''data: [DONE]''])"
proof -
  let ?ini = "DoneDetector_new rid tid url addr pd pcr"
  have ok: "receipts_ok env (dd_request_hasher ?ini)" using assms by simp
  have 1: "inspect env ?ini ''data: [DO'' h0 = Ok (?ini\<lparr>dd_trailing := ''data: [DO''\<rparr>, h0, [])"
    by (simp add: inspect_def SSE_DONE_MARKER_def inspect_retain_def)
  have 2: "\<exists>h a. inspect env (?ini\<lparr>dd_trailing := ''data: [DO''\<rparr>) ''NE] data: [DONE]'' h0
      = Ok (?ini\<lparr>dd_completed := True\<rparr>, h,
          [Data ''data: [DO'', Data ''NE] '', AuditReceipt a, DoneMarker ''data: [DONE]''])"
    by (simp add: inspect_def SSE_DONE_MARKER_def inspect_in_chunk_def Let_def receipt_events_eq [OF ok])
  then obtain h a where "inspect env (?ini\<lparr>dd_trailing := ''data: [DO''\<rparr>) ''NE] data: [DONE]'' h0
      = Ok (?ini\<lparr>dd_completed := True\<rparr>, h,
          [Data ''data: [DO'', Data ''NE] '', AuditReceipt a, DoneMarker ''data: [DONE]''])" by blast
  then show ?thesis
    by (intro exI [of _ "?ini\<lparr>dd_completed := True\<rparr>"] exI [of _ h] exI [of _ a])
       (simp add: detect_stream_def inspect_step_def 1 DoneDetector_finish_def)
qed

section \<open>Witnesses\<close>

definition sample_renv :: "(bytes, bytes) receipt_env" where
  "sample_renv = \<lparr>re_crypto = sample_crypto, re_mem = (\<lambda>_. Some ''req''), re_key = ''k'', re_now = 7\<rparr>"

lemma sample_receipts_ok: "receipts_ok sample_renv addr"
  by (simp add: receipts_ok_def sample_renv_def sample_crypto_def)

lemma sample_renv_incremental: "incremental (re_crypto sample_renv)"
  using sample_crypto_incremental by (simp add: sample_renv_def)

theorem detector_forwards_every_byte_witness:
  "\<exists>self h evs. detect_stream sample_renv (DoneDetector_new ''r'' ''t'' ''u'' 0 ''p'' ''0'')
       [''hello data: '', ''[DO'', ''NE] bye''] [] = Ok (self, h, evs)
    \<and> concat (map passthrough evs) = concat [''hello data: '', ''[DO'', ''NE] bye'']"
  by (rule detector_forwards_every_byte [OF sample_receipts_ok])

theorem receipt_precedes_done_marker_witness:
  "\<exists>self h evs. detect_stream sample_renv (DoneDetector_new ''r'' ''t'' ''u'' 0 ''p'' ''0'')
       [''hello data: '', ''[DO'', ''NE] bye''] [] = Ok (self, h, evs)
    \<and> (if \<exists>i. occurs_at SSE_DONE_MARKER (concat [''hello data: '', ''[DO'', ''NE] bye'']) i
       then \<exists>ds a m ds' p. evs = map Data ds @ AuditReceipt a # DoneMarker m # map Data ds'
              \<and> occurs_at SSE_DONE_MARKER (concat [''hello data: '', ''[DO'', ''NE] bye'']) p
              \<and> prefix SSE_DONE_MARKER m
              \<and> concat ds = take p (concat [''hello data: '', ''[DO'', ''NE] bye''])
              \<and> m @ concat ds' = drop p (concat [''hello data: '', ''[DO'', ''NE] bye''])
       else \<exists>ds. evs = map Data ds)"
  by (rule receipt_precedes_done_marker [OF sample_receipts_ok])

theorem receipt_hashes_forwarded_payload_witness:
  "\<exists>self h ds m ds'. detect_stream sample_renv (DoneDetector_new ''r'' ''t'' ''u'' 0 ''p'' ''0'')
       [''hello wonderful data: '', ''[DO'', ''NE] bye''] (hasher_new (re_crypto sample_renv))
      = Ok (self, h, map Data ds
          @ AuditReceipt (audit_frame sample_renv (DoneDetector_new ''r'' ''t'' ''u'' 0 ''p'' ''0'')
              (to_hex (re_crypto sample_renv) (blake3_hash (re_crypto sample_renv) (concat ds))))
          # DoneMarker m # map Data ds')"
  by (rule receipt_hashes_forwarded_payload [OF sample_receipts_ok sample_renv_incremental])
     (simp_all add: has_marker_def SSE_DONE_MARKER_def)

theorem payload_hash_skips_held_bytes_witness:
  "\<exists>self h ds. detect_stream sample_renv (DoneDetector_new ''r'' ''t'' ''u'' 0 ''p'' ''0'')
        [''The quick brown fox'', '' jumps over the dog.'', ''data: [DONE]''] (hasher_new (re_crypto sample_renv))
      = Ok (self, h, map Data ds @ [AuditReceipt (audit_frame sample_renv (DoneDetector_new ''r'' ''t'' ''u'' 0 ''p'' ''0'')
          (to_hex (re_crypto sample_renv) (blake3_hash (re_crypto sample_renv) ''The quic jumps over the dog.''))),
          DoneMarker ''data: [DONE]''])
    \<and> concat ds = ''The quick brown fox jumps over the dog.''"
proof -
  let ?cs = "[''The quick brown fox'', '' jumps over the dog.'']"
  have "\<forall>c \<in> set ?cs. 11 \<le> length c" "?cs \<noteq> []" by simp_all
  moreover have "\<not> has_marker (concat ?cs)" "position_window SSE_DONE_MARKER ''data: [DONE]'' = Some 0"
    by (simp_all add: has_marker_def SSE_DONE_MARKER_def)
  ultimately show ?thesis
    using payload_hash_skips_held_bytes [where cs = ?cs and c = "''data: [DONE]''" and start = 0 and rid = "''r''" and tid = "''t''"
        and url = "''u''" and addr = 0 and pd = "''p''" and pcr = "''0''", OF sample_receipts_ok sample_renv_incremental]
    by auto
qed

theorem shutdown_issues_one_receipt_witness:
  "\<exists>self h evs self' h' evs'.
     run_steps (inspect_step sample_renv) (DoneDetector_new ''r'' ''t'' ''u'' 0 ''p'' ''0'', []) [''hello'', '' world'']
       = Ok ((self, h), evs)
     \<and> shutdown_events sample_renv self h = Ok (self', h', evs') \<and> dd_completed self' \<and> dd_trailing self' = []
     \<and> receipt_count (evs @ evs') = 1
     \<and> concat (map passthrough (evs @ evs')) = concat [''hello'', '' world'']
         @ (if has_marker (concat [''hello'', '' world'']) then [] else KILLED_BY_SHUTDOWN)"
  by (rule shutdown_issues_one_receipt [OF sample_receipts_ok])

lemma straddling_marker_overlooked_witness:
  "\<exists>self h a. detect_stream sample_renv (DoneDetector_new ''r'' ''t'' ''u'' 0 ''p'' ''0'')
           [''data: [DO'', ''NE] data: [DONE]''] []
     = Ok (self, h, [Data ''data: [DO'', Data ''NE] '', AuditReceipt a, DoneMarker ''data: [DONE]''])"
  by (rule straddling_marker_overlooked [OF sample_receipts_ok])

end
