(* ===== verification/BudgetQueue.thy ===== *)
theory BudgetQueue
  imports Prelude "HOL-Library.Word"
begin

text \<open>
  The byte budgets of \<open>src/budget_queue.rs\<close>: every byte queued for a client is covered by permits of
  the tenant's semaphore and of the global one, which travel with the segment and return when it is
  dropped. Semaphores and the per-tenant maps are shared through \<open>Arc\<close>, so they live in a store
  (\<open>world\<close>) and the structures hold their addresses. The semaphore itself is tokio's: its operations
  are the record \<open>sem_ops\<close>, an argument of every definition that calls them.
\<close>

section \<open>Semaphores and the store\<close>

record 's sem_ops =
  sem_new :: "nat \<Rightarrow> 's"
  sem_available :: "'s \<Rightarrow> nat"
  sem_try_acquire_many :: "'s \<Rightarrow> nat \<Rightarrow> 's option"
  sem_add_permits :: "'s \<Rightarrow> nat \<Rightarrow> 's"

text \<open>\<open>OwnedSemaphorePermit\<close>: the semaphore it belongs to and \<open>num_permits\<close>.\<close>

record permit =
  p_sem :: nat
  p_num :: nat

text \<open>
  \<open>w_sizes\<close> records the size each semaphore was made with; \<open>w_maps\<close> are the \<open>DashMap\<close>s from tenant
  identifiers to semaphores; \<open>w_in_use\<close> is the counter \<open>PROXY_BYTE_BUDGET_IN_USE\<close>.
\<close>

record 's world =
  w_sems :: "nat \<Rightarrow> 's"
  w_sizes :: "nat \<Rightarrow> nat"
  w_maps :: "nat \<Rightarrow> bytes \<Rightarrow> nat option"
  w_next :: nat
  w_next_map :: nat
  w_in_use :: "64 word"

definition alloc_sem :: "'s sem_ops \<Rightarrow> 's world \<Rightarrow> nat \<Rightarrow> 's world \<times> nat" where
  "alloc_sem ops w n =
     (w\<lparr>w_sems := (w_sems w)(w_next w := sem_new ops n), w_sizes := (w_sizes w)(w_next w := n),
        w_next := Suc (w_next w)\<rparr>, w_next w)"

definition alloc_map :: "'s world \<Rightarrow> 's world \<times> nat" where
  "alloc_map w =
     (w\<lparr>w_maps := (w_maps w)(w_next_map w := (\<lambda>_. None)), w_next_map := Suc (w_next_map w)\<rparr>, w_next_map w)"

definition try_acquire_many_owned ::
  "'s sem_ops \<Rightarrow> 's world \<Rightarrow> nat \<Rightarrow> nat \<Rightarrow> ('s world \<times> permit) option" where
  "try_acquire_many_owned ops w a n =
     (case sem_try_acquire_many ops (w_sems w a) n of
        None \<Rightarrow> None
      | Some s \<Rightarrow> Some (w\<lparr>w_sems := (w_sems w)(a := s)\<rparr>, \<lparr>p_sem = a, p_num = n\<rparr>))"

definition drop_permit :: "'s sem_ops \<Rightarrow> 's world \<Rightarrow> permit \<Rightarrow> 's world" where
  "drop_permit ops w p =
     w\<lparr>w_sems := (w_sems w)(p_sem p := sem_add_permits ops (w_sems w (p_sem p)) (p_num p))\<rparr>"

section \<open>Budgets\<close>

definition GLOBAL_MEMORY_CHUNK :: nat where
  "GLOBAL_MEMORY_CHUNK = 64 * 1024"

definition DEFAULT_GLOBAL_MEMORY_BUDGET :: nat where
  "DEFAULT_GLOBAL_MEMORY_BUDGET = 256 * 1024 * 1024"

definition TENANT_MEMORY_BUDGET :: nat where
  "TENANT_MEMORY_BUDGET = 16 * 1024 * 1024"

record TenantBudget =
  tb_tenant_budgets :: nat
  tb_global_memory :: nat

datatype BudgetError = Capacity | TenantLimitExceeded | GlobalLimitExceeded

record ByteBudget =
  bb_semaphore :: nat
  bb_global_memory :: nat
  bb_capacity :: nat

definition byte_budget_in_use :: "'s world \<Rightarrow> 64 word" where
  "byte_budget_in_use w = w_in_use w"

definition from_global_shared ::
  "'s sem_ops \<Rightarrow> 's world \<Rightarrow> nat \<Rightarrow> nat \<Rightarrow> ('s world \<times> ByteBudget, 'e) outcome" where
  "from_global_shared ops w global_memory cap =
     (if cap > 0
      then (case alloc_sem ops w cap of
              (w', a) \<Rightarrow> Ok (w', \<lparr>bb_semaphore = a, bb_global_memory = global_memory, bb_capacity = cap\<rparr>))
      else Panic)"

definition ByteBudget_new ::
  "'s sem_ops \<Rightarrow> 's world \<Rightarrow> nat \<Rightarrow> ('s world \<times> ByteBudget, 'e) outcome" where
  "ByteBudget_new ops w cap =
     (case alloc_sem ops w DEFAULT_GLOBAL_MEMORY_BUDGET of
        (w', g) \<Rightarrow> from_global_shared ops w' g cap)"

definition from_shared ::
  "'s sem_ops \<Rightarrow> 's world \<Rightarrow> nat \<Rightarrow> nat \<Rightarrow> ('s world \<times> ByteBudget, 'e) outcome" where
  "from_shared ops w semaphore cap =
     (if cap > 0
      then (case alloc_sem ops w DEFAULT_GLOBAL_MEMORY_BUDGET of
              (w', g) \<Rightarrow> Ok (w', \<lparr>bb_semaphore = semaphore, bb_global_memory = g, bb_capacity = cap\<rparr>))
      else Panic)"

definition with_tenant ::
  "'s sem_ops \<Rightarrow> 's world \<Rightarrow> bytes \<Rightarrow> nat \<Rightarrow> nat \<Rightarrow> nat \<Rightarrow> ('s world \<times> ByteBudget, 'e) outcome" where
  "with_tenant ops w tenant_id tenant_budgets global_memory cap =
     (if cap > 0
      then
        let (w', a) = (case w_maps w tenant_budgets tenant_id of
               Some a \<Rightarrow> (w, a)
             | None \<Rightarrow> (case alloc_sem ops w TENANT_MEMORY_BUDGET of (w1, a) \<Rightarrow>
                 (w1\<lparr>w_maps := (w_maps w1)(tenant_budgets := (w_maps w1 tenant_budgets)(tenant_id := Some a))\<rparr>, a))) in
        Ok (w', \<lparr>bb_semaphore = a, bb_global_memory = global_memory, bb_capacity = cap\<rparr>)
      else Panic)"

definition TenantBudget_new :: "'s world \<Rightarrow> nat \<Rightarrow> 's world \<times> TenantBudget" where
  "TenantBudget_new w global_memory =
     (case alloc_map w of (w', m) \<Rightarrow> (w', \<lparr>tb_tenant_budgets = m, tb_global_memory = global_memory\<rparr>))"

definition for_tenant ::
  "'s sem_ops \<Rightarrow> 's world \<Rightarrow> TenantBudget \<Rightarrow> bytes \<Rightarrow> nat \<Rightarrow> ('s world \<times> ByteBudget, 'e) outcome" where
  "for_tenant ops w tb tenant_id cap =
     with_tenant ops w tenant_id (tb_tenant_budgets tb) (tb_global_memory tb) cap"

definition available :: "'s sem_ops \<Rightarrow> 's world \<Rightarrow> ByteBudget \<Rightarrow> nat" where
  "available ops w budget = sem_available ops (w_sems w (bb_semaphore budget))"

text \<open>\<open>n as u32\<close>\<close>

definition as_u32 :: "nat \<Rightarrow> nat" where
  "as_u32 n = n mod 2 ^ 32"

definition tenant_permit ::
  "'s sem_ops \<Rightarrow> 's world \<Rightarrow> ByteBudget \<Rightarrow> nat \<Rightarrow> ('s world \<times> permit, BudgetError) outcome" where
  "tenant_permit ops w self n =
     (if n = 0 \<or> n > bb_capacity self \<or> n > 2 ^ 32 - 1 then Err Capacity
      else case try_acquire_many_owned ops w (bb_semaphore self) (as_u32 n) of
        None \<Rightarrow> Err TenantLimitExceeded
      | Some (w', p) \<Rightarrow> Ok (w', p))"

text \<open>
  \<open>reserve\<close> waits for the permits: \<open>acquired\<close> is what tokio's \<open>acquire_many_owned\<close> of the given
  semaphore and number finally returns (\<open>None\<close>: the semaphore was closed).
\<close>

definition ByteBudget_reserve ::
  "(nat \<Rightarrow> nat \<Rightarrow> permit option) \<Rightarrow> ByteBudget \<Rightarrow> nat \<Rightarrow> permit option" where
  "ByteBudget_reserve acquired self n =
     (if n = 0 \<or> n > bb_capacity self \<or> n > 2 ^ 32 - 1 then None
      else acquired (bb_semaphore self) (as_u32 n))"

section \<open>Segments\<close>

record BudgetedSegment =
  seg_bytes :: bytes
  seg_global_permit :: permit
  seg_local_permit :: permit

definition record_budget_in_use :: "'s world \<Rightarrow> int \<Rightarrow> 's world" where
  "record_budget_in_use w delta =
     (if delta > 0 then w\<lparr>w_in_use := w_in_use w + of_int delta\<rparr>
      else w\<lparr>w_in_use := w_in_use w - of_int \<bar>delta\<bar>\<rparr>)"

definition BudgetedSegment_reserve ::
  "'s sem_ops \<Rightarrow> 's world \<Rightarrow> ByteBudget \<Rightarrow> bytes \<Rightarrow> 's world \<times> (BudgetedSegment, BudgetError) outcome" where
  "BudgetedSegment_reserve ops w budget b =
     (if b = [] then (w, Err Capacity)
      else case tenant_permit ops w budget (length b) of
        Err e \<Rightarrow> (w, Err e)
      | Panic \<Rightarrow> (w, Panic)
      | Ok (w1, local_permit) \<Rightarrow>
          (case try_acquire_many_owned ops w1 (bb_global_memory budget) (as_u32 (length b)) of
             None \<Rightarrow> (drop_permit ops w1 local_permit, Err GlobalLimitExceeded)
           | Some (w2, global_permit) \<Rightarrow>
               (record_budget_in_use w2 (int (length b)),
                Ok \<lparr>seg_bytes = b, seg_global_permit = global_permit, seg_local_permit = local_permit\<rparr>)))"

definition permit_count :: "BudgetedSegment \<Rightarrow> nat" where
  "permit_count self = p_num (seg_local_permit self)"

text \<open>\<open>Drop\<close>: the counter first, then the fields in the order of their declaration.\<close>

definition drop_segment :: "'s sem_ops \<Rightarrow> 's world \<Rightarrow> BudgetedSegment \<Rightarrow> 's world" where
  "drop_segment ops w self =
     drop_permit ops
       (drop_permit ops (record_budget_in_use w (- int (p_num (seg_local_permit self)))) (seg_global_permit self))
       (seg_local_permit self)"

section \<open>The queue\<close>

datatype EnqueueError = EnqueueCapacity | Budget BudgetError | Closed BudgetedSegment

definition channel_checked :: "nat \<Rightarrow> (nat, 'e) outcome" where
  "channel_checked items = (if items > 0 then Ok items else Panic)"

text \<open>\<open>Iterator::step_by\<close> with a non-zero step\<close>

fun step_by :: "nat \<Rightarrow> 'a list \<Rightarrow> 'a list" where
  "step_by k [] = []"
| "step_by k (x # xs) = x # step_by k (drop (k - 1) xs)"

text \<open>
  \<open>send w seg\<close> is \<open>sender.send(segment).await\<close>: the store after it, and whether the channel took the
  segment. Other tasks run while it waits, so the store may change arbitrarily. The segments the
  channel took are returned too.
\<close>

fun enqueue_loop ::
  "'s sem_ops \<Rightarrow> ('s world \<Rightarrow> BudgetedSegment \<Rightarrow> 's world \<times> bool) \<Rightarrow> ByteBudget \<Rightarrow> bytes \<Rightarrow> 's world \<Rightarrow> nat list \<Rightarrow>
     's world \<times> BudgetedSegment list \<times> (unit, EnqueueError) outcome" where
  "enqueue_loop ops send budget b w [] = (w, [], Ok ())"
| "enqueue_loop ops send budget b w (start # starts) =
     (let end = min (start + bb_capacity budget) (length b) in
      case BudgetedSegment_reserve ops w budget (Prelude.slice b start end) of
        (w1, Err e) \<Rightarrow> (w1, [], Err (Budget e))
      | (w1, Panic) \<Rightarrow> (w1, [], Panic)
      | (w1, Ok segment) \<Rightarrow>
          (case send w1 segment of
             (w2, False) \<Rightarrow> (w2, [], Err (Closed segment))
           | (w2, True) \<Rightarrow> (case enqueue_loop ops send budget b w2 starts of
                 (w3, sent, r) \<Rightarrow> (w3, segment # sent, r))))"

definition enqueue ::
  "'s sem_ops \<Rightarrow> ('s world \<Rightarrow> BudgetedSegment \<Rightarrow> 's world \<times> bool) \<Rightarrow> 's world \<Rightarrow> ByteBudget \<Rightarrow> bytes \<Rightarrow>
     's world \<times> BudgetedSegment list \<times> (unit, EnqueueError) outcome" where
  "enqueue ops send w budget b =
     (if b = [] then (w, [], Ok ())
      else if bb_capacity budget = 0 then (w, [], Panic)
      else enqueue_loop ops send budget b w (step_by (bb_capacity budget) [0..<length b]))"

section \<open>The response body\<close>

datatype 'a poll = Pending | Ready 'a

record BudgetedBody =
  body_in_flight :: "BudgetedSegment option"
  body_ended :: bool

definition BudgetedBody_new :: BudgetedBody where
  "BudgetedBody_new = \<lparr>body_in_flight = None, body_ended = False\<rparr>"

primrec drop_segment_opt :: "'s sem_ops \<Rightarrow> 's world \<Rightarrow> BudgetedSegment option \<Rightarrow> 's world" where
  "drop_segment_opt ops w None = w"
| "drop_segment_opt ops w (Some s) = drop_segment ops w s"

text \<open>\<open>received\<close> is what \<open>self.receiver.poll_recv(cx)\<close> returns.\<close>

definition poll_frame ::
  "'s sem_ops \<Rightarrow> 's world \<Rightarrow> BudgetedBody \<Rightarrow> BudgetedSegment option poll \<Rightarrow>
     's world \<times> BudgetedBody \<times> bytes option poll" where
  "poll_frame ops w self received =
     (if body_ended self then (w, self, Ready None)
      else
        let w1 = drop_segment_opt ops w (body_in_flight self);
            self1 = self\<lparr>body_in_flight := None\<rparr> in
        case received of
          Ready (Some segment) \<Rightarrow>
            (w1, self1\<lparr>body_in_flight := Some segment\<rparr>, Ready (Some (seg_bytes segment)))
        | Ready None \<Rightarrow> (w1, self1\<lparr>body_ended := True\<rparr>, Ready None)
        | Pending \<Rightarrow> (w1, self1, Pending))"

definition is_end_stream :: "BudgetedBody \<Rightarrow> bool" where
  "is_end_stream self = body_ended self"

end
