(* ===== verification/BudgetFlow.thy ===== *)
theory BudgetFlow
  imports BudgetQueue "HOL-Library.Multiset"
begin

text \<open>
  Correctness of the byte budgets. The contract of tokio's semaphore is the locale \<open>semaphore\<close>, in
  which the conservation of permits by every operation is proved once. The streams of the proxy
  (their senders, channels and response bodies) form a transition system whose steps call the
  operations of theory \<open>BudgetQueue\<close>; permits are conserved in every reachable state.
\<close>

section \<open>Conservation\<close>

text \<open>Permits of semaphore \<open>a\<close> among live segments and among other permits.\<close>

definition on_sem :: "nat \<Rightarrow> permit \<Rightarrow> nat" where
  "on_sem a p = (if p_sem p = a then p_num p else 0)"

definition seg_held :: "nat \<Rightarrow> BudgetedSegment \<Rightarrow> nat" where
  "seg_held a s = on_sem a (seg_global_permit s) + on_sem a (seg_local_permit s)"

definition held :: "nat \<Rightarrow> BudgetedSegment multiset \<Rightarrow> permit multiset \<Rightarrow> nat" where
  "held a M P = (\<Sum>s \<in># M. seg_held a s) + (\<Sum>p \<in># P. on_sem a p)"

text \<open>A segment's permits cover its bytes, on semaphores that exist.\<close>

definition seg_wf :: "'s world \<Rightarrow> BudgetedSegment \<Rightarrow> bool" where
  "seg_wf w s \<longleftrightarrow> p_num (seg_local_permit s) = length (seg_bytes s)
     \<and> p_num (seg_global_permit s) = length (seg_bytes s)
     \<and> p_sem (seg_local_permit s) < w_next w \<and> p_sem (seg_global_permit s) < w_next w"

definition conserved :: "'s sem_ops \<Rightarrow> 's world \<Rightarrow> BudgetedSegment multiset \<Rightarrow> permit multiset \<Rightarrow> bool" where
  "conserved ops w M P \<longleftrightarrow>
     (\<forall>a < w_next w. sem_available ops (w_sems w a) + held a M P = w_sizes w a)
     \<and> (\<forall>s \<in># M. seg_wf w s) \<and> (\<forall>p \<in># P. p_sem p < w_next w)
     \<and> w_in_use w = of_nat (\<Sum>s \<in># M. length (seg_bytes s))"

lemma on_sem_simps [simp]:
  "on_sem a \<lparr>p_sem = a, p_num = n\<rparr> = n" "b \<noteq> a \<Longrightarrow> on_sem a \<lparr>p_sem = b, p_num = n\<rparr> = 0"
  by (simp_all add: on_sem_def)

lemma held_add_seg [simp]: "held a (add_mset s M) P = seg_held a s + held a M P"
  by (simp add: held_def)

lemma held_add_permit [simp]: "held a M (add_mset p P) = on_sem a p + held a M P"
  by (simp add: held_def)

locale semaphore =
  fixes ops :: "'s sem_ops"
  assumes new_available [simp]: "sem_available ops (sem_new ops n) = n"
    and acquire_None: "sem_try_acquire_many ops s n = None \<longleftrightarrow> sem_available ops s < n"
    and acquire_Some: "sem_try_acquire_many ops s n = Some s' \<Longrightarrow> sem_available ops s' + n = sem_available ops s"
    and add_available [simp]: "sem_available ops (sem_add_permits ops s n) = sem_available ops s + n"
begin

lemma try_acquire_available:
  "try_acquire_many_owned ops w a n = Some (w', p) \<Longrightarrow>
     p = \<lparr>p_sem = a, p_num = n\<rparr> \<and> w_next w' = w_next w \<and> w_sizes w' = w_sizes w \<and> w_maps w' = w_maps w
     \<and> w_in_use w' = w_in_use w
     \<and> (\<forall>b. sem_available ops (w_sems w' b) + on_sem b p = sem_available ops (w_sems w b))"
  by (auto simp: try_acquire_many_owned_def on_sem_def split: option.splits dest: acquire_Some)

lemma try_acquire_iff:
  "(\<exists>r. try_acquire_many_owned ops w a n = Some r) \<longleftrightarrow> n \<le> sem_available ops (w_sems w a)"
  using acquire_None [of "w_sems w a" n]
  by (auto simp: try_acquire_many_owned_def not_le split: option.splits)

lemma drop_permit_available:
  "sem_available ops (w_sems (drop_permit ops w p) b) = sem_available ops (w_sems w b) + on_sem b p"
  by (simp add: drop_permit_def on_sem_def)

lemma drop_permit_frame [simp]:
  "w_next (drop_permit ops w p) = w_next w" "w_sizes (drop_permit ops w p) = w_sizes w"
  "w_maps (drop_permit ops w p) = w_maps w" "w_in_use (drop_permit ops w p) = w_in_use w"
  by (simp_all add: drop_permit_def)

lemma record_frame [simp]:
  "w_next (record_budget_in_use w d) = w_next w" "w_sizes (record_budget_in_use w d) = w_sizes w"
  "w_maps (record_budget_in_use w d) = w_maps w" "w_sems (record_budget_in_use w d) = w_sems w"
  by (simp_all add: record_budget_in_use_def)

lemma record_in_use:
  "w_in_use (record_budget_in_use w (int n)) = w_in_use w + of_nat n"
  "w_in_use (record_budget_in_use w (- int n)) = w_in_use w - of_nat n"
  by (simp_all add: record_budget_in_use_def)

lemma drop_segment_available:
  "sem_available ops (w_sems (drop_segment ops w s) b) = sem_available ops (w_sems w b) + seg_held b s"
  by (simp add: drop_segment_def drop_permit_available seg_held_def)

lemma drop_segment_frame [simp]:
  "w_next (drop_segment ops w s) = w_next w" "w_sizes (drop_segment ops w s) = w_sizes w"
  "w_maps (drop_segment ops w s) = w_maps w"
  by (simp_all add: drop_segment_def)

lemma drop_segment_conserved:
  assumes "conserved ops w (add_mset s M) P"
  shows "conserved ops (drop_segment ops w s) M P"
  using assms
  by (auto simp: conserved_def drop_segment_available seg_wf_def ac_simps)
     (simp add: drop_segment_def record_in_use)

lemma drop_segments_conserved:
  "conserved ops w (mset ss + M) P \<Longrightarrow> conserved ops (foldl (drop_segment ops) w ss) M P"
  by (induction ss arbitrary: w) (auto intro: drop_segment_conserved)

lemma drop_segments_frame [simp]:
  "w_next (foldl (drop_segment ops) w ss) = w_next w" "w_sizes (foldl (drop_segment ops) w ss) = w_sizes w"
  "w_maps (foldl (drop_segment ops) w ss) = w_maps w"
  by (induction ss arbitrary: w) simp_all

lemma drop_permit_conserved:
  "conserved ops w M (add_mset p P) \<Longrightarrow> conserved ops (drop_permit ops w p) M P"
  by (auto simp: conserved_def drop_permit_available seg_wf_def ac_simps)

lemma acquire_conserved:
  assumes "conserved ops w M P" "a < w_next w" "try_acquire_many_owned ops w a n = Some (w', p)"
  shows "conserved ops w' M (add_mset p P)"
  using assms(1,2) try_acquire_available [OF assms(3)]
  by (auto simp: conserved_def seg_wf_def ac_simps)

lemma tenant_permit_cases:
  obtains (capacity) "tenant_permit ops w b n = Err Capacity" "n = 0 \<or> n > bb_capacity b \<or> n \<ge> 2 ^ 32"
  | (limit) "tenant_permit ops w b n = Err TenantLimitExceeded" "0 < n" "n \<le> bb_capacity b" "n < 2 ^ 32"
      "sem_available ops (w_sems w (bb_semaphore b)) < n"
  | (ok) w' p where "tenant_permit ops w b n = Ok (w', p)" "0 < n" "n \<le> bb_capacity b" "n < 2 ^ 32"
      "n \<le> sem_available ops (w_sems w (bb_semaphore b))"
      "try_acquire_many_owned ops w (bb_semaphore b) n = Some (w', p)"
proof (cases "n = 0 \<or> n > bb_capacity b \<or> n > 2 ^ 32 - 1")
  case True
  then show thesis by (intro capacity) (auto simp: tenant_permit_def)
next
  case False
  then have u: "as_u32 n = n" by (simp add: as_u32_def)
  show thesis
  proof (cases "try_acquire_many_owned ops w (bb_semaphore b) n")
    case None
    then have "\<not> n \<le> sem_available ops (w_sems w (bb_semaphore b))"
      using try_acquire_iff [of w "bb_semaphore b" n] by simp
    then show thesis using False None u by (intro limit) (auto simp: tenant_permit_def)
  next
    case (Some r)
    then have "n \<le> sem_available ops (w_sems w (bb_semaphore b))"
      using try_acquire_iff [of w "bb_semaphore b" n] by simp
    moreover obtain w' p where "r = (w', p)" by (cases r)
    ultimately show thesis using False Some u by (intro ok [of w' p]) (auto simp: tenant_permit_def)
  qed
qed

lemma reserve_cases:
  obtains (capacity) "BudgetedSegment_reserve ops w b x = (w, Err Capacity)"
      "x = [] \<or> length x > bb_capacity b \<or> length x \<ge> 2 ^ 32"
  | (tenant) "BudgetedSegment_reserve ops w b x = (w, Err TenantLimitExceeded)"
      "sem_available ops (w_sems w (bb_semaphore b)) < length x"
  | (global) w1 p where "BudgetedSegment_reserve ops w b x = (drop_permit ops w1 p, Err GlobalLimitExceeded)"
      "try_acquire_many_owned ops w (bb_semaphore b) (length x) = Some (w1, p)"
      "sem_available ops (w_sems w1 (bb_global_memory b)) < length x"
  | (ok) w1 w2 lp gp where "BudgetedSegment_reserve ops w b x
        = (record_budget_in_use w2 (int (length x)),
           Ok \<lparr>seg_bytes = x, seg_global_permit = gp, seg_local_permit = lp\<rparr>)"
      "x \<noteq> []" "length x \<le> bb_capacity b"
      "try_acquire_many_owned ops w (bb_semaphore b) (length x) = Some (w1, lp)"
      "try_acquire_many_owned ops w1 (bb_global_memory b) (length x) = Some (w2, gp)"
      "length x < 2 ^ 32"
proof (cases "x = []")
  case True
  then show thesis by (intro capacity) (auto simp: BudgetedSegment_reserve_def)
next
  case False
  show thesis
  proof (cases rule: tenant_permit_cases [of w b "length x"])
    case capacity
    then show thesis using False by (intro that(1)) (auto simp: BudgetedSegment_reserve_def)
  next
    case limit
    then show thesis using False by (intro that(2)) (auto simp: BudgetedSegment_reserve_def)
  next
    case (ok w1 lp)
    then have u: "as_u32 (length x) = length x" by (simp add: as_u32_def)
    show thesis
    proof (cases "try_acquire_many_owned ops w1 (bb_global_memory b) (length x)")
      case None
      then have "sem_available ops (w_sems w1 (bb_global_memory b)) < length x"
        using try_acquire_iff [of w1 "bb_global_memory b" "length x"] by (simp add: not_le)
      then show thesis using False ok None u by (intro that(3)) (auto simp: BudgetedSegment_reserve_def)
    next
      case (Some r)
      obtain w2 gp where "r = (w2, gp)" by (cases r)
      then show thesis using False ok Some u by (intro that(4)) (auto simp: BudgetedSegment_reserve_def)
    qed
  qed
qed

text \<open>A reservation either takes both permits for exactly the bytes, or takes nothing.\<close>

lemma reserve_Ok:
  assumes "BudgetedSegment_reserve ops w b x = (w', Ok s)"
  shows "seg_bytes s = x \<and> x \<noteq> [] \<and> length x \<le> bb_capacity b
    \<and> seg_local_permit s = \<lparr>p_sem = bb_semaphore b, p_num = length x\<rparr>
    \<and> seg_global_permit s = \<lparr>p_sem = bb_global_memory b, p_num = length x\<rparr>
    \<and> w_next w' = w_next w \<and> w_sizes w' = w_sizes w \<and> w_maps w' = w_maps w
    \<and> w_in_use w' = w_in_use w + of_nat (length x)
    \<and> (\<forall>a. sem_available ops (w_sems w' a) + seg_held a s = sem_available ops (w_sems w a))"
proof (cases rule: reserve_cases [of w b x])
  case (ok w1 w2 lp gp)
  note 1 = try_acquire_available [OF ok(4)] and 2 = try_acquire_available [OF ok(5)]
  have "sem_available ops (w_sems w2 a) + (on_sem a gp + on_sem a lp) = sem_available ops (w_sems w a)" for a
    using 1 2 by (metis (no_types, lifting) add.assoc)
  then show ?thesis using assms ok 1 2 by (auto simp: record_in_use seg_held_def)
qed (use assms in auto)

lemma reserve_Err:
  assumes "BudgetedSegment_reserve ops w b x = (w', Err e)"
  shows "w_next w' = w_next w \<and> w_sizes w' = w_sizes w \<and> w_maps w' = w_maps w \<and> w_in_use w' = w_in_use w
    \<and> (\<forall>a. sem_available ops (w_sems w' a) = sem_available ops (w_sems w a))"
proof (cases rule: reserve_cases [of w b x])
  case (global w1 p)
  then show ?thesis using assms try_acquire_available [OF global(2)]
    by (auto simp: drop_permit_available)
qed (use assms in auto)

lemma reserve_succeeds_iff:
  assumes "bb_semaphore b \<noteq> bb_global_memory b"
  shows "(\<exists>w' s. BudgetedSegment_reserve ops w b x = (w', Ok s)) \<longleftrightarrow>
    x \<noteq> [] \<and> length x \<le> bb_capacity b \<and> length x < 2 ^ 32
    \<and> length x \<le> sem_available ops (w_sems w (bb_semaphore b))
    \<and> length x \<le> sem_available ops (w_sems w (bb_global_memory b))"
proof -
  have other: "sem_available ops (w_sems w1 (bb_global_memory b)) = sem_available ops (w_sems w (bb_global_memory b))"
    if "try_acquire_many_owned ops w (bb_semaphore b) n = Some (w1, p)" for w1 p n
    using try_acquire_available [OF that] assms by (metis on_sem_simps(2) add_0_right)
  show ?thesis
  proof (cases rule: reserve_cases [of w b x])
    case (global w1 p)
    then show ?thesis using other [OF global(2)] by auto
  next
    case (ok w1 w2 lp gp)
    then show ?thesis using other [OF ok(4)] try_acquire_iff [of w "bb_semaphore b" "length x"]
        try_acquire_iff [of w1 "bb_global_memory b" "length x"] by auto
  qed auto
qed

lemma reserve_not_Panic: "BudgetedSegment_reserve ops w b x \<noteq> (w', Panic)"
  by (cases rule: reserve_cases [of w b x]) auto

lemma reserve_Ok_conserved:
  assumes "conserved ops w M P" "BudgetedSegment_reserve ops w b x = (w', Ok s)"
    and "bb_semaphore b < w_next w" "bb_global_memory b < w_next w"
  shows "conserved ops w' (add_mset s M) P"
proof -
  note r = reserve_Ok [OF assms(2)]
  have "sem_available ops (w_sems w' a) + held a (add_mset s M) P = w_sizes w a" if "a < w_next w" for a
  proof -
    have "sem_available ops (w_sems w' a) + seg_held a s = sem_available ops (w_sems w a)" using r by blast
    then show ?thesis using that assms(1) by (simp add: conserved_def flip: add.assoc)
  qed
  then show ?thesis using assms(1,3,4) r by (auto simp: conserved_def seg_wf_def)
qed

lemma reserve_Err_conserved:
  assumes "conserved ops w M P" "BudgetedSegment_reserve ops w b x = (w', Err e)"
  shows "conserved ops w' M P"
  using assms(1) reserve_Err [OF assms(2)] by (auto simp: conserved_def seg_wf_def)

lemma alloc_sem_conserved:
  assumes "conserved ops w M P" "alloc_sem ops w n = (w', a)"
  shows "conserved ops w' M P"
proof -
  have w': "w' = w\<lparr>w_sems := (w_sems w)(w_next w := sem_new ops n), w_sizes := (w_sizes w)(w_next w := n),
      w_next := Suc (w_next w)\<rparr>" using assms(2) by (auto simp: alloc_sem_def)
  have "seg_held (w_next w) s = 0" if "s \<in># M" for s
    using that assms(1) by (auto simp: conserved_def seg_wf_def seg_held_def on_sem_def)
  moreover have "on_sem (w_next w) p = 0" if "p \<in># P" for p
    using that assms(1) by (auto simp: conserved_def on_sem_def)
  ultimately have "held (w_next w) M P = 0" by (simp add: held_def)
  then show ?thesis using assms(1) by (auto simp: conserved_def w' seg_wf_def less_Suc_eq)
qed

end

section \<open>The streams\<close>

text \<open>
  One response stream: its budget, the channel (\<open>st_items\<close> slots), the segment the sender is waiting
  to send, the response body (\<open>None\<close> once the client side is dropped), whether the stream task still
  runs, and the memory permit that task holds.
\<close>

record stream =
  st_budget :: ByteBudget
  st_items :: nat
  st_queue :: "BudgetedSegment list"
  st_sending :: "BudgetedSegment option"
  st_body :: "BudgetedBody option"
  st_running :: bool
  st_memory :: "permit option"

record 's proxy =
  px_world :: "'s world"
  px_global :: nat
  px_map :: nat
  px_streams :: "stream list"

text \<open>What the receiver finds when it is polled.\<close>

definition poll_recv :: "stream \<Rightarrow> BudgetedSegment option poll" where
  "poll_recv st = (case st_queue st of
     s # _ \<Rightarrow> Ready (Some s) | [] \<Rightarrow> if st_running st then Pending else Ready None)"

definition set_stream :: "'s proxy \<Rightarrow> nat \<Rightarrow> 's world \<Rightarrow> stream \<Rightarrow> 's proxy" where
  "set_stream px i w st = px\<lparr>px_world := w, px_streams := (px_streams px)[i := st]\<rparr>"

text \<open>\<open>tenant_budgets.clear()\<close>, which a reload of the keyring does\<close>

definition clear_tenants :: "'s proxy \<Rightarrow> 's proxy" where
  "clear_tenants px =
     px\<lparr>px_world := (px_world px)\<lparr>w_maps := (w_maps (px_world px))(px_map px := (\<lambda>_. None))\<rparr>\<rparr>"

text \<open>
  The steps: a request opens a stream; its task reserves a slice of its output and sends it (waiting
  for a slot, finding the channel closed, or giving up after the timeout); the server polls the body
  or drops it; the task ends; a reload of the keyring clears the tenant map.
\<close>

inductive step :: "'s sem_ops \<Rightarrow> 's proxy \<Rightarrow> 's proxy \<Rightarrow> bool" for ops where
  open_stream:
    "\<lbrakk> try_acquire_many_owned ops (px_world px) (px_global px) GLOBAL_MEMORY_CHUNK = Some (w1, p);
       with_tenant ops w1 tenant (px_map px) (px_global px) cap = (Ok (w2, budget) :: (_, unit) outcome);
       channel_checked items = (Ok n :: (_, unit) outcome) \<rbrakk>
     \<Longrightarrow> step ops px (px\<lparr>px_world := w2, px_streams := px_streams px @
           [\<lparr>st_budget = budget, st_items = n, st_queue = [], st_sending = None,
             st_body = Some BudgetedBody_new, st_running = True, st_memory = Some p\<rparr>]\<rparr>)"
| reserve_ok:
    "\<lbrakk> i < length (px_streams px); st = px_streams px ! i; st_running st; st_sending st = None;
       BudgetedSegment_reserve ops (px_world px) (st_budget st) x = (w, Ok seg) \<rbrakk>
     \<Longrightarrow> step ops px (set_stream px i w (st\<lparr>st_sending := Some seg\<rparr>))"
| reserve_err:
    "\<lbrakk> i < length (px_streams px); st = px_streams px ! i; st_running st; st_sending st = None;
       BudgetedSegment_reserve ops (px_world px) (st_budget st) x = (w, Err e) \<rbrakk>
     \<Longrightarrow> step ops px (set_stream px i w st)"
| send:
    "\<lbrakk> i < length (px_streams px); st = px_streams px ! i; st_sending st = Some seg; st_body st \<noteq> None;
       length (st_queue st) < st_items st \<rbrakk>
     \<Longrightarrow> step ops px (set_stream px i (px_world px)
           (st\<lparr>st_queue := st_queue st @ [seg], st_sending := None\<rparr>))"
| send_fails:
    "\<lbrakk> i < length (px_streams px); st = px_streams px ! i; st_sending st = Some seg \<rbrakk>
     \<Longrightarrow> step ops px (set_stream px i (drop_segment ops (px_world px) seg) (st\<lparr>st_sending := None\<rparr>))"
| poll:
    "\<lbrakk> i < length (px_streams px); st = px_streams px ! i; st_body st = Some body;
       poll_frame ops (px_world px) body (poll_recv st) = (w, body', frame) \<rbrakk>
     \<Longrightarrow> step ops px (set_stream px i w (st\<lparr>st_body := Some body',
           st_queue := (if body_ended body then st_queue st else tl (st_queue st))\<rparr>))"
| drop_body:
    "\<lbrakk> i < length (px_streams px); st = px_streams px ! i; st_body st = Some body \<rbrakk>
     \<Longrightarrow> step ops px (set_stream px i
           (foldl (drop_segment ops) (drop_segment_opt ops (px_world px) (body_in_flight body)) (st_queue st))
           (st\<lparr>st_body := None, st_queue := []\<rparr>))"
| task_ends:
    "\<lbrakk> i < length (px_streams px); st = px_streams px ! i; st_running st; st_sending st = None;
       st_memory st = Some p \<rbrakk>
     \<Longrightarrow> step ops px (set_stream px i (drop_permit ops (px_world px) p)
           (st\<lparr>st_running := False, st_memory := None\<rparr>))"
| reload_keyring:
    "step ops px (clear_tenants px)"

text \<open>The start: one global semaphore and an empty tenant map.\<close>

definition initial :: "'s sem_ops \<Rightarrow> 's \<Rightarrow> nat \<Rightarrow> 's proxy" where
  "initial ops s0 global_budget =
     \<lparr>px_world = \<lparr>w_sems = (\<lambda>_. s0)(0 := sem_new ops global_budget), w_sizes = (\<lambda>_. 0)(0 := global_budget),
        w_maps = (\<lambda>_ _. None), w_next = 1, w_next_map = 1, w_in_use = 0\<rparr>,
      px_global = 0, px_map = 0, px_streams = []\<rparr>"

inductive reachable :: "'s sem_ops \<Rightarrow> 's \<Rightarrow> nat \<Rightarrow> 's proxy \<Rightarrow> bool" for ops s0 n where
  start: "reachable ops s0 n (initial ops s0 n)"
| more: "reachable ops s0 n px \<Longrightarrow> step ops px px' \<Longrightarrow> reachable ops s0 n px'"

section \<open>What is live\<close>

primrec opt_mset :: "'a option \<Rightarrow> 'a multiset" where
  "opt_mset None = {#}"
| "opt_mset (Some x) = {#x#}"

definition body_segs :: "BudgetedBody option \<Rightarrow> BudgetedSegment multiset" where
  "body_segs b = (case b of None \<Rightarrow> {#} | Some body \<Rightarrow> opt_mset (body_in_flight body))"

definition stream_segs :: "stream \<Rightarrow> BudgetedSegment multiset" where
  "stream_segs st = mset (st_queue st) + opt_mset (st_sending st) + body_segs (st_body st)"

definition live_segs :: "stream list \<Rightarrow> BudgetedSegment multiset" where
  "live_segs sts = sum_list (map stream_segs sts)"

definition live_permits :: "stream list \<Rightarrow> permit multiset" where
  "live_permits sts = sum_list (map (opt_mset \<circ> st_memory) sts)"

lemma sum_list_at:
  fixes f :: "'a \<Rightarrow> 'b::comm_monoid_add"
  assumes "i < length xs"
  shows "\<exists>r. sum_list (map f xs) = f (xs ! i) + r \<and> (\<forall>y. sum_list (map f (xs[i := y])) = f y + r)"
proof -
  let ?r = "sum_list (map f (take i xs)) + sum_list (map f (drop (Suc i) xs))"
  have "sum_list (map f xs) = f (xs ! i) + ?r"
    by (subst id_take_nth_drop [OF assms]) (simp add: ac_simps)
  moreover have "sum_list (map f (xs[i := y])) = f y + ?r" for y
    using assms by (simp add: upd_conv_take_nth_drop ac_simps)
  ultimately show ?thesis by blast
qed

text \<open>The invariant: permits are conserved, and all addresses the streams use exist.\<close>

definition px_inv :: "'s sem_ops \<Rightarrow> 's proxy \<Rightarrow> bool" where
  "px_inv ops px \<longleftrightarrow>
     conserved ops (px_world px) (live_segs (px_streams px)) (live_permits (px_streams px))
     \<and> px_global px < w_next (px_world px)
     \<and> (\<forall>st \<in> set (px_streams px). bb_semaphore (st_budget st) < w_next (px_world px)
           \<and> bb_global_memory (st_budget st) = px_global px \<and> bb_semaphore (st_budget st) \<noteq> px_global px
           \<and> w_sizes (px_world px) (bb_semaphore (st_budget st)) = TENANT_MEMORY_BUDGET)
     \<and> (\<forall>t a. w_maps (px_world px) (px_map px) t = Some a \<longrightarrow>
           a < w_next (px_world px) \<and> a \<noteq> px_global px \<and> w_sizes (px_world px) a = TENANT_MEMORY_BUDGET
           \<and> (\<forall>t'. w_maps (px_world px) (px_map px) t' = Some a \<longrightarrow> t' = t))"

context semaphore
begin

lemma set_stream_inv:
  assumes inv: "px_inv ops px" and i: "i < length (px_streams px)" and st: "st = px_streams px ! i"
    and b: "st_budget st' = st_budget st"
    and fr: "w_next w' = w_next (px_world px)" "w_sizes w' = w_sizes (px_world px)" "w_maps w' = w_maps (px_world px)"
    and c: "\<And>R Q. conserved ops (px_world px) (stream_segs st + R) (opt_mset (st_memory st) + Q)
              \<Longrightarrow> conserved ops w' (stream_segs st' + R) (opt_mset (st_memory st') + Q)"
  shows "px_inv ops (set_stream px i w' st')"
proof -
  let ?sts = "px_streams px"
  from sum_list_at [OF i, of stream_segs] obtain R where
    R: "live_segs ?sts = stream_segs st + R" "\<And>y. live_segs (?sts[i := y]) = stream_segs y + R"
    unfolding live_segs_def st by blast
  from sum_list_at [OF i, of "opt_mset \<circ> st_memory"] obtain Q where
    Q: "live_permits ?sts = opt_mset (st_memory st) + Q" "\<And>y. live_permits (?sts[i := y]) = opt_mset (st_memory y) + Q"
    unfolding live_permits_def st comp_def by blast
  have "conserved ops w' (live_segs (?sts[i := st'])) (live_permits (?sts[i := st']))"
    using inv c [of R Q] by (simp add: px_inv_def R Q)
  moreover have "\<exists>x \<in> set ?sts. st_budget y = st_budget x" if "y \<in> set (?sts[i := st'])" for y
  proof -
    from set_update_subset_insert [of ?sts i st'] that have "y = st' \<or> y \<in> set ?sts" by blast
    then show ?thesis using b st nth_mem [OF i] by metis
  qed
  ultimately show ?thesis using inv fr unfolding px_inv_def set_stream_def by fastforce
qed

lemma with_tenant_inv:
  assumes r: "with_tenant ops w t m g cap = (Ok (w', b) :: (_, 'e) outcome)"
  shows "bb_global_memory b = g \<and> bb_capacity b = cap \<and> 0 < cap \<and> w_maps w' m t = Some (bb_semaphore b)
    \<and> (case w_maps w m t of Some a \<Rightarrow> w' = w \<and> bb_semaphore b = a
       | None \<Rightarrow> bb_semaphore b = w_next w
           \<and> w' = (fst (alloc_sem ops w TENANT_MEMORY_BUDGET))
                \<lparr>w_maps := (w_maps w)(m := (w_maps w m)(t := Some (w_next w)))\<rparr>)"
  using r by (cases "w_maps w m t") (auto simp: with_tenant_def alloc_sem_def Let_def split: if_splits)

lemma conserved_maps [simp]: "conserved ops (w\<lparr>w_maps := m\<rparr>) M P = conserved ops w M P"
  by (simp add: conserved_def seg_wf_def)

lemma open_stream_inv:
  assumes inv: "px_inv ops px"
    and acq: "try_acquire_many_owned ops (px_world px) (px_global px) n = Some (w1, p)"
    and wt: "with_tenant ops w1 tenant (px_map px) (px_global px) cap = (Ok (w2, budget) :: (_, unit) outcome)"
  shows "px_inv ops (px\<lparr>px_world := w2, px_streams := px_streams px @
           [\<lparr>st_budget = budget, st_items = k, st_queue = [], st_sending = None,
             st_body = Some BudgetedBody_new, st_running = True, st_memory = Some p\<rparr>]\<rparr>)"
proof -
  let ?M = "live_segs (px_streams px)" and ?P = "live_permits (px_streams px)"
  have g: "px_global px < w_next (px_world px)" using inv by (simp add: px_inv_def)
  have c1: "conserved ops w1 ?M (add_mset p ?P)"
    using acquire_conserved [OF _ g acq] inv by (simp add: px_inv_def)
  note a = try_acquire_available [OF acq] and t = with_tenant_inv [OF wt]
  have live: "live_segs (px_streams px @ [\<lparr>st_budget = budget, st_items = k, st_queue = [], st_sending = None,
             st_body = Some BudgetedBody_new, st_running = True, st_memory = Some q\<rparr>]) = ?M"
    "live_permits (px_streams px @ [\<lparr>st_budget = budget, st_items = k, st_queue = [], st_sending = None,
             st_body = Some BudgetedBody_new, st_running = True, st_memory = Some q\<rparr>]) = add_mset q ?P" for q
    by (simp_all add: live_segs_def live_permits_def stream_segs_def body_segs_def BudgetedBody_new_def)
  show ?thesis
  proof (cases "w_maps w1 (px_map px) tenant")
    case (Some s)
    then show ?thesis using inv a t c1 by (auto simp: px_inv_def live)
  next
    case None
    obtain w3 s where al: "alloc_sem ops w1 TENANT_MEMORY_BUDGET = (w3, s)" by fastforce
    have "conserved ops w2 ?M (add_mset p ?P)"
      using alloc_sem_conserved [OF c1 al] t None al by simp
    then show ?thesis using inv a t None
      by (auto simp: px_inv_def live alloc_sem_def less_Suc_eq)
  qed
qed

lemma drop_segment_opt_conserved:
  "conserved ops w (opt_mset x + M) P \<Longrightarrow> conserved ops (drop_segment_opt ops w x) M P"
  by (cases x) (auto intro: drop_segment_conserved)

lemma drop_segment_opt_frame [simp]:
  "w_next (drop_segment_opt ops w x) = w_next w" "w_sizes (drop_segment_opt ops w x) = w_sizes w"
  "w_maps (drop_segment_opt ops w x) = w_maps w"
  by (cases x; simp)+

lemma poll_frame_frame:
  "poll_frame ops w0 body r = (w, body', frame) \<Longrightarrow>
     w_next w = w_next w0 \<and> w_sizes w = w_sizes w0 \<and> w_maps w = w_maps w0"
  by (auto simp: poll_frame_def Let_def split: if_splits poll.splits option.splits)

lemma poll_conserved:
  assumes "st_body st = Some body" and "poll_frame ops w0 body (poll_recv st) = (w, body', frame)"
    and c: "conserved ops w0 (stream_segs st + R) Q"
  shows "conserved ops w (stream_segs (st\<lparr>st_body := Some body',
           st_queue := (if body_ended body then st_queue st else tl (st_queue st))\<rparr>) + R) Q"
proof (cases "body_ended body")
  case True
  then show ?thesis using assms by (auto simp: poll_frame_def stream_segs_def)
next
  case False
  have "conserved ops w0 (opt_mset (body_in_flight body) + (mset (st_queue st) + opt_mset (st_sending st) + R)) Q"
    using c assms(1) by (simp add: stream_segs_def body_segs_def ac_simps)
  from drop_segment_opt_conserved [OF this] False assms(2) show ?thesis
    by (cases "st_queue st")
       (auto simp: poll_frame_def poll_recv_def stream_segs_def body_segs_def Let_def ac_simps
         split: if_splits)
qed

lemma step_inv: "step ops px px' \<Longrightarrow> px_inv ops px \<Longrightarrow> px_inv ops px'"
proof (induction rule: step.induct)
  case (open_stream px w1 p tenant cap w2 budget items n)
  then show ?case by (intro open_stream_inv)
next
  case (reserve_ok i px st x w seg)
  have "bb_semaphore (st_budget st) < w_next (px_world px)" "bb_global_memory (st_budget st) < w_next (px_world px)"
    using reserve_ok nth_mem [of i "px_streams px"] by (auto simp: px_inv_def)
  then show ?case using reserve_ok reserve_Ok [OF reserve_ok(5)] reserve_Ok_conserved [OF _ reserve_ok(5)]
    by (intro set_stream_inv [where st = st]) (auto simp: stream_segs_def)
next
  case (reserve_err i px st x w e)
  then show ?case using reserve_Err [OF reserve_err(5)] reserve_Err_conserved [OF _ reserve_err(5)]
    by (intro set_stream_inv [where st = st]) auto
next
  case (send i px st seg)
  then show ?case by (intro set_stream_inv [where st = st]) (auto simp: stream_segs_def ac_simps)
next
  case (send_fails i px st seg)
  then show ?case
    by (intro set_stream_inv [where st = st]) (auto simp: stream_segs_def intro: drop_segment_conserved)
next
  case (poll i px st body w body' frame)
  then show ?case using poll_frame_frame [OF poll(4)] poll_conserved [OF poll(3,4)]
    by (intro set_stream_inv [where st = st]) auto
next
  case (drop_body i px st body)
  then show ?case
    by (intro set_stream_inv [where st = st])
       (auto simp: stream_segs_def body_segs_def ac_simps
         intro!: drop_segments_conserved drop_segment_opt_conserved)
next
  case (task_ends i px st p)
  then show ?case
    by (intro set_stream_inv [where st = st]) (auto simp: stream_segs_def intro: drop_permit_conserved)
next
  case (reload_keyring px)
  then show ?case by (auto simp: px_inv_def clear_tenants_def)
qed

end

section \<open>Slicing\<close>

lemma step_by_upt:
  "0 < k \<Longrightarrow> i < n \<Longrightarrow> step_by k [i..<n] = i # step_by k [i + k..<n]"
  by (simp add: upt_conv_Cons drop_upt)

lemma reserve_Ok_bytes: "BudgetedSegment_reserve ops w b x = (w', Ok s) \<Longrightarrow> seg_bytes s = x"
  by (auto simp: BudgetedSegment_reserve_def split: if_splits outcome.splits option.splits)

lemma tenant_permit_not_Panic: "tenant_permit ops w b n \<noteq> Panic"
  by (auto simp: tenant_permit_def split: option.splits)

lemma reserve_never_Panic: "BudgetedSegment_reserve ops w b x \<noteq> (w', Panic)"
  by (auto simp: BudgetedSegment_reserve_def tenant_permit_not_Panic split: if_splits outcome.splits option.splits)

lemma enqueue_loop_slices:
  assumes k: "0 < bb_capacity budget"
  shows "enqueue_loop ops snd_fn budget b w (step_by (bb_capacity budget) [i..<length b]) = (w', sent, r) \<Longrightarrow>
    prefix (concat (map seg_bytes sent)) (drop i b)
    \<and> (\<forall>s \<in> set sent. seg_bytes s \<noteq> [] \<and> length (seg_bytes s) \<le> bb_capacity budget)
    \<and> (r = Ok () \<longrightarrow> concat (map seg_bytes sent) = drop i b) \<and> r \<noteq> Panic"
proof (induction "length b - i" arbitrary: i w w' sent r rule: less_induct)
  case less
  let ?k = "bb_capacity budget"
  show ?case
  proof (cases "i < length b")
    case False
    then show ?thesis using less.prems by auto
  next
    case True
    let ?x = "Prelude.slice b i (min (i + ?k) (length b))"
    have x: "?x \<noteq> []" "length ?x \<le> ?k" "?x @ drop (i + ?k) b = drop i b"
      using True k by (auto simp: Prelude.slice_def min_def)
        (metis append_take_drop_id drop_drop add.commute)
    note run = less.prems [unfolded step_by_upt [OF k True] enqueue_loop.simps Let_def]
    obtain w1 res where r1: "BudgetedSegment_reserve ops w budget ?x = (w1, res)" by fastforce
    show ?thesis
    proof (cases res)
      case (Ok seg)
      have sb: "seg_bytes seg = ?x" using reserve_Ok_bytes r1 Ok by blast
      obtain w2 sent_ok where s2: "snd_fn w1 seg = (w2, sent_ok)" by fastforce
      show ?thesis
      proof (cases sent_ok)
        case True
        obtain w3 sent' r' where l: "enqueue_loop ops snd_fn budget b w2 (step_by ?k [i + ?k..<length b]) = (w3, sent', r')"
          by (metis prod_cases3)
        then have "w' = w3" "sent = seg # sent'" "r = r'" using run r1 Ok s2 True by auto
        moreover have "length b - (i + ?k) < length b - i" using \<open>i < length b\<close> k by simp
        ultimately show ?thesis using less.hyps [OF _ l] sb x
          by (metis (no_types, lifting) concat.simps(2) list.simps(9) same_prefix_prefix set_ConsD)
      qed (use run r1 Ok s2 in auto)
    qed (use run r1 reserve_never_Panic [of ops w budget ?x w1] in auto)
  qed
qed

section \<open>Reachable states\<close>

definition on_global :: "'s proxy \<Rightarrow> bool" where
  "on_global px \<longleftrightarrow> (\<forall>s \<in># live_segs (px_streams px). p_sem (seg_global_permit s) = px_global px)"

lemma live_segs_at:
  "i < length sts \<Longrightarrow> \<exists>R. live_segs sts = stream_segs (sts ! i) + R \<and> (\<forall>y. live_segs (sts[i := y]) = stream_segs y + R)"
  using sum_list_at [of i sts stream_segs] by (simp add: live_segs_def)

lemma set_stream_on_global:
  assumes "on_global px" "i < length (px_streams px)" "st = px_streams px ! i"
    and "\<forall>s \<in># stream_segs st'. s \<in># stream_segs st \<or> p_sem (seg_global_permit s) = px_global px"
  shows "on_global (set_stream px i w st')"
proof -
  from live_segs_at [OF assms(2)] obtain R where
    "live_segs (px_streams px) = stream_segs st + R" "live_segs ((px_streams px)[i := st']) = stream_segs st' + R"
    unfolding assms(3) by blast
  then show ?thesis using assms(1,4) by (auto simp: on_global_def set_stream_def)
qed

context semaphore
begin

lemma step_on_global: "step ops px px' \<Longrightarrow> px_inv ops px \<Longrightarrow> on_global px \<Longrightarrow> on_global px'"
proof (induction rule: step.induct)
  case (open_stream px w1 p tenant cap w2 budget items n)
  then show ?case
    by (simp add: on_global_def live_segs_def stream_segs_def body_segs_def BudgetedBody_new_def)
next
  case (reserve_ok i px st x w seg)
  then have "bb_global_memory (st_budget st) = px_global px"
    using nth_mem [of i "px_streams px"] by (auto simp: px_inv_def)
  then show ?case using reserve_ok reserve_Ok [OF reserve_ok(5)]
    by (intro set_stream_on_global [where st = st]) (auto simp: stream_segs_def)
next
  case (poll i px st body w body' frame)
  then show ?case
    by (intro set_stream_on_global [where st = st])
       (auto simp: stream_segs_def body_segs_def poll_frame_def poll_recv_def Let_def
         split: if_splits list.splits)
next
  case (reload_keyring px)
  then show ?case by (simp add: on_global_def clear_tenants_def)
qed (intro set_stream_on_global; auto simp: stream_segs_def body_segs_def)+

lemma initial_inv: "px_inv ops (initial ops s0 n) \<and> on_global (initial ops s0 n)"
  by (simp add: px_inv_def on_global_def initial_def conserved_def live_segs_def live_permits_def held_def)

lemma reachable_inv: "reachable ops s0 n px \<Longrightarrow> px_inv ops px \<and> on_global px"
  by (induction rule: reachable.induct) (use initial_inv step_inv step_on_global in blast)+

lemma step_global: "step ops px px' \<Longrightarrow> px_global px' = px_global px
    \<and> (px_inv ops px \<longrightarrow> w_sizes (px_world px') (px_global px) = w_sizes (px_world px) (px_global px))"
proof (induction rule: step.induct)
  case (open_stream px w1 p tenant cap w2 budget items n)
  then show ?case using try_acquire_available [OF open_stream(1)] with_tenant_inv [OF open_stream(2)]
    by (auto simp: px_inv_def alloc_sem_def split: option.splits)
next
  case (reserve_ok i px st x w seg)
  then show ?case using reserve_Ok [OF reserve_ok(5)] by (simp add: set_stream_def)
next
  case (reserve_err i px st x w e)
  then show ?case using reserve_Err [OF reserve_err(5)] by (simp add: set_stream_def)
next
  case (poll i px st body w body' frame)
  then show ?case using poll_frame_frame [OF poll(4)] by (simp add: set_stream_def)
qed (simp_all add: set_stream_def clear_tenants_def)

lemma reachable_global: "reachable ops s0 n px \<Longrightarrow> w_sizes (px_world px) (px_global px) = n"
proof (induction rule: reachable.induct)
  case start
  then show ?case by (simp add: initial_def)
next
  case (more px px')
  then show ?case using step_global [OF more(2)] reachable_inv [OF more(1)] by simp
qed

end

section \<open>The properties of the byte budgets\<close>

definition queued_bytes :: "BudgetedSegment multiset \<Rightarrow> nat" where
  "queued_bytes M = (\<Sum>s \<in># M. length (seg_bytes s))"

definition bytes_on :: "nat \<Rightarrow> BudgetedSegment multiset \<Rightarrow> nat" where
  "bytes_on a M = (\<Sum>s \<in># M. if p_sem (seg_local_permit s) = a then length (seg_bytes s) else 0)"

lemma sum_mset_le: "(\<And>x. x \<in># M \<Longrightarrow> f x \<le> (g x :: nat)) \<Longrightarrow> (\<Sum>x \<in># M. f x) \<le> (\<Sum>x \<in># M. g x)"
proof (induction M)
  case (add x M)
  then show ?case by (auto intro: add_mono)
qed simp

lemma bytes_on_le_held: "\<forall>s \<in># M. seg_wf w s \<Longrightarrow> bytes_on a M \<le> held a M P"
  unfolding bytes_on_def held_def
  by (rule trans_le_add1, rule sum_mset_le) (auto simp: seg_wf_def seg_held_def on_sem_def)

lemma queued_bytes_le_held:
  "\<forall>s \<in># M. seg_wf w s \<and> p_sem (seg_global_permit s) = g \<Longrightarrow> queued_bytes M \<le> held g M P"
  unfolding queued_bytes_def held_def
  by (rule trans_le_add1, rule sum_mset_le) (auto simp: seg_wf_def seg_held_def on_sem_def)

text \<open>
  C6: Permits are conserved: in every reachable state of the proxy, for every semaphore, the
  available permits and the permits held by queued, in-flight and waiting segments and by running
  streams add up to the size it was made with; and the usage counter is the number of bytes held
  (modulo its width).
\<close>
theorem permits_conserved:
  assumes "semaphore ops" and "reachable ops s0 n px"
  shows "(\<forall>a < w_next (px_world px).
       sem_available ops (w_sems (px_world px) a) + held a (live_segs (px_streams px)) (live_permits (px_streams px))
       = w_sizes (px_world px) a)
     \<and> byte_budget_in_use (px_world px) = of_nat (queued_bytes (live_segs (px_streams px)))"
  using semaphore.reachable_inv [OF assms]
  by (simp add: px_inv_def conserved_def byte_budget_in_use_def queued_bytes_def)

text \<open>
  C26: Memory is bounded: in every reachable state the bytes of all streams together never exceed
  the global budget, and the bytes charged to one tenant semaphore never exceed the tenant budget of
  16 MiB.
\<close>
theorem queued_bytes_bounded:
  assumes "semaphore ops" and "reachable ops s0 n px"
  shows "queued_bytes (live_segs (px_streams px)) \<le> n
     \<and> (\<forall>st \<in> set (px_streams px).
          bytes_on (bb_semaphore (st_budget st)) (live_segs (px_streams px)) \<le> TENANT_MEMORY_BUDGET)"
proof -
  let ?M = "live_segs (px_streams px)" and ?P = "live_permits (px_streams px)" and ?w = "px_world px"
  have inv: "px_inv ops px" and og: "on_global px" using semaphore.reachable_inv [OF assms] by auto
  have bal: "sem_available ops (w_sems ?w a) + held a ?M ?P = w_sizes ?w a" if "a < w_next ?w" for a
    using inv that by (simp add: px_inv_def conserved_def)
  have wf: "\<forall>s \<in># ?M. seg_wf ?w s" using inv by (simp add: px_inv_def conserved_def)
  have "queued_bytes ?M \<le> held (px_global px) ?M ?P"
    by (rule queued_bytes_le_held) (use wf og in \<open>auto simp: on_global_def\<close>)
  also have "\<dots> \<le> n"
    using bal [of "px_global px"] inv semaphore.reachable_global [OF assms] by (simp add: px_inv_def)
  finally have "queued_bytes ?M \<le> n" .
  moreover have "bytes_on (bb_semaphore (st_budget st)) ?M \<le> TENANT_MEMORY_BUDGET"
    if st: "st \<in> set (px_streams px)" for st
  proof -
    let ?a = "bb_semaphore (st_budget st)"
    have a: "?a < w_next ?w" "w_sizes ?w ?a = TENANT_MEMORY_BUDGET" using inv st by (auto simp: px_inv_def)
    from bytes_on_le_held [OF wf, of ?a ?P] bal [OF a(1)] a(2) show ?thesis by linarith
  qed
  ultimately show ?thesis by blast
qed

text \<open>
  No leak: once no stream queues, sends or transmits a segment and every task has ended, every
  semaphore is back at its full size and the usage counter is zero.
\<close>
lemma idle_proxy_has_full_budget:
  assumes "semaphore ops" and "reachable ops s0 n px"
    and "\<forall>st \<in> set (px_streams px). st_queue st = [] \<and> st_sending st = None \<and> st_memory st = None
           \<and> (\<forall>body. st_body st = Some body \<longrightarrow> body_in_flight body = None)"
  shows "(\<forall>a < w_next (px_world px). sem_available ops (w_sems (px_world px) a) = w_sizes (px_world px) a)
     \<and> byte_budget_in_use (px_world px) = 0"
proof -
  have z: "stream_segs st = {#} \<and> opt_mset (st_memory st) = {#}" if "st \<in> set (px_streams px)" for st
    using assms(3) that by (cases "st_body st") (auto simp: stream_segs_def body_segs_def)
  then have "live_segs (px_streams px) = {#}" "live_permits (px_streams px) = {#}"
    by (simp_all add: live_segs_def live_permits_def sum_list_0 cong: map_cong)
  then show ?thesis using semaphore.reachable_inv [OF assms(1,2)]
    by (simp add: px_inv_def conserved_def held_def byte_budget_in_use_def)
qed

text \<open>
  A reservation is all or nothing: it succeeds exactly when the segment is non-empty, fits the
  budget's capacity and both semaphores have its length available, and then takes exactly its length
  from each; every error leaves all semaphores and the counter as they were.
\<close>
lemma reserve_all_or_nothing:
  assumes "semaphore ops" and "bb_semaphore b \<noteq> bb_global_memory b"
    and "BudgetedSegment_reserve ops w b x = (w', r)"
  shows "((\<exists>s. r = Ok s) \<longleftrightarrow> x \<noteq> [] \<and> length x \<le> bb_capacity b \<and> length x < 2 ^ 32
            \<and> length x \<le> sem_available ops (w_sems w (bb_semaphore b))
            \<and> length x \<le> sem_available ops (w_sems w (bb_global_memory b)))
    \<and> (\<forall>s. r = Ok s \<longrightarrow> seg_bytes s = x
         \<and> sem_available ops (w_sems w' (bb_semaphore b)) + length x = sem_available ops (w_sems w (bb_semaphore b))
         \<and> sem_available ops (w_sems w' (bb_global_memory b)) + length x
             = sem_available ops (w_sems w (bb_global_memory b)))
    \<and> (\<forall>e. r = Err e \<longrightarrow> w_in_use w' = w_in_use w
         \<and> (\<forall>a. sem_available ops (w_sems w' a) = sem_available ops (w_sems w a)))
    \<and> r \<noteq> Panic"
proof -
  note sem = assms(1)
  have held: "seg_held (bb_semaphore b) s = length x \<and> seg_held (bb_global_memory b) s = length x" if "r = Ok s" for s
    using semaphore.reserve_Ok [OF sem assms(3) [unfolded that]] assms(2) by (simp add: seg_held_def)
  show ?thesis
    using semaphore.reserve_succeeds_iff [OF sem assms(2), of w x] assms(3)
      semaphore.reserve_Ok [OF sem, of w b x w'] semaphore.reserve_Err [OF sem, of w b x w']
      semaphore.reserve_not_Panic [OF sem, of w b x w'] held
    by (intro conjI) (auto, metis+)
qed

text \<open>
  C27: Tenants are isolated: in a reachable state two tenants of the map never share a semaphore,
  and what a stream of one tenant reserves, whether it succeeds or not, leaves the other tenant's
  available bytes unchanged.
\<close>
theorem tenants_isolated:
  assumes "semaphore ops" and "reachable ops s0 n px"
    and "w_maps (px_world px) (px_map px) t1 = Some a1" and "w_maps (px_world px) (px_map px) t2 = Some a2"
    and "t1 \<noteq> t2" and "bb_semaphore b = a1" and "bb_global_memory b = px_global px"
    and "BudgetedSegment_reserve ops (px_world px) b x = (w', r)"
  shows "a1 \<noteq> a2 \<and> sem_available ops (w_sems w' a2) = sem_available ops (w_sems (px_world px) a2)"
proof -
  note sem = assms(1)
  have inv: "px_inv ops px" using semaphore.reachable_inv [OF assms(1,2)] by simp
  have ne: "a1 \<noteq> a2" "a2 \<noteq> px_global px" using inv assms(3-5) by (auto simp: px_inv_def)
  have "sem_available ops (w_sems w' a2) = sem_available ops (w_sems (px_world px) a2)"
  proof (cases r)
    case (Ok s)
    from semaphore.reserve_Ok [OF sem assms(8) [unfolded Ok]] ne assms(6,7)
    have "seg_held a2 s = 0" and "\<forall>a. sem_available ops (w_sems w' a) + seg_held a s = sem_available ops (w_sems (px_world px) a)"
      by (auto simp: seg_held_def)
    then show ?thesis by (metis add_0_right)
  next
    case (Err e)
    then show ?thesis using semaphore.reserve_Err [OF sem] assms(8) by blast
  next
    case Panic
    then show ?thesis using semaphore.reserve_not_Panic [OF sem] assms(8) by blast
  qed
  then show ?thesis using ne by blast
qed

text \<open>
  Queueing: whatever the budget and the channel do, the segments the channel takes are
  non-empty, no longer than the budget's capacity, and in order a prefix of the bytes to send; when
  \<open>enqueue\<close> succeeds they are all of them, and it does not panic for a budget with positive capacity.
\<close>
lemma enqueue_slices_bytes:
  assumes "0 < bb_capacity budget" and "enqueue ops snd_fn w budget b = (w', sent, r)"
  shows "prefix (concat (map seg_bytes sent)) b
    \<and> (\<forall>s \<in> set sent. seg_bytes s \<noteq> [] \<and> length (seg_bytes s) \<le> bb_capacity budget)
    \<and> (r = Ok () \<longrightarrow> concat (map seg_bytes sent) = b) \<and> r \<noteq> Panic"
proof (cases "b = []")
  case True
  then show ?thesis using assms(2) by (auto simp: enqueue_def)
next
  case False
  then have "enqueue_loop ops snd_fn budget b w (step_by (bb_capacity budget) [0..<length b]) = (w', sent, r)"
    using assms by (simp add: enqueue_def)
  from enqueue_loop_slices [OF assms(1) this] show ?thesis by simp
qed

text \<open>
  The tenant limit does not survive a reload of the keyring: clearing the tenant map gives the
  next stream of a tenant a new semaphore with the full tenant budget, whatever the tenant's running
  streams still hold on the old one.
\<close>
lemma reload_grants_fresh_budget:
  assumes "semaphore ops" and "reachable ops s0 n px" and "0 < cap"
    and "w_maps (px_world px) (px_map px) t = Some a"
  shows "\<exists>w' b. with_tenant ops (px_world (clear_tenants px)) t (px_map px) (px_global px) cap
      = (Ok (w', b) :: (_, unit) outcome)
    \<and> bb_semaphore b \<noteq> a \<and> available ops w' b = TENANT_MEMORY_BUDGET
    \<and> sem_available ops (w_sems w' a) = sem_available ops (w_sems (px_world px) a)"
proof -
  have "a < w_next (px_world px)"
    using semaphore.reachable_inv [OF assms(1,2)] assms(4) by (auto simp: px_inv_def)
  then show ?thesis using assms(3) semaphore.new_available [OF assms(1)]
    by (simp add: with_tenant_def alloc_sem_def available_def clear_tenants_def)
qed

section \<open>Witnesses\<close>

text \<open>A counting semaphore satisfies the contract.\<close>

definition counting_ops :: "nat sem_ops" where
  "counting_ops = \<lparr>sem_new = (\<lambda>n. n), sem_available = (\<lambda>s. s),
     sem_try_acquire_many = (\<lambda>s n. if n \<le> s then Some (s - n) else None), sem_add_permits = (\<lambda>s n. s + n)\<rparr>"

interpretation counting: semaphore counting_ops
  by unfold_locales (auto simp: counting_ops_def split: if_splits)

text \<open>Two tenants' streams; the first waits to send five bytes it has reserved.\<close>

definition sample_open :: "nat proxy \<Rightarrow> bytes \<Rightarrow> nat proxy" where
  "sample_open px tenant =
     (case try_acquire_many_owned counting_ops (px_world px) (px_global px) GLOBAL_MEMORY_CHUNK of
        Some (w1, p) \<Rightarrow>
          (case with_tenant counting_ops w1 tenant (px_map px) (px_global px) 8 :: (_, unit) outcome of
             Ok (w2, budget) \<Rightarrow> px\<lparr>px_world := w2, px_streams := px_streams px @
               [\<lparr>st_budget = budget, st_items = 32, st_queue = [], st_sending = None,
                 st_body = Some BudgetedBody_new, st_running = True, st_memory = Some p\<rparr>]\<rparr>
           | _ \<Rightarrow> px)
      | None \<Rightarrow> px)"

lemma sample_open_reachable:
  assumes "reachable counting_ops s0 n px"
  shows "reachable counting_ops s0 n (sample_open px tenant)"
proof (cases "try_acquire_many_owned counting_ops (px_world px) (px_global px) GLOBAL_MEMORY_CHUNK")
  case (Some r)
  obtain w1 p where r: "r = (w1, p)" by (cases r)
  obtain w2 b where wt: "with_tenant counting_ops w1 tenant (px_map px) (px_global px) 8 = (Ok (w2, b) :: (_, unit) outcome)"
    by (cases "w_maps w1 (px_map px) tenant") (auto simp: with_tenant_def alloc_sem_def)
  have "channel_checked 32 = (Ok 32 :: (_, unit) outcome)" by (simp add: channel_checked_def)
  from reachable.more [OF assms step.open_stream [OF Some [unfolded r] wt this]] Some r wt
  show ?thesis by (simp add: sample_open_def)
qed (use assms in \<open>simp add: sample_open_def\<close>)

definition sample_px2 :: "nat proxy" where
  "sample_px2 = sample_open (sample_open (initial counting_ops 0 200000) ''alice'') ''bob''"

definition sample_px3 :: "nat proxy" where
  "sample_px3 = (case BudgetedSegment_reserve counting_ops (px_world sample_px2)
       (st_budget (px_streams sample_px2 ! 0)) ''hello'' of
     (w, Ok seg) \<Rightarrow> set_stream sample_px2 0 w ((px_streams sample_px2 ! 0)\<lparr>st_sending := Some seg\<rparr>)
   | _ \<Rightarrow> sample_px2)"

lemmas sample_eval = sample_px2_def sample_open_def initial_def counting_ops_def try_acquire_many_owned_def
  with_tenant_def alloc_sem_def GLOBAL_MEMORY_CHUNK_def TENANT_MEMORY_BUDGET_def Let_def

lemma sample_px2_reachable: "reachable counting_ops 0 200000 sample_px2"
  unfolding sample_px2_def by (intro sample_open_reachable reachable.start)

lemma sample_px2_facts:
  "length (px_streams sample_px2) = 2" "px_map sample_px2 = 0" "px_global sample_px2 = 0"
  "st_running (px_streams sample_px2 ! 0)" "st_sending (px_streams sample_px2 ! 0) = None"
  "st_budget (px_streams sample_px2 ! 0) = \<lparr>bb_semaphore = 1, bb_global_memory = 0, bb_capacity = 8\<rparr>"
  "w_maps (px_world sample_px2) 0 ''alice'' = Some 1" "w_maps (px_world sample_px2) 0 ''bob'' = Some 2"
  "w_next (px_world sample_px2) = 3"
  "w_sems (px_world sample_px2) 0 = 68928" "w_sems (px_world sample_px2) 1 = 16777216"
  by (simp_all add: sample_eval)

lemma counting_simps [simp]:
  "sem_available counting_ops s = s" "sem_try_acquire_many counting_ops s n = (if n \<le> s then Some (s - n) else None)"
  by (simp_all add: counting_ops_def)

lemma sample_reserve:
  "\<exists>w seg. BudgetedSegment_reserve counting_ops (px_world sample_px2) (st_budget (px_streams sample_px2 ! 0)) ''hello''
     = (w, Ok seg)"
  using counting.reserve_succeeds_iff [of "st_budget (px_streams sample_px2 ! 0)" "px_world sample_px2" "''hello''"]
  by (simp add: sample_px2_facts del: One_nat_def)

lemma sample_px3_reachable: "reachable counting_ops 0 200000 sample_px3"
proof -
  from sample_reserve obtain w seg where r: "BudgetedSegment_reserve counting_ops (px_world sample_px2)
      (st_budget (px_streams sample_px2 ! 0)) ''hello'' = (w, Ok seg)" by blast
  have i: "0 < length (px_streams sample_px2)" by (simp add: sample_px2_facts)
  from reachable.more [OF sample_px2_reachable step.reserve_ok [OF i refl sample_px2_facts(4,5) r]] r
  show ?thesis by (simp add: sample_px3_def)
qed

lemma sample_px3_facts:
  "w_next (px_world sample_px3) = 3" "length (px_streams sample_px3) = 2"
  "bb_semaphore (st_budget (px_streams sample_px3 ! 0)) = 1"
  "w_maps (px_world sample_px3) (px_map sample_px3) ''alice'' = Some 1"
proof -
  from sample_reserve obtain w seg where r: "BudgetedSegment_reserve counting_ops (px_world sample_px2)
      (st_budget (px_streams sample_px2 ! 0)) ''hello'' = (w, Ok seg)" by blast
  have "0 < length (px_streams sample_px2)" by (simp add: sample_px2_facts)
  then show "w_next (px_world sample_px3) = 3" "length (px_streams sample_px3) = 2"
    "bb_semaphore (st_budget (px_streams sample_px3 ! 0)) = 1"
    "w_maps (px_world sample_px3) (px_map sample_px3) ''alice'' = Some 1"
    using counting.reserve_Ok [OF r] r by (simp_all add: sample_px3_def set_stream_def sample_px2_facts)
qed

theorem permits_conserved_witness:
  "sem_available counting_ops (w_sems (px_world sample_px3) 1)
       + held 1 (live_segs (px_streams sample_px3)) (live_permits (px_streams sample_px3))
       = w_sizes (px_world sample_px3) 1
     \<and> byte_budget_in_use (px_world sample_px3) = of_nat (queued_bytes (live_segs (px_streams sample_px3)))"
  using permits_conserved [OF counting.semaphore_axioms sample_px3_reachable]
  by (simp add: sample_px3_facts del: One_nat_def)

theorem queued_bytes_bounded_witness:
  "queued_bytes (live_segs (px_streams sample_px3)) \<le> 200000
     \<and> bytes_on 1 (live_segs (px_streams sample_px3)) \<le> TENANT_MEMORY_BUDGET"
  using queued_bytes_bounded [OF counting.semaphore_axioms sample_px3_reachable]
    nth_mem [of 0 "px_streams sample_px3"] sample_px3_facts by fastforce

text \<open>One stream opened and ended again.\<close>

definition sample_idle :: "nat proxy" where
  "sample_idle = (let px = sample_open (initial counting_ops 0 200000) ''alice''; st = px_streams px ! 0 in
     set_stream px 0 (drop_permit counting_ops (px_world px) (the (st_memory st)))
       (st\<lparr>st_running := False, st_memory := None\<rparr>))"

lemma sample_idle_reachable: "reachable counting_ops 0 200000 sample_idle"
proof -
  let ?px = "sample_open (initial counting_ops 0 200000) ''alice''"
  have f: "0 < length (px_streams ?px)" "st_running (px_streams ?px ! 0)" "st_sending (px_streams ?px ! 0) = None"
    "st_memory (px_streams ?px ! 0) = Some \<lparr>p_sem = 0, p_num = 65536\<rparr>"
    by (simp_all add: sample_eval)
  have "reachable counting_ops 0 200000 ?px" by (intro sample_open_reachable reachable.start)
  from reachable.more [OF this step.task_ends [OF f(1) refl f(2-4)]] show ?thesis
    by (simp add: sample_idle_def f(4) Let_def)
qed

lemma idle_proxy_has_full_budget_witness:
  "sem_available counting_ops (w_sems (px_world sample_idle) 0) = w_sizes (px_world sample_idle) 0
     \<and> byte_budget_in_use (px_world sample_idle) = 0"
proof -
  have idle: "\<forall>st \<in> set (px_streams sample_idle). st_queue st = [] \<and> st_sending st = None \<and> st_memory st = None
      \<and> (\<forall>body. st_body st = Some body \<longrightarrow> body_in_flight body = None)"
    by (simp add: sample_idle_def set_stream_def sample_eval BudgetedBody_new_def)
  have "0 < w_next (px_world sample_idle)"
    by (simp add: sample_idle_def set_stream_def drop_permit_def sample_eval)
  then show ?thesis
    using idle_proxy_has_full_budget [OF counting.semaphore_axioms sample_idle_reachable idle] by blast
qed

definition tight_world :: "nat world" where
  "tight_world = \<lparr>w_sems = (\<lambda>a. if a = 0 then 3 else 9), w_sizes = (\<lambda>a. 9), w_maps = (\<lambda>_ _. None),
     w_next = 2, w_next_map = 0, w_in_use = 0\<rparr>"

lemma reserve_all_or_nothing_witness:
  "snd (BudgetedSegment_reserve counting_ops tight_world \<lparr>bb_semaphore = 1, bb_global_memory = 0, bb_capacity = 8\<rparr> ''hello'')
     = Err GlobalLimitExceeded
   \<and> w_sems (fst (BudgetedSegment_reserve counting_ops tight_world
        \<lparr>bb_semaphore = 1, bb_global_memory = 0, bb_capacity = 8\<rparr> ''hello'')) 1 = 9"
proof -
  let ?b = "\<lparr>bb_semaphore = 1, bb_global_memory = 0, bb_capacity = 8\<rparr>"
  have e: "snd (BudgetedSegment_reserve counting_ops tight_world ?b ''hello'') = Err GlobalLimitExceeded"
    by (simp add: BudgetedSegment_reserve_def tenant_permit_def try_acquire_many_owned_def tight_world_def as_u32_def)
  have ne: "bb_semaphore ?b \<noteq> bb_global_memory ?b" by simp
  from reserve_all_or_nothing [OF counting.semaphore_axioms ne prod.collapse [symmetric], of tight_world "''hello''"] e
  have "w_sems (fst (BudgetedSegment_reserve counting_ops tight_world ?b ''hello'')) 1 = w_sems tight_world 1" by simp
  then show ?thesis using e by (simp add: tight_world_def)
qed

theorem tenants_isolated_witness:
  "(1::nat) \<noteq> 2 \<and> sem_available counting_ops (w_sems (fst (BudgetedSegment_reserve counting_ops (px_world sample_px2)
        (st_budget (px_streams sample_px2 ! 0)) ''hello'')) 2)
     = sem_available counting_ops (w_sems (px_world sample_px2) 2)"
  by (rule tenants_isolated [OF counting.semaphore_axioms sample_px2_reachable, where ?t1.0 = "''alice''" and ?t2.0 = "''bob''",
        OF _ _ _ _ _ prod.collapse [symmetric]]) (simp_all add: sample_px2_facts)

definition closing_channel :: "nat world \<Rightarrow> BudgetedSegment \<Rightarrow> nat world \<times> bool" where
  "closing_channel w seg = (w, seg_bytes seg \<noteq> ''ij'')"

lemma enqueue_slices_bytes_witness:
  "case enqueue counting_ops closing_channel (tight_world\<lparr>w_sems := (\<lambda>_. 99)\<rparr>)
       \<lparr>bb_semaphore = 1, bb_global_memory = 0, bb_capacity = 4\<rparr> ''abcdefghij'' of
     (w', sent, r) \<Rightarrow> map seg_bytes sent = [''abcd'', ''efgh''] \<and> prefix (concat (map seg_bytes sent)) ''abcdefghij''"
proof -
  let ?b = "\<lparr>bb_semaphore = 1, bb_global_memory = 0, bb_capacity = 4\<rparr>" and ?w = "tight_world\<lparr>w_sems := (\<lambda>_. 99)\<rparr>"
  obtain w' sent r where e: "enqueue counting_ops closing_channel ?w ?b ''abcdefghij'' = (w', sent, r)"
    by (metis prod_cases3)
  have "map seg_bytes (fst (snd (enqueue counting_ops closing_channel ?w ?b ''abcdefghij''))) = [''abcd'', ''efgh'']"
    by (simp add: enqueue_def upt_rec BudgetedSegment_reserve_def tenant_permit_def try_acquire_many_owned_def as_u32_def
        record_budget_in_use_def closing_channel_def tight_world_def Prelude.slice_def)
  then show ?thesis using enqueue_slices_bytes [OF _ e] e by simp
qed

lemma reload_grants_fresh_budget_witness:
  "\<exists>w' b. with_tenant counting_ops (px_world (clear_tenants sample_px3)) ''alice'' (px_map sample_px3) (px_global sample_px3) 8
      = (Ok (w', b) :: (_, unit) outcome)
    \<and> bb_semaphore b \<noteq> 1 \<and> available counting_ops w' b = TENANT_MEMORY_BUDGET
    \<and> sem_available counting_ops (w_sems w' 1) = sem_available counting_ops (w_sems (px_world sample_px3) 1)"
  by (rule reload_grants_fresh_budget [OF counting.semaphore_axioms sample_px3_reachable])
     (simp_all add: sample_px3_facts)

end
