(* ===== verification/Gateway.thy ===== *)
theory Gateway
  imports Engine
begin

text \<open>
  The HTTP front of \<open>src/lib.rs\<close>: the handlers of the administration and attestation routes, the
  body limit, the two authentication middlewares, the CORS middleware and their composition in
  \<open>make_router\<close>. A middleware gets the rest of the stack as the function \<open>next\<close>, as in axum. The
  application state that requests change (the compiled rules behind \<open>ArcSwap\<close>) is passed through.
\<close>

section \<open>Requests and responses\<close>

text \<open>
  An error value and the chain of its \<open>source()\<close>s: the two cases of \<open>RequestBodyError\<close>, and errors
  of other crates.
\<close>

datatype error_value =
    LimitExceeded nat
  | Upstream error_value
  | Other bytes "error_value option"

type_synonym body_item = "error_value + bytes"
type_synonym headers = "(bytes \<times> bytes) list"

record http_request =
  rq_method :: bytes
  rq_path :: bytes
  rq_headers :: headers
  rq_query_nonce :: "bytes option"
  rq_request_id :: "bytes option"
  rq_tenant :: "bytes option"
  rq_body :: "body_item list"

text \<open>
  A body is complete, or produced by a stream task. A panic of a handler unwinds through the stack and closes
  the connection: then nothing of the response is sent, which is the third case.
\<close>

datatype 'c content = Full bytes | Streaming 'c | Aborted

record 'c http_response =
  rs_status :: nat
  rs_headers :: headers
  rs_body :: "'c content"

definition header_get :: "headers \<Rightarrow> bytes \<Rightarrow> bytes option" where
  "header_get hs n = map_of hs n"

definition header_insert :: "bytes \<Rightarrow> bytes \<Rightarrow> headers \<Rightarrow> headers" where
  "header_insert n v hs = (n, v) # filter (\<lambda>(m, _). m \<noteq> n) hs"

definition status_response :: "nat \<Rightarrow> 'c http_response" where
  "status_response st = \<lparr>rs_status = st, rs_headers = [], rs_body = Full []\<rparr>"

text \<open>
  The code of other crates that the gateway calls: \<open>HeaderValue::to_str\<close> and \<open>from_str\<close>, \<open>blake3::hash\<close>,
  the hexadecimal and base-64 decoders, the base-64 encoder, the JSON extractor of the rules (a
  rejection status or the patterns) and the metrics renderer.
\<close>

record http_lib =
  hv_to_str :: "bytes \<Rightarrow> bytes option"
  hv_from_str :: "bytes \<Rightarrow> bytes option"
  token_hash :: "bytes \<Rightarrow> bytes"
  hex_decode :: "bytes \<Rightarrow> bytes option"
  b64_decode :: "bytes \<Rightarrow> bytes option"
  b64_encode_std :: "bytes \<Rightarrow> bytes"
  json_rules :: "http_request \<Rightarrow> nat + bytes list"
  render_metrics :: bytes

section \<open>State\<close>

text \<open>
  The state that every handler shares. Behind the \<open>Arc\<close>s are the current values of the two \<open>ArcSwap\<close>s of rules, of the
  keyring, of the shutdown channel and of the map of tenants, whose semaphores (and the one of the
  global memory) are addresses in the store of theory \<open>BudgetQueue\<close>. The upstream client, the signing key and the
  two handles of the metrics recorder never change and are arguments of the functions that use them.
\<close>

record AppState =
  as_vault :: PiiVault
  as_engine_state :: EngineState
  as_auth_keyring :: "bytes list"
  as_admin_bearer_token_hash :: bytes
  as_attestation_document :: bytes
  as_upstream_url :: bytes
  as_allowed_origins :: "bytes list"
  as_shutdown :: bool
  as_global_memory :: nat
  as_tenant_budgets :: "bytes \<Rightarrow> nat option"

type_synonym 'c handler = "AppState \<Rightarrow> http_request \<Rightarrow> AppState \<times> 'c http_response"
type_synonym 'c middleware = "'c handler \<Rightarrow> 'c handler"

definition MAX_BODY_SIZE :: nat where
  "MAX_BODY_SIZE = 2 * 1024 * 1024"

section \<open>Handlers\<close>

text \<open>
  \<open>attest\<close> is \<open>crate::attestation::attestation_document\<close> for the proxy's public key, given the nonce.
\<close>

definition attestation_document :: "http_lib \<Rightarrow> (bytes \<Rightarrow> bytes + bytes) \<Rightarrow> bytes option \<Rightarrow> nat \<times> bytes" where
  "attestation_document lib attest query_nonce =
     (case query_nonce of
        None \<Rightarrow> (400, ''nonce query parameter is required'')
      | Some encoded_nonce \<Rightarrow>
          (case (case hex_decode lib encoded_nonce of Some n \<Rightarrow> Some n | None \<Rightarrow> b64_decode lib encoded_nonce) of
             None \<Rightarrow> (400, ''nonce must be hex or standard base64'')
           | Some nonce \<Rightarrow>
               if length nonce \<noteq> 32 then (400, ''nonce must decode to exactly 32 bytes'')
               else (case attest nonce of
                       Inl error \<Rightarrow> (502, error)
                     | Inr document \<Rightarrow> (200, b64_encode_std lib document))))"

text \<open>A panic of the compilation is caught by \<open>spawn_blocking\<close>.\<close>

definition update_rules :: "ac_builder \<Rightarrow> AppState \<Rightarrow> bytes list \<Rightarrow> AppState \<times> nat" where
  "update_rules build st patterns =
     (if patterns = [] then (st, 400)
      else case EngineState_new build patterns (map (\<lambda>_. ''[REDACTED]'') patterns) :: (_, unit) outcome of
        Ok compiled \<Rightarrow> (st\<lparr>as_engine_state := compiled\<rparr>, 200)
      | _ \<Rightarrow> (st, 500))"

section \<open>The body limit\<close>

text \<open>\<open>str::parse::<usize>\<close>: an optional plus sign, then decimal digits, no overflow.\<close>

definition digit_value :: "byte \<Rightarrow> nat option" where
  "digit_value c = (if of_char c \<ge> (48::nat) \<and> of_char c \<le> (57::nat) then Some (of_char c - 48) else None)"

fun parse_digits :: "nat \<Rightarrow> bytes \<Rightarrow> nat option" where
  "parse_digits acc [] = Some acc"
| "parse_digits acc (c # cs) =
     (case digit_value c of
        None \<Rightarrow> None
      | Some d \<Rightarrow> if acc * 10 + d \<le> 2 ^ 64 - 1 then parse_digits (acc * 10 + d) cs else None)"

definition parse_usize :: "bytes \<Rightarrow> nat option" where
  "parse_usize s =
     (case s of
        [] \<Rightarrow> None
      | c # cs \<Rightarrow> if c = CHR ''+'' then (if cs = [] then None else parse_digits 0 cs) else parse_digits 0 s)"

definition saturating_add :: "nat \<Rightarrow> nat \<Rightarrow> nat" where
  "saturating_add a b = min (a + b) (2 ^ 64 - 1)"

fun limited_stream :: "nat \<Rightarrow> body_item list \<Rightarrow> body_item list" where
  "limited_stream tot [] = []"
| "limited_stream tot (Inr b # rest) =
     (let next_total = saturating_add tot (length b) in
      if next_total > MAX_BODY_SIZE then Inl (LimitExceeded MAX_BODY_SIZE) # limited_stream next_total rest
      else Inr b # limited_stream next_total rest)"
| "limited_stream tot (Inl e # rest) = Inl (Upstream e) # limited_stream tot rest"

definition enforce_body_limit :: "http_lib \<Rightarrow> 'c middleware" where
  "enforce_body_limit lib next = (\<lambda>st req.
     (case Option.bind (Option.bind (header_get (rq_headers req) ''content-length'') (hv_to_str lib)) parse_usize of
        Some len \<Rightarrow>
          if len > MAX_BODY_SIZE then (st, status_response 413)
          else next st (req\<lparr>rq_body := limited_stream 0 (rq_body req)\<rparr>)
      | None \<Rightarrow> next st (req\<lparr>rq_body := limited_stream 0 (rq_body req)\<rparr>)))"

fun contains_body_limit_error :: "error_value \<Rightarrow> bool" where
  "contains_body_limit_error (LimitExceeded n) = True"
| "contains_body_limit_error (Upstream e) = contains_body_limit_error e"
| "contains_body_limit_error (Other m None) = False"
| "contains_body_limit_error (Other m (Some e)) = contains_body_limit_error e"

section \<open>Authentication\<close>

definition strip_prefix :: "bytes \<Rightarrow> bytes \<Rightarrow> bytes option" where
  "strip_prefix p s = (if take (length p) s = p then Some (drop (length p) s) else None)"

definition bearer_token :: "http_lib \<Rightarrow> http_request \<Rightarrow> bytes option" where
  "bearer_token lib req =
     Option.bind (Option.bind (header_get (rq_headers req) ''authorization'') (hv_to_str lib)) (strip_prefix ''Bearer '')"

definition require_auth :: "http_lib \<Rightarrow> 'c middleware" where
  "require_auth lib next = (\<lambda>st req.
     (case bearer_token lib req of
        Some token \<Rightarrow>
          let hash = token_hash lib token;
              authenticated = foldl (\<lambda>a valid_hash. a \<or> hash = valid_hash) False (as_auth_keyring st) in
          if authenticated then next st (req\<lparr>rq_tenant := Some hash\<rparr>) else (st, status_response 401)
      | None \<Rightarrow> (st, status_response 401)))"

definition auth_middleware :: "http_lib \<Rightarrow> 'c middleware" where
  "auth_middleware lib next = (\<lambda>st req.
     (case bearer_token lib req of
        None \<Rightarrow> (st, status_response 401)
      | Some token \<Rightarrow>
          let hash = token_hash lib token in
          if hash = as_admin_bearer_token_hash st then next st req
          else if list_ex (\<lambda>valid_hash. hash = valid_hash) (as_auth_keyring st) then (st, status_response 403)
          else (st, status_response 401)))"

section \<open>CORS\<close>

definition cors_headers :: "http_lib \<Rightarrow> bytes option \<Rightarrow> headers \<Rightarrow> headers" where
  "cors_headers lib allowed_origin hs =
     (let hs1 = (case Option.bind allowed_origin (hv_from_str lib) of
            Some value \<Rightarrow> header_insert ''access-control-allow-origin'' value hs | None \<Rightarrow> hs) in
      header_insert ''access-control-allow-methods'' ''GET, POST, OPTIONS''
        (header_insert ''access-control-allow-headers'' ''Authorization, Content-Type'' hs1))"

definition cors_middleware :: "http_lib \<Rightarrow> 'c middleware" where
  "cors_middleware lib next = (\<lambda>st req.
     let origin = Option.bind (header_get (rq_headers req) ''origin'') (hv_to_str lib);
         allowed_origin = Option.bind origin
           (\<lambda>value. if list_ex (\<lambda>allowed. allowed = value) (as_allowed_origins st) then Some value else None) in
     if origin \<noteq> None \<and> allowed_origin = None then (st, status_response 403)
     else if rq_method req = ''OPTIONS''
     then (st, \<lparr>rs_status = 200, rs_headers = cors_headers lib allowed_origin [], rs_body = Full []\<rparr>)
     else case next st req of
       (st', resp) \<Rightarrow> (st', resp\<lparr>rs_headers := cors_headers lib allowed_origin (rs_headers resp)\<rparr>))"

section \<open>The router\<close>

text \<open>
  The endpoint axum selects for a method and a path. The last three are paths without a handler for the
  method, behind the layer of the administration routes, behind that of the completions route, and without
  one (with the status of the answer).
\<close>

datatype endpoint =
    Rules
  | AdminMetrics
  | Attestation
  | Completions
  | AdminOther
  | CompletionsOther
  | NoRoute nat

definition into_response :: "nat \<times> bytes \<Rightarrow> 'c http_response" where
  "into_response r = \<lparr>rs_status = fst r, rs_headers = [], rs_body = Full (snd r)\<rparr>"

definition rules_handler :: "http_lib \<Rightarrow> ac_builder \<Rightarrow> 'c handler" where
  "rules_handler lib build st req =
     (case json_rules lib req of
        Inl rejection \<Rightarrow> (st, status_response rejection)
      | Inr patterns \<Rightarrow> (case update_rules build st patterns of (st', code) \<Rightarrow> (st', status_response code)))"

definition admin_metrics :: "http_lib \<Rightarrow> 'c handler" where
  "admin_metrics lib st req = (st, into_response (200, render_metrics lib))"

text \<open>A \<open>get\<close> route answers \<open>HEAD\<close> too, without the body.\<close>

definition for_head :: "bytes \<Rightarrow> 'c http_response \<Rightarrow> 'c http_response" where
  "for_head meth resp = (if meth = ''HEAD'' then resp\<lparr>rs_body := Full []\<rparr> else resp)"

definition get_route :: "bytes \<Rightarrow> 'c http_response \<Rightarrow> 'c http_response" where
  "get_route meth resp = (if meth \<in> {''GET'', ''HEAD''} then for_head meth resp else status_response 405)"

definition make_metrics_router :: "http_lib \<Rightarrow> bytes \<Rightarrow> bytes \<Rightarrow> 'c http_response" where
  "make_metrics_router lib meth path =
     (if path = ''/health'' then get_route meth (into_response (200, ''ok''))
      else if path = ''/metrics'' then get_route meth (into_response (200, render_metrics lib))
      else status_response 404)"

text \<open>The routes the program registers: method, path (the nested ones with their prefix) and endpoint.\<close>

definition route_table :: "(bytes \<times> bytes \<times> endpoint) list" where
  "route_table =
     [(''POST'', ''/_admin/rules'', Rules), (''GET'', ''/_admin/metrics'', AdminMetrics),
      (''GET'', ''/_attestation'', Attestation), (''POST'', ''/v1/chat/completions'', Completions)]"

text \<open>
  \<open>route\<close> is axum's matching, \<open>set_id\<close> and \<open>propagate_id\<close> the request-id layers of tower-http,
  \<open>proxy_handler\<close> the proxy handler.
\<close>

definition routes ::
  "http_lib \<Rightarrow> ac_builder \<Rightarrow> (bytes \<Rightarrow> bytes + bytes) \<Rightarrow> (bytes \<Rightarrow> bytes \<Rightarrow> endpoint) \<Rightarrow> 'c handler \<Rightarrow> 'c handler" where
  "routes lib build attest route proxy_handler st req = (case route (rq_method req) (rq_path req) of
      Rules \<Rightarrow> auth_middleware lib (rules_handler lib build) st req
    | AdminMetrics \<Rightarrow> apsnd (for_head (rq_method req)) (auth_middleware lib (admin_metrics lib) st req)
    | Attestation \<Rightarrow> (st, for_head (rq_method req) (into_response (attestation_document lib attest (rq_query_nonce req))))
    | Completions \<Rightarrow> require_auth lib proxy_handler st req
    | AdminOther \<Rightarrow> auth_middleware lib (\<lambda>st req. (st, status_response 405)) st req
    | CompletionsOther \<Rightarrow> require_auth lib (\<lambda>st req. (st, status_response 405)) st req
    | NoRoute code \<Rightarrow> (st, status_response code))"

definition make_router ::
  "http_lib \<Rightarrow> ac_builder \<Rightarrow> (bytes \<Rightarrow> bytes + bytes) \<Rightarrow> (bytes \<Rightarrow> bytes \<Rightarrow> endpoint) \<Rightarrow>
     (http_request \<Rightarrow> http_request) \<Rightarrow> (http_request \<Rightarrow> 'c http_response \<Rightarrow> 'c http_response) \<Rightarrow>
     'c handler \<Rightarrow> 'c handler" where
  "make_router lib build attest route set_id propagate_id proxy_handler st req =
     (let req1 = set_id req in
      case cors_middleware lib (enforce_body_limit lib (routes lib build attest route proxy_handler)) st req1 of
        (st', resp) \<Rightarrow> (st', propagate_id req1 resp))"

end
