(* ===== verification/StreamTask.thy ===== *)
theory StreamTask
  imports Engine DoneDetector BudgetQueue Gateway
begin

text \<open>
  The proxy handler of \<open>src/lib.rs\<close>: \<open>proxy_with_upstream\<close>, which admits a request, sends it upstream
  and starts the stream task, and the task itself, which redacts the response, watches for its end
  and queues the result for the client. What the environment decides (which branch of \<open>select!\<close> is
  ready, what the upstream answers, whether a timer elapses) is an argument.
\<close>

section \<open>Queueing\<close>

text \<open>
  \<open>enq q b\<close> is \<open>enqueue\<close> run under the five-second timer, on a downstream \<open>q\<close>; \<open>None\<close> means the timer
  elapsed.
\<close>

type_synonym 'q enqueuer = "'q \<Rightarrow> bytes \<Rightarrow> 'q \<times> (unit, EnqueueError) outcome option"

definition enqueue_with_timeout :: "'q enqueuer \<Rightarrow> 'q \<Rightarrow> bytes \<Rightarrow> 'q \<times> (unit, EnqueueError) outcome" where
  "enqueue_with_timeout enq q b =
     (case enq q b of
        (q', Some result) \<Rightarrow> (q', result)
      | (q', None) \<Rightarrow> (q', Err EnqueueCapacity))"

definition terminal_frame :: "bytes \<Rightarrow> bytes" where
  "terminal_frame reason =
     ''data: {'' @ DQ @ ''error'' @ DQ @ '': '' @ DQ @ ''proxy_terminated'' @ DQ @ '', '' @ DQ @ ''reason'' @ DQ @
     '': '' @ DQ @ reason @ DQ @ ''}'' @ NL @ NL"

definition send_terminal_error :: "'q enqueuer \<Rightarrow> 'q \<Rightarrow> bytes \<Rightarrow> 'q" where
  "send_terminal_error enq q reason = fst (enqueue_with_timeout enq q (terminal_frame reason))"

primrec event_bytes :: "StreamEvent \<Rightarrow> bytes" where
  "event_bytes (Data b) = b"
| "event_bytes (AuditReceipt b) = b"
| "event_bytes (DoneMarker b) = b"

fun forward_stream_events :: "'q enqueuer \<Rightarrow> 'q \<Rightarrow> StreamEvent list \<Rightarrow> 'q \<times> (unit, unit) outcome" where
  "forward_stream_events enq q [] = (q, Ok ())"
| "forward_stream_events enq q (event # events) =
     (case enqueue_with_timeout enq q (event_bytes event) of
        (q', Ok _) \<Rightarrow> forward_stream_events enq q' events
      | (q', Err _) \<Rightarrow> (q', Err ())
      | (q', Panic) \<Rightarrow> (q', Panic))"

section \<open>The task\<close>

record ('h, 'q) task =
  tk_redactor :: StreamRedactor
  tk_hasher :: 'h
  tk_detector :: DoneDetector
  tk_queue :: 'q

text \<open>How a piece of the task's body ends: falling through, \<open>break\<close>ing the loop, \<open>return\<close>ing, panicking.\<close>

datatype 't flow =
    Continue 't
  | Break 't bool bool
  | Return 't
  | Crash

text \<open>What \<open>select!\<close> delivers in one turn of the loop.\<close>

datatype task_event =
    Downstream_closed
  | Shutdown_changed bool
  | Idle_timeout
  | End_of_stream
  | Read_error
  | Chunk bytes

definition terminal_reason :: "EnqueueError \<Rightarrow> bytes" where
  "terminal_reason e =
     (case e of
        Budget TenantLimitExceeded \<Rightarrow> ''tenant_limit_exceeded''
      | Budget GlobalLimitExceeded \<Rightarrow> ''global_limit_exceeded''
      | _ \<Rightarrow> ''downstream_enqueue_failed'')"

text \<open>
  One output segment. On a stream of server-sent events it goes through the detector; otherwise it is
  hashed and queued, and in the loop (\<open>in_loop\<close>) a failure is reported to the client.
\<close>

definition forward_output ::
  "('h, 'k) receipt_env \<Rightarrow> 'q enqueuer \<Rightarrow> bool \<Rightarrow> bool \<Rightarrow> ('h, 'q) task \<Rightarrow> bytes \<Rightarrow> ('h, 'q) task flow" where
  "forward_output env enq is_sse in_loop tk b =
     (if is_sse
      then case inspect env (tk_detector tk) b (tk_hasher tk) of
          Ok (det, hasher, events) \<Rightarrow>
            (case forward_stream_events enq (tk_queue tk) events of
               (q, Ok _) \<Rightarrow> Continue (tk\<lparr>tk_detector := det, tk_hasher := hasher, tk_queue := q\<rparr>)
             | (q, Err _) \<Rightarrow> Return (tk\<lparr>tk_detector := det, tk_hasher := hasher, tk_queue := q\<rparr>)
             | (q, Panic) \<Rightarrow> Crash)
        | _ \<Rightarrow> Crash
      else
        let hasher = hasher_update (re_crypto env) (tk_hasher tk) b in
        case enqueue_with_timeout enq (tk_queue tk) b of
          (q, Ok _) \<Rightarrow> Continue (tk\<lparr>tk_hasher := hasher, tk_queue := q\<rparr>)
        | (q, Err e) \<Rightarrow> Return (tk\<lparr>tk_hasher := hasher,
             tk_queue := (if in_loop then send_terminal_error enq q (terminal_reason e) else q)\<rparr>)
        | (q, Panic) \<Rightarrow> Crash)"

fun forward_outputs ::
  "('h, 'k) receipt_env \<Rightarrow> 'q enqueuer \<Rightarrow> bool \<Rightarrow> bool \<Rightarrow> ('h, 'q) task \<Rightarrow> OutputSegment list \<Rightarrow> ('h, 'q) task flow" where
  "forward_outputs env enq is_sse in_loop tk [] = Continue tk"
| "forward_outputs env enq is_sse in_loop tk (out # outs) =
     (case forward_output env enq is_sse in_loop tk (segment_bytes out) of
        Continue tk' \<Rightarrow> forward_outputs env enq is_sse in_loop tk' outs
      | r \<Rightarrow> r)"

definition terminate :: "'q enqueuer \<Rightarrow> ('h, 'q) task \<Rightarrow> bytes \<Rightarrow> ('h, 'q) task flow" where
  "terminate enq tk reason = Return (tk\<lparr>tk_queue := send_terminal_error enq (tk_queue tk) reason\<rparr>)"

definition task_turn ::
  "('h, 'k) receipt_env \<Rightarrow> 'q enqueuer \<Rightarrow> bool \<Rightarrow> ('h, 'q) task \<Rightarrow> task_event \<Rightarrow> ('h, 'q) task flow" where
  "task_turn env enq is_sse tk ev =
     (case ev of
        Downstream_closed \<Rightarrow> Break tk False True
      | Shutdown_changed down \<Rightarrow>
          if down
          then case shutdown_events env (tk_detector tk) (tk_hasher tk) of
              Ok (det, hasher, events) \<Rightarrow>
                (case forward_stream_events enq (tk_queue tk) events of
                   (q, Ok _) \<Rightarrow> Break (tk\<lparr>tk_detector := det, tk_hasher := hasher, tk_queue := q\<rparr>) False False
                 | (q, Err _) \<Rightarrow> Return (tk\<lparr>tk_detector := det, tk_hasher := hasher, tk_queue := q\<rparr>)
                 | (q, Panic) \<Rightarrow> Crash)
            | _ \<Rightarrow> Crash
          else Continue tk
      | Idle_timeout \<Rightarrow> terminate enq tk ''upstream_idle_timeout''
      | End_of_stream \<Rightarrow> Break tk True False
      | Read_error \<Rightarrow> terminate enq tk ''upstream_read_failed''
      | Chunk chunk \<Rightarrow>
          (case push (tk_redactor tk) chunk of
             (red, Ok outputs) \<Rightarrow> forward_outputs env enq is_sse True (tk\<lparr>tk_redactor := red\<rparr>) outputs
           | (red, Err _) \<Rightarrow> terminate enq (tk\<lparr>tk_redactor := red\<rparr>) ''redaction_failed''
           | (red, Panic) \<Rightarrow> Crash))"

text \<open>After the last event given the loop is still waiting: \<open>Continue\<close>.\<close>

fun task_loop ::
  "('h, 'k) receipt_env \<Rightarrow> 'q enqueuer \<Rightarrow> bool \<Rightarrow> ('h, 'q) task \<Rightarrow> task_event list \<Rightarrow> ('h, 'q) task flow" where
  "task_loop env enq is_sse tk [] = Continue tk"
| "task_loop env enq is_sse tk (ev # evs) =
     (case task_turn env enq is_sse tk ev of
        Continue tk' \<Rightarrow> task_loop env enq is_sse tk' evs
      | r \<Rightarrow> r)"

definition finish_detector ::
  "('h, 'k) receipt_env \<Rightarrow> 'q enqueuer \<Rightarrow> bool \<Rightarrow> ('h, 'q) task \<Rightarrow> ('h, 'q) task flow" where
  "finish_detector env enq is_sse tk =
     (if is_sse
      then case DoneDetector_finish env (tk_detector tk) (tk_hasher tk) of
          (det, hasher, events) \<Rightarrow>
            (case forward_stream_events enq (tk_queue tk) events of
               (q, Panic) \<Rightarrow> Crash
             | (q, _) \<Rightarrow> Return (tk\<lparr>tk_detector := det, tk_hasher := hasher, tk_queue := q\<rparr>))
      else Return tk)"

definition task_finish ::
  "('h, 'k) receipt_env \<Rightarrow> 'q enqueuer \<Rightarrow> bool \<Rightarrow> ('h, 'q) task \<Rightarrow> ('h, 'q) task flow" where
  "task_finish env enq is_sse tk =
     (case finish (tk_redactor tk) of
        (red, Ok outputs) \<Rightarrow>
          (case forward_outputs env enq is_sse False (tk\<lparr>tk_redactor := red\<rparr>) outputs of
             Continue tk1 \<Rightarrow> finish_detector env enq is_sse tk1
           | r \<Rightarrow> r)
      | (red, Err _) \<Rightarrow> terminate enq (tk\<lparr>tk_redactor := red\<rparr>) ''redaction_finish_failed''
      | (red, Panic) \<Rightarrow> Crash)"

definition stream_task ::
  "('h, 'k) receipt_env \<Rightarrow> 'q enqueuer \<Rightarrow> bool \<Rightarrow> ('h, 'q) task \<Rightarrow> task_event list \<Rightarrow> ('h, 'q) task flow" where
  "stream_task env enq is_sse tk evs =
     (case task_loop env enq is_sse tk evs of
        Break tk1 reached_eof downstream_closed \<Rightarrow>
          if downstream_closed then Return tk1 else task_finish env enq is_sse tk1
      | r \<Rightarrow> r)"

section \<open>Admitting a request\<close>

record upstream_response =
  up_status :: nat
  up_headers :: headers
  up_events :: "task_event list"

text \<open>
  The request to the upstream. The client adds the default headers it was built with, among them its
  own credentials.
\<close>

record upstream_request =
  uq_url :: bytes
  uq_headers :: headers
  uq_body :: "body_item list"

text \<open>What \<open>timeout(120s, upstream_request.send())\<close> gives.\<close>

datatype send_result = Send_timeout | Send_error error_value | Send_ok upstream_response

text \<open>
  The request's environment: the crypto code with the mutexes, the key and the clock; the other
  encoders (\<open>hex::encode\<close>, the JSON of the rules and of the terminal body); the two environment
  variables; whether the stream semaphore is open and the memory permit arrives in time; how much of
  the request body the client has read and what the upstream answers.
\<close>

record ('h, 'k) proxy_env =
  pe_receipt :: "('h, 'k) receipt_env"
  pe_hex :: "bytes \<Rightarrow> bytes"
  pe_rules_to_vec :: "bytes list \<times> bytes list \<Rightarrow> bytes"
  pe_terminal_to_vec :: "AttestedReceipt \<Rightarrow> bytes \<Rightarrow> bytes option"
  pe_pcr0_hash :: "bytes option"
  pe_mock_pcr0 :: "bytes option"
  pe_stream_permit :: bool
  pe_memory_permit :: bool
  pe_consumed :: "body_item list \<Rightarrow> nat"
  pe_send :: "upstream_request \<Rightarrow> send_result"

text \<open>What the spawned task starts from, and with it the body of the response.\<close>

record stream_start =
  ss_is_sse :: bool
  ss_engine :: EngineState
  ss_detector :: DoneDetector
  ss_tenant :: bytes
  ss_capacity :: nat
  ss_items :: nat
  ss_events :: "task_event list"

definition OUTPUT_BYTE_BUDGET :: nat where
  "OUTPUT_BYTE_BUDGET = 2 * 1024 * 1024"

text \<open>The hook on the request body: every chunk that is read is hashed.\<close>

definition hash_request :: "('h, 'k) crypto \<Rightarrow> body_item list \<Rightarrow> 'h" where
  "hash_request cr items =
     foldl (\<lambda>h item. case item of Inr chunk \<Rightarrow> hasher_update cr h chunk | Inl _ \<Rightarrow> h) (hasher_new cr) items"

definition request_id_header :: "http_request \<Rightarrow> bytes option" where
  "request_id_header req =
     (case rq_request_id req of Some v \<Rightarrow> Some v | None \<Rightarrow> header_get (rq_headers req) ''x-request-id'')"

definition request_id_of :: "http_lib \<Rightarrow> http_request \<Rightarrow> bytes" where
  "request_id_of lib req =
     (case Option.bind (request_id_header req) (hv_to_str lib) of Some s \<Rightarrow> s | None \<Rightarrow> ''missing'')"

definition tenant_of :: "http_request \<Rightarrow> bytes" where
  "tenant_of req = (case rq_tenant req of Some t \<Rightarrow> t | None \<Rightarrow> replicate 32 (CHR 0x00))"

definition build_upstream_request :: "bytes \<Rightarrow> http_request \<Rightarrow> upstream_request" where
  "build_upstream_request upstream_url req =
     \<lparr>uq_url = upstream_url,
      uq_headers =
        (case header_get (rq_headers req) ''content-type'' of
           Some content_type \<Rightarrow> [(''content-type'', content_type)] | None \<Rightarrow> []) @
        (case request_id_header req of
           Some request_id \<Rightarrow> [(''x-request-id'', request_id)] | None \<Rightarrow> []),
      uq_body = rq_body req\<rparr>"

definition is_success :: "nat \<Rightarrow> bool" where
  "is_success status \<longleftrightarrow> 200 \<le> status \<and> status < 300"

definition is_event_stream :: "http_lib \<Rightarrow> headers \<Rightarrow> bool" where
  "is_event_stream lib hs =
     (case Option.bind (header_get hs ''content-type'') (hv_to_str lib) of
        Some value \<Rightarrow> position_window ''text/event-stream'' (lower value) \<noteq> None | None \<Rightarrow> False)"

text \<open>The signed answer to a failing upstream; its own body is not forwarded.\<close>

definition terminal_receipt ::
  "('h, 'k) proxy_env \<Rightarrow> DoneDetector \<Rightarrow> 'h \<Rightarrow> AttestedReceipt \<times> bytes" where
  "terminal_receipt pe det request_hasher =
     (let cr = re_crypto (pe_receipt pe);
          request_hash = to_hex cr (hasher_finalize cr request_hasher);
          payload_hash = to_hex cr (blake3_hash cr ''TERMINAL_ERROR'');
          tuple_digest = canonical_receipt_digest cr (dd_request_id det) (dd_tenant_id det) (dd_upstream_url det)
            request_hash (dd_policy_digest det) (dd_pcr0 det) payload_hash in
      (\<lparr>ar_request_id = dd_request_id det, ar_tenant_id = dd_tenant_id det,
        ar_upstream_url = dd_upstream_url det, ar_request_hash = request_hash, ar_payload_hash = payload_hash,
        ar_policy_digest = dd_policy_digest det, ar_pcr0 = dd_pcr0 det, ar_tuple_digest = to_hex cr tuple_digest,
        ar_timestamp = unix_secs (re_now (pe_receipt pe))\<rparr>,
       b64_encode cr (ed25519_sign cr (re_key (pe_receipt pe)) tuple_digest)))"

definition terminal_response ::
  "('h, 'k) proxy_env \<Rightarrow> DoneDetector \<Rightarrow> 'h \<Rightarrow> nat \<Rightarrow> headers \<Rightarrow> ('c http_response, unit) outcome" where
  "terminal_response pe det request_hasher up_st up_hs =
     (let cr = re_crypto (pe_receipt pe);
          status = (if 100 \<le> up_st \<and> up_st < 1000 then up_st else 502);
          (receipt, signature) = terminal_receipt pe det request_hasher in
      case pe_terminal_to_vec pe receipt signature of
        None \<Rightarrow> Panic
      | Some terminal_body \<Rightarrow>
          Ok \<lparr>rs_status = status,
              rs_headers = (case header_get up_hs ''retry-after'' of
                  Some v \<Rightarrow> [(''retry-after'', v)] | None \<Rightarrow> []) @
                [(''content-type'', ''application/json''),
                 (''x-redaction-digest'', to_hex cr (blake3_hash cr terminal_body))],
              rs_body = Full terminal_body\<rparr>)"

text \<open>
  The rules are read twice: \<open>st\<close> is the state when the digest for the receipt is taken, \<open>st'\<close> the state
  when the task's rules are, after the upstream has answered. \<open>upstream_url\<close> is the configured
  address; the request's hasher gets the address \<open>addr\<close>.
\<close>

definition proxy_with_upstream ::
  "http_lib \<Rightarrow> ('h, 'k) proxy_env \<Rightarrow> bytes \<Rightarrow> nat \<Rightarrow> AppState \<Rightarrow> AppState \<Rightarrow> http_request \<Rightarrow>
     (stream_start http_response, unit) outcome" where
  "proxy_with_upstream lib pe upstream_url addr st st' req =
     (let cr = re_crypto (pe_receipt pe);
          tenant_id = tenant_of req;
          receipt_policy_digest = policy_digest (pe_rules_to_vec pe) (\<lambda>b. to_hex cr (blake3_hash cr b)) (as_engine_state st) in
      case (case pe_pcr0_hash pe of Some v \<Rightarrow> Some v | None \<Rightarrow> pe_mock_pcr0 pe) of
        None \<Rightarrow> Panic
      | Some receipt_pcr0 \<Rightarrow>
          if \<not> pe_stream_permit pe then Ok (status_response 503)
          else if \<not> pe_memory_permit pe
          then Ok \<lparr>rs_status = 503, rs_headers = [], rs_body = Full ''proxy memory capacity exhausted''\<rparr>
          else case pe_send pe (build_upstream_request upstream_url req) of
            Send_error error \<Rightarrow> Ok (status_response (if contains_body_limit_error error then 413 else 502))
          | Send_timeout \<Rightarrow> Ok (status_response 502)
          | Send_ok up \<Rightarrow>
              let det = DoneDetector_new (request_id_of lib req) (pe_hex pe tenant_id) upstream_url addr
                          receipt_policy_digest receipt_pcr0 in
              if \<not> is_success (up_status up)
              then terminal_response pe det (hash_request cr (take (pe_consumed pe (rq_body req)) (rq_body req)))
                     (up_status up) (up_headers up)
              else Ok \<lparr>rs_status = 200,
                rs_headers = (case header_get (up_headers up) ''content-type'' of
                    Some ct \<Rightarrow> [(''content-type'', ct)] | None \<Rightarrow> []),
                rs_body = Streaming \<lparr>ss_is_sse = is_event_stream lib (up_headers up),
                  ss_engine = as_engine_state st', ss_detector = det, ss_tenant = tenant_id,
                  ss_capacity = OUTPUT_BYTE_BUDGET, ss_items = 32, ss_events = up_events up\<rparr>\<rparr>)"

text \<open>
  The handler of the completions route. What differs from call to call: the environment of the request, the
  layer that gives it an identifier, the address of the hasher, the state when the rules are read
  the second time, and the address a semaphore gets if the tenant has none yet (\<open>ByteBudget::with_tenant\<close>, when a
  stream starts).
\<close>

record ('h, 'k) call_env =
  ce_env :: "('h, 'k) proxy_env"
  ce_set_id :: "http_request \<Rightarrow> http_request"
  ce_addr :: nat
  ce_later :: "AppState \<Rightarrow> AppState"
  ce_semaphore :: nat

definition tenant_entry :: "nat \<Rightarrow> bytes \<Rightarrow> (bytes \<Rightarrow> nat option) \<Rightarrow> (bytes \<Rightarrow> nat option)" where
  "tenant_entry fresh tenant m = (case m tenant of Some _ \<Rightarrow> m | None \<Rightarrow> m(tenant := Some fresh))"

definition proxy_handler :: "http_lib \<Rightarrow> ('h, 'k) call_env \<Rightarrow> stream_start handler" where
  "proxy_handler lib ce st req =
     (case proxy_with_upstream lib (ce_env ce) (as_upstream_url st) (ce_addr ce) st (ce_later ce st) req of
        Ok resp \<Rightarrow>
          (case rs_body resp of
             Streaming ss \<Rightarrow>
               (st\<lparr>as_tenant_budgets := tenant_entry (ce_semaphore ce) (ss_tenant ss) (as_tenant_budgets st)\<rparr>, resp)
           | _ \<Rightarrow> (st, resp))
      | _ \<Rightarrow> (st, \<lparr>rs_status = 0, rs_headers = [], rs_body = Aborted\<rparr>))"

text \<open>The entry is the one that \<open>with_tenant\<close> makes in the shared map.\<close>

lemma with_tenant_entry:
  assumes "with_tenant ops w tenant m global cap = (Ok (w', budget) :: (_, 'e) outcome)"
  shows "w_maps w' m = tenant_entry (bb_semaphore budget) tenant (w_maps w m)"
  using assms by (cases "w_maps w m tenant")
    (auto simp: with_tenant_def tenant_entry_def alloc_sem_def Let_def split: if_splits)

lemma tenant_entry_change:
  "tenant_entry fresh tenant m \<noteq> m \<longleftrightarrow> m tenant = None"
  by (auto simp: tenant_entry_def fun_upd_idem_iff split: option.splits dest: fun_cong [of _ _ tenant])

text \<open>The handler changes no more than that entry, and only for the tenant it is called for.\<close>

lemma streaming_tenant:
  assumes "proxy_with_upstream lib pe url addr st st' req = Ok resp" and "rs_body resp = Streaming ss"
  shows "ss_tenant ss = tenant_of req"
  using assms by (auto simp: proxy_with_upstream_def status_response_def terminal_response_def Let_def
      split: option.splits if_splits send_result.splits prod.splits)

lemma proxy_handler_state:
  "fst (proxy_handler lib ce st req) = st
   \<or> fst (proxy_handler lib ce st req)
      = st\<lparr>as_tenant_budgets := tenant_entry (ce_semaphore ce) (tenant_of req) (as_tenant_budgets st)\<rparr>"
  by (auto simp: proxy_handler_def streaming_tenant split: outcome.splits content.splits)

text \<open>The gauge of active streams: raised when an event stream starts, lowered by the task's guard.\<close>

definition increment_active_sse_streams :: "64 word \<Rightarrow> 64 word" where
  "increment_active_sse_streams n = n + 1"

definition decrement_active_sse_streams :: "64 word \<Rightarrow> 64 word" where
  "decrement_active_sse_streams n = n - 1"

text \<open>The start of the spawned task.\<close>

definition start_task ::
  "('h, 'k) crypto \<Rightarrow> stream_start \<Rightarrow> 'q \<Rightarrow> (('h, 'q) task, unit) outcome" where
  "start_task cr ss q =
     obind (from_state (ss_engine ss)) (\<lambda>redactor.
       Ok \<lparr>tk_redactor = redactor, tk_hasher = hasher_new cr, tk_detector = ss_detector ss, tk_queue = q\<rparr>)"

end
