(* ===== verification/RustStr.thy ===== *)
theory RustStr
  imports Prelude
begin

text \<open>
  The functions of Rust's \<open>str\<close> the configuration, the host relay and the start-up code use:
  \<open>trim\<close>, \<open>split\<close>, \<open>split_once\<close>, \<open>rsplit_once\<close>, \<open>split_whitespace\<close>, \<open>lines\<close> and the parser of decimal
  numbers, on the bytes of the UTF-8 encoding.
\<close>

section \<open>Strings\<close>

text \<open>The encodings of the characters with the Unicode property \<open>White_Space\<close>.\<close>

definition whitespace :: "bytes list" where
  "whitespace =
     [[CHR 0x09], [CHR 0x0A], [CHR 0x0B], [CHR 0x0C], [CHR 0x0D], [CHR 0x20],
      [CHR 0xC2, CHR 0x85], [CHR 0xC2, CHR 0xA0], [CHR 0xE1, CHR 0x9A, CHR 0x80]] @
     map (\<lambda>c. [CHR 0xE2, CHR 0x80, c])
       [CHR 0x80, CHR 0x81, CHR 0x82, CHR 0x83, CHR 0x84, CHR 0x85, CHR 0x86, CHR 0x87, CHR 0x88, CHR 0x89, CHR 0x8A] @
     [[CHR 0xE2, CHR 0x80, CHR 0xA8], [CHR 0xE2, CHR 0x80, CHR 0xA9], [CHR 0xE2, CHR 0x80, CHR 0xAF],
      [CHR 0xE2, CHR 0x81, CHR 0x9F], [CHR 0xE3, CHR 0x80, CHR 0x80]]"

text \<open>Removing sequences of a list from the front as long as one is there.\<close>

function strip_front :: "bytes list \<Rightarrow> bytes \<Rightarrow> bytes" where
  "strip_front ws s =
     (case find (\<lambda>w. w \<noteq> [] \<and> prefix w s) ws of
        None \<Rightarrow> s
      | Some w \<Rightarrow> strip_front ws (drop (length w) s))"
  by auto

termination
proof (relation "measure (\<lambda>(ws, s). length s)")
  fix ws s w
  assume "find (\<lambda>w. w \<noteq> [] \<and> prefix w s) ws = Some w"
  then have "w \<noteq> []" "prefix w s" by (auto simp: find_Some_iff)
  then have "0 < length w" "length w \<le> length s" using prefix_length_le by auto
  then have "length s - length w < length s" by linarith
  then show "((ws, drop (length w) s), (ws, s)) \<in> measure (\<lambda>(ws, s). length s)" by simp
qed simp

declare strip_front.simps [simp del]

definition trim_start :: "bytes \<Rightarrow> bytes" where
  "trim_start s = strip_front whitespace s"

definition trim_end :: "bytes \<Rightarrow> bytes" where
  "trim_end s = rev (strip_front (map rev whitespace) (rev s))"

definition trim :: "bytes \<Rightarrow> bytes" where
  "trim s = trim_end (trim_start s)"

text \<open>\<open>s.split(cs)\<close> for a set of single-byte characters: one piece more than there are separators.\<close>

fun split_on :: "(byte \<Rightarrow> bool) \<Rightarrow> bytes \<Rightarrow> bytes list" where
  "split_on sep [] = [[]]"
| "split_on sep (c # cs) =
     (if sep c then [] # split_on sep cs
      else case split_on sep cs of [] \<Rightarrow> [[c]] | p # ps \<Rightarrow> (c # p) # ps)"

definition strip_cr :: "bytes \<Rightarrow> bytes" where
  "strip_cr l = (if l \<noteq> [] \<and> last l = CHR 0x0D then butlast l else l)"

text \<open>
  \<open>str::lines\<close>: the pieces between line feeds; a carriage return in front of a line feed goes with it,
  and there is no line behind a final line feed.
\<close>

definition lines :: "bytes \<Rightarrow> bytes list" where
  "lines s =
     (let ps = split_on (\<lambda>c. c = CHR 0x0A) s in
      map strip_cr (butlast ps) @ (if last ps = [] then [] else [last ps]))"

text \<open>\<open>split_once(':')\<close>\<close>

fun split_once :: "byte \<Rightarrow> bytes \<Rightarrow> (bytes \<times> bytes) option" where
  "split_once sep [] = None"
| "split_once sep (c # cs) =
     (if c = sep then Some ([], cs) else map_option (\<lambda>(a, b). (c # a, b)) (split_once sep cs))"

definition rsplit_once :: "byte \<Rightarrow> bytes \<Rightarrow> (bytes \<times> bytes) option" where
  "rsplit_once sep s = map_option (\<lambda>(b, a). (rev a, rev b)) (split_once sep (rev s))"

text \<open>\<open>split_whitespace\<close>: the maximal pieces without white space; \<open>acc\<close> is the piece being read.\<close>

definition piece :: "bytes \<Rightarrow> bytes list" where
  "piece acc = (if acc = [] then [] else [acc])"

function split_whitespace :: "bytes \<Rightarrow> bytes \<Rightarrow> bytes list" where
  "split_whitespace acc s =
     (case find (\<lambda>w. w \<noteq> [] \<and> prefix w s) whitespace of
        Some w \<Rightarrow> piece acc @ split_whitespace [] (drop (length w) s)
      | None \<Rightarrow> (case s of [] \<Rightarrow> piece acc | c # cs \<Rightarrow> split_whitespace (acc @ [c]) cs))"
  by auto

termination
proof (relation "measure (\<lambda>(acc, s). length s)")
  fix acc :: bytes and s w
  assume "find (\<lambda>w. w \<noteq> [] \<and> prefix w s) whitespace = Some w"
  then have "w \<noteq> []" "prefix w s" by (auto simp: find_Some_iff)
  then have "0 < length w" "length w \<le> length s" using prefix_length_le by auto
  then have "length s - length w < length s" by linarith
  then show "(([], drop (length w) s), (acc, s)) \<in> measure (\<lambda>(acc, s). length s)" by simp
qed simp_all

declare split_whitespace.simps [simp del]

text \<open>
  \<open>str::parse\<close> for an unsigned integer with the maximal value \<open>limit\<close>: an optional plus sign and
  decimal digits, an error as soon as the value exceeds the type.
\<close>

definition digit_value :: "byte \<Rightarrow> nat option" where
  "digit_value c = (let n = of_char c :: nat in if 48 \<le> n \<and> n \<le> 57 then Some (n - 48) else None)"

fun parse_digits :: "nat \<Rightarrow> nat \<Rightarrow> bytes \<Rightarrow> nat option" where
  "parse_digits limit acc [] = Some acc"
| "parse_digits limit acc (c # cs) =
     (case digit_value c of
        None \<Rightarrow> None
      | Some d \<Rightarrow> if acc * 10 + d \<le> limit then parse_digits limit (acc * 10 + d) cs else None)"

definition parse_unsigned :: "nat \<Rightarrow> bytes \<Rightarrow> nat option" where
  "parse_unsigned limit s =
     (let ds = (if s \<noteq> [] \<and> hd s = CHR 0x2B \<and> tl s \<noteq> [] then tl s else s) in
      if ds = [] then None else parse_digits limit 0 ds)"

text \<open>The decimal representation of a number, as \<open>to_string\<close> prints it.\<close>

fun decimal :: "nat \<Rightarrow> bytes" where
  "decimal n = (if n < 10 then [char_of (48 + n)] else decimal (n div 10) @ [char_of (48 + n mod 10)])"

declare decimal.simps [simp del]

section \<open>Numbers\<close>

lemma digit_value_char [simp]: "d < 10 \<Longrightarrow> digit_value (char_of (48 + d)) = Some d"
  by (simp add: digit_value_def Let_def)

lemma parse_digits_append:
  "parse_digits limit acc (xs @ ys) = Option.bind (parse_digits limit acc xs) (\<lambda>v. parse_digits limit v ys)"
  by (induction xs arbitrary: acc) (auto split: option.splits)

lemma decimal_ne [simp]: "decimal n \<noteq> []"
  by (subst decimal.simps) simp

lemma decimal_digits: "c \<in> set (decimal n) \<Longrightarrow> digit_value c \<noteq> None"
proof (induction n rule: decimal.induct)
  case (1 n)
  show ?case
  proof (cases "n < 10")
    case True
    then show ?thesis using 1(2) by (simp add: decimal.simps [of n])
  next
    case False
    then show ?thesis using 1 by (auto simp: decimal.simps [of n])
  qed
qed

lemma parse_decimal: "n \<le> limit \<Longrightarrow> parse_digits limit 0 (decimal n) = Some n"
proof (induction n rule: decimal.induct)
  case (1 n)
  show ?case
  proof (cases "n < 10")
    case True
    then show ?thesis using 1(2) by (simp add: decimal.simps [of n])
  next
    case False
    then have "parse_digits limit 0 (decimal (n div 10)) = Some (n div 10)" using 1 by auto
    then show ?thesis using False 1(2) by (simp add: decimal.simps [of n] parse_digits_append)
  qed
qed

lemma parse_unsigned_decimal: "n \<le> limit \<Longrightarrow> parse_unsigned limit (decimal n) = Some n"
proof -
  assume n: "n \<le> limit"
  have "digit_value (CHR 0x2B) = None" by (simp add: digit_value_def)
  then have "hd (decimal n) \<noteq> CHR 0x2B" using decimal_digits [of "hd (decimal n)" n] hd_in_set [OF decimal_ne] by metis
  then show ?thesis using n by (simp add: parse_unsigned_def parse_decimal)
qed

lemma parse_digits_bound: "parse_digits limit acc s = Some n \<Longrightarrow> acc \<le> limit \<Longrightarrow> n \<le> limit"
  by (induction limit acc s rule: parse_digits.induct) (auto split: option.splits if_splits)

lemma parse_unsigned_bound: "parse_unsigned limit s = Some n \<Longrightarrow> n \<le> limit"
  using parse_digits_bound [of limit 0] by (auto simp: parse_unsigned_def Let_def split: if_splits)

section \<open>Trimming\<close>

lemma strip_front_suffix: "suffix (strip_front ws s) s"
proof (induction ws s rule: strip_front.induct)
  case (1 ws s)
  show ?case
  proof (cases "find (\<lambda>w. w \<noteq> [] \<and> prefix w s) ws")
    case None
    then show ?thesis by (simp add: strip_front.simps [of ws s])
  next
    case (Some w)
    then have "suffix (strip_front ws (drop (length w) s)) (drop (length w) s)" by (rule 1)
    then have "suffix (strip_front ws (drop (length w) s)) s" by (rule suffix_order.trans) (rule suffix_drop)
    then show ?thesis using Some by (simp add: strip_front.simps [of ws s])
  qed
qed

text \<open>No sequence of \<open>ws\<close> is at the front.\<close>

definition clean_front :: "bytes list \<Rightarrow> bytes \<Rightarrow> bool" where
  "clean_front ws s \<longleftrightarrow> (\<forall>w \<in> set ws. w \<noteq> [] \<longrightarrow> \<not> prefix w s)"

lemma clean_front_find: "clean_front ws s \<longleftrightarrow> find (\<lambda>w. w \<noteq> [] \<and> prefix w s) ws = None"
  by (auto simp: clean_front_def find_None_iff)

lemma strip_front_clean: "clean_front ws (strip_front ws s)"
proof (induction ws s rule: strip_front.induct)
  case (1 ws s)
  then show ?case
    by (cases "find (\<lambda>w. w \<noteq> [] \<and> prefix w s) ws") (simp_all add: strip_front.simps [of ws s] clean_front_find)
qed

lemma strip_front_id: "clean_front ws s \<longleftrightarrow> strip_front ws s = s"
proof
  assume "clean_front ws s"
  then show "strip_front ws s = s" by (simp add: strip_front.simps [of ws s] clean_front_find)
next
  assume "strip_front ws s = s"
  then show "clean_front ws s" using strip_front_clean [of ws s] by simp
qed

lemma clean_front_prefix: "clean_front ws s \<Longrightarrow> prefix t s \<Longrightarrow> clean_front ws t"
  unfolding clean_front_def using prefix_order.trans by blast

definition clean :: "bytes \<Rightarrow> bool" where
  "clean s \<longleftrightarrow> clean_front whitespace s \<and> clean_front (map rev whitespace) (rev s)"

lemma trim_end_prefix: "prefix (trim_end s) s"
  using strip_front_suffix [of "map rev whitespace" "rev s"]
  by (simp add: trim_end_def suffix_to_prefix)

lemma trim_clean: "clean (trim s)"
proof -
  have "clean_front whitespace (trim_start s)" by (simp add: trim_start_def strip_front_clean)
  then have "clean_front whitespace (trim s)"
    unfolding trim_def using trim_end_prefix by (rule clean_front_prefix)
  moreover have "clean_front (map rev whitespace) (rev (trim s))"
    by (simp add: trim_def trim_end_def strip_front_clean)
  ultimately show ?thesis by (simp add: clean_def)
qed

lemma clean_iff: "clean s \<longleftrightarrow> trim s = s"
proof
  assume "clean s"
  then show "trim s = s" by (simp add: clean_def strip_front_id trim_def trim_start_def trim_end_def)
next
  assume "trim s = s"
  then show "clean s" using trim_clean [of s] by simp
qed

lemma set_trim: "set (trim s) \<subseteq> set s"
proof -
  have "set (trim_end t) \<subseteq> set t" for t using trim_end_prefix by (rule set_mono_prefix)
  moreover have "set (trim_start t) \<subseteq> set t" for t
    unfolding trim_start_def using strip_front_suffix by (rule set_mono_suffix)
  ultimately show ?thesis unfolding trim_def by blast
qed

section \<open>Splitting\<close>

lemma split_on_ne [simp]: "split_on sep s \<noteq> []"
  by (cases s) (auto split: list.splits)

lemma split_on_pieces: "p \<in> set (split_on sep s) \<Longrightarrow> c \<in> set p \<Longrightarrow> \<not> sep c"
proof (induction sep s arbitrary: p rule: split_on.induct)
  case (2 sep d ds)
  then show ?case by (fastforce split: if_splits list.splits)
qed simp

lemma split_on_none: "\<forall>c \<in> set s. \<not> sep c \<Longrightarrow> split_on sep s = [s]"
  by (induction s) auto

lemma split_on_append: "\<forall>c \<in> set s. \<not> sep c \<Longrightarrow> sep d \<Longrightarrow> split_on sep (s @ d # t) = s # split_on sep t"
  by (induction s) auto

lemma split_once_append: "sep \<notin> set a \<Longrightarrow> split_once sep (a @ sep # b) = Some (a, b)"
  by (induction a) auto

lemma split_once_parts: "split_once sep s = Some (a, b) \<Longrightarrow> s = a @ sep # b"
  by (induction s arbitrary: a) (auto split: if_splits)

lemma clean_front_append:
  assumes "clean_front ws p" "p \<noteq> []" "\<forall>w \<in> set ws. c \<notin> set w"
  shows "clean_front ws (p @ c # t)"
  unfolding clean_front_def
proof (intro ballI impI notI)
  fix w
  assume w: "w \<in> set ws" "w \<noteq> []" "prefix w (p @ c # t)"
  show False
  proof (cases "length w \<le> length p")
    case True
    then have "prefix w p" using w(3) by (metis prefix_length_prefix prefixI)
    then show False using assms(1) w by (auto simp: clean_front_def)
  next
    case False
    then have "prefix (p @ [c]) w" using w(3)
      by (metis Suc_leI append.assoc append_Cons append_Nil length_append_singleton not_le prefixI prefix_length_prefix)
    then show False using assms(3) w(1) by (auto simp: prefix_def)
  qed
qed

lemma split_on_join:
  "s = hd (split_on (\<lambda>c. c = d) s) @ concat (map (\<lambda>p. d # p) (tl (split_on (\<lambda>c. c = d) s)))"
proof (induction s)
  case (Cons c s)
  then show ?case by (cases "split_on (\<lambda>c. c = d) s") auto
qed simp

lemma rsplit_once_append: "c \<notin> set b \<Longrightarrow> rsplit_once c (a @ c # b) = Some (a, b)"
  using split_once_append [of c "rev b" "rev a"] by (simp add: rsplit_once_def)

lemma split_once_first: "split_once sep s = Some (a, b) \<Longrightarrow> sep \<notin> set a"
  by (induction s arbitrary: a) (auto split: if_splits)

lemma rsplit_once_parts: "rsplit_once c s = Some (a, b) \<Longrightarrow> s = a @ c # b \<and> c \<notin> set b"
  using split_once_parts [of c "rev s" "rev b" "rev a"] split_once_first [of c "rev s" "rev b" "rev a"]
  by (auto simp: rsplit_once_def rev_swap)

lemma rsplit_once_None: "rsplit_once c s = None \<longleftrightarrow> c \<notin> set s"
proof
  assume n: "rsplit_once c s = None"
  show "c \<notin> set s"
  proof
    assume "c \<in> set s"
    then obtain ys zs where "s = ys @ c # zs" "c \<notin> set zs" by (meson split_list_last)
    then show False using n rsplit_once_append by simp
  qed
next
  assume "c \<notin> set s"
  then show "rsplit_once c s = None" using rsplit_once_parts [of c s] by (cases "rsplit_once c s") auto
qed

text \<open>Words of printable ASCII characters are separated by a single space.\<close>

definition graphic :: "byte \<Rightarrow> bool" where
  "graphic c \<longleftrightarrow> c \<notin> set (map hd whitespace)"

lemma whitespace_ne: "list_all (\<lambda>w. w \<noteq> []) whitespace"
  by code_simp

lemma graphic_no_whitespace:
  assumes "graphic c"
  shows "find (\<lambda>w. w \<noteq> [] \<and> prefix w (c # s)) whitespace = None"
proof -
  have "\<not> (w \<noteq> [] \<and> prefix w (c # s))" if "w \<in> set whitespace" for w
    using assms that by (cases w) (force simp: graphic_def)+
  then show ?thesis by (auto simp: find_None_iff)
qed

lemma split_whitespace_word:
  "list_all graphic word \<Longrightarrow> split_whitespace acc (word @ s) = split_whitespace (acc @ word) s"
proof (induction word arbitrary: acc)
  case (Cons c word)
  then have "split_whitespace acc (c # word @ s) = split_whitespace (acc @ [c]) (word @ s)"
    by (subst split_whitespace.simps) (simp add: graphic_no_whitespace)
  then show ?case using Cons by simp
qed simp

lemma split_whitespace_space:
  "split_whitespace acc (CHR '' '' # s) = piece acc @ split_whitespace [] s"
  by (subst split_whitespace.simps) (simp add: whitespace_def)

lemma split_whitespace_end [simp]: "split_whitespace acc [] = piece acc"
  by (subst split_whitespace.simps) (simp add: whitespace_def)

end
