(* ===== verification/Admission.thy ===== *)
theory Admission
  imports StreamTask Detection Redaction RustStr
begin

text \<open>
  Correctness of the HTTP front: what each middleware lets through, that the composed router changes
  the rules only for the administrator and reaches the proxy only for a known tenant, and that no
  more than the maximal body size is ever passed on.
\<close>

section \<open>Middlewares as guards\<close>

text \<open>
  A guard decides on the state and the request alone whether the rest of the stack runs, and on which
  request; if it does not run, the state stays and the answer does not depend on it.
\<close>

locale guard =
  fixes mw :: "'c middleware" and admits :: "AppState \<Rightarrow> http_request \<Rightarrow> http_request option"
  assumes rejects: "admits st req = None \<Longrightarrow> fst (mw next st req) = st \<and> mw next st req = mw next' st req"
    and passes: "admits st req = Some req' \<Longrightarrow> fst (mw next st req) = fst (next st req')
      \<and> rs_status (snd (mw next st req)) = rs_status (snd (next st req'))"
    and depends: "admits st req = Some req' \<Longrightarrow> next st req' = next' st req' \<Longrightarrow> mw next st req = mw next' st req"
begin

lemma state_change:
  assumes "fst (mw next st req) \<noteq> st"
  shows "\<exists>req'. admits st req = Some req' \<and> fst (mw next st req) = fst (next st req')"
proof (cases "admits st req")
  case None
  from rejects [OF this, of "next"] assms show ?thesis by simp
next
  case (Some req')
  from passes [OF this, of "next"] Some show ?thesis by simp
qed

lemma keeps_state: "(\<And>req'. fst (next st req') = st) \<Longrightarrow> fst (mw next st req) = st"
  using state_change [of "next" st req] by metis

end

text \<open>Two guards one behind the other are a guard.\<close>

locale guard_stack = outer: guard m1 a1 + inner: guard m2 a2 for m1 m2 :: "'c middleware" and a1 a2

sublocale guard_stack \<subseteq> stack: guard "\<lambda>next. m1 (m2 next)" "\<lambda>st req. Option.bind (a1 st req) (a2 st)"
proof
  fix st req and "next" next' :: "'c handler"
  assume none: "Option.bind (a1 st req) (a2 st) = None"
  show "fst (m1 (m2 next) st req) = st \<and> m1 (m2 next) st req = m1 (m2 next') st req"
  proof (cases "a1 st req")
    case None
    then show ?thesis using outer.rejects by blast
  next
    case (Some req1)
    with none have "a2 st req1 = None" by simp
    from inner.rejects [OF this, of "next" next'] outer.passes [OF Some, of "m2 next"]
      outer.depends [OF Some, of "m2 next" "m2 next'"] show ?thesis by metis
  qed
next
  fix st req req' and "next" next' :: "'c handler"
  assume "Option.bind (a1 st req) (a2 st) = Some req'"
  then obtain req1 where 1: "a1 st req = Some req1" "a2 st req1 = Some req'"
    by (auto simp: Option.bind_eq_Some_conv)
  show "fst (m1 (m2 next) st req) = fst (next st req')
      \<and> rs_status (snd (m1 (m2 next) st req)) = rs_status (snd (next st req'))"
    using outer.passes [OF 1(1), of "m2 next"] inner.passes [OF 1(2), of "next"] by simp
  show "next st req' = next' st req' \<Longrightarrow> m1 (m2 next) st req = m1 (m2 next') st req"
    using outer.depends [OF 1(1), of "m2 next" "m2 next'"] inner.depends [OF 1(2), of "next" next'] by simp
qed

section \<open>What each middleware admits\<close>

definition limit_admits :: "http_lib \<Rightarrow> AppState \<Rightarrow> http_request \<Rightarrow> http_request option" where
  "limit_admits lib st req =
     (case Option.bind (Option.bind (header_get (rq_headers req) ''content-length'') (hv_to_str lib)) parse_usize of
        Some len \<Rightarrow> if len > MAX_BODY_SIZE then None else Some (req\<lparr>rq_body := limited_stream 0 (rq_body req)\<rparr>)
      | None \<Rightarrow> Some (req\<lparr>rq_body := limited_stream 0 (rq_body req)\<rparr>))"

definition tenant_admits :: "http_lib \<Rightarrow> AppState \<Rightarrow> http_request \<Rightarrow> http_request option" where
  "tenant_admits lib st req =
     (case bearer_token lib req of
        Some token \<Rightarrow> if token_hash lib token \<in> set (as_auth_keyring st)
                      then Some (req\<lparr>rq_tenant := Some (token_hash lib token)\<rparr>) else None
      | None \<Rightarrow> None)"

definition admin_admits :: "http_lib \<Rightarrow> AppState \<Rightarrow> http_request \<Rightarrow> http_request option" where
  "admin_admits lib st req =
     (case bearer_token lib req of
        Some token \<Rightarrow> if token_hash lib token = as_admin_bearer_token_hash st then Some req else None
      | None \<Rightarrow> None)"

definition request_origin :: "http_lib \<Rightarrow> http_request \<Rightarrow> bytes option" where
  "request_origin lib req = Option.bind (header_get (rq_headers req) ''origin'') (hv_to_str lib)"

definition cors_admits :: "http_lib \<Rightarrow> AppState \<Rightarrow> http_request \<Rightarrow> http_request option" where
  "cors_admits lib st req =
     (if (\<forall>origin. request_origin lib req = Some origin \<longrightarrow> origin \<in> set (as_allowed_origins st))
         \<and> rq_method req \<noteq> ''OPTIONS'' then Some req else None)"

lemma foldl_any: "foldl (\<lambda>a v. a \<or> x = v) b vs \<longleftrightarrow> b \<or> x \<in> set vs"
  by (induction vs arbitrary: b) auto

lemma list_ex_mem: "list_ex (\<lambda>v. x = v) vs \<longleftrightarrow> x \<in> set vs" "list_ex (\<lambda>v. v = x) vs \<longleftrightarrow> x \<in> set vs"
  by (auto simp: list_ex_iff)

interpretation body_limit: guard "enforce_body_limit lib" "limit_admits lib" for lib
  by unfold_locales (auto simp: enforce_body_limit_def limit_admits_def split: option.splits if_splits)

interpretation tenant_auth: guard "require_auth lib" "tenant_admits lib" for lib
  by unfold_locales
    (auto simp: require_auth_def tenant_admits_def foldl_any Let_def split: option.splits if_splits)

interpretation admin_auth: guard "auth_middleware lib" "admin_admits lib" for lib
  by unfold_locales
    (auto simp: auth_middleware_def admin_admits_def Let_def split: option.splits if_splits)

interpretation cors: guard "cors_middleware lib" "cors_admits lib" for lib
  by unfold_locales
    (auto simp: cors_middleware_def cors_admits_def request_origin_def list_ex_mem Let_def
      split: option.splits if_splits prod.splits Option.bind_splits)

interpretation front: guard_stack "cors_middleware lib" "enforce_body_limit lib" "cors_admits lib" "limit_admits lib"
  for lib by unfold_locales

section \<open>The body limit\<close>

text \<open>An error and its sources, outermost first.\<close>

text \<open>\<open>Display\<close> and \<open>Error::source\<close> of \<open>RequestBodyError\<close>; an error of another crate has a message and a source.\<close>

primrec error_fmt :: "error_value \<Rightarrow> bytes" where
  "error_fmt (LimitExceeded limit) = ''request body exceeded '' @ decimal limit @ '' bytes''"
| "error_fmt (Upstream error) = ''request body stream failed: '' @ error_fmt error"
| "error_fmt (Other m s) = m"

primrec error_source :: "error_value \<Rightarrow> error_value option" where
  "error_source (LimitExceeded limit) = None"
| "error_source (Upstream error) = Some error"
| "error_source (Other m s) = s"

lemma error_source_size: "error_source e = Some e' \<Longrightarrow> size e' < size e"
  by (cases e) auto

text \<open>\<open>contains_body_limit_error\<close> follows the sources.\<close>

lemma contains_body_limit_error_source:
  "contains_body_limit_error e \<longleftrightarrow>
     (\<exists>limit. e = LimitExceeded limit) \<or> (\<exists>e'. error_source e = Some e' \<and> contains_body_limit_error e')"
  by (cases e rule: contains_body_limit_error.cases) auto

text \<open>What is logged about an error names the limit that a request exceeded, wherever in the chain it is.\<close>

lemma error_fmt_limit:
  "sublist (''request body exceeded '' @ decimal limit @ '' bytes'') (error_fmt ((Upstream ^^ n) (LimitExceeded limit)))"
proof (induction n)
  case (Suc n)
  then obtain a b where "error_fmt ((Upstream ^^ n) (LimitExceeded limit)) = a @ (''request body exceeded '' @ decimal limit @ '' bytes'') @ b"
    by (auto simp: sublist_def)
  then show ?case unfolding sublist_def
    by (intro exI [of _ "''request body stream failed: '' @ a"] exI [of _ b]) simp
qed simp

fun error_chain :: "error_value \<Rightarrow> error_value list" where
  "error_chain (LimitExceeded n) = [LimitExceeded n]"
| "error_chain (Upstream e) = Upstream e # error_chain e"
| "error_chain (Other m None) = [Other m None]"
| "error_chain (Other m (Some e)) = Other m (Some e) # error_chain e"

definition data_of :: "body_item list \<Rightarrow> bytes" where
  "data_of items = concat (map (\<lambda>i. case i of Inl _ \<Rightarrow> [] | Inr b \<Rightarrow> b) items)"

lemma data_of_simps [simp]:
  "data_of [] = []" "data_of (Inr b # r) = b @ data_of r" "data_of (Inl e # r) = data_of r"
  by (simp_all add: data_of_def)

lemma limited_stream_over: "t > MAX_BODY_SIZE \<Longrightarrow> data_of (limited_stream t items) = []"
proof (induction t items rule: limited_stream.induct)
  case (2 t b rest)
  then have "saturating_add t (length b) > MAX_BODY_SIZE" by (simp add: saturating_add_def MAX_BODY_SIZE_def)
  then show ?case using 2 by simp
qed simp_all

lemma limited_stream_data:
  "t \<le> MAX_BODY_SIZE \<Longrightarrow> prefix (data_of (limited_stream t items)) (data_of items)
     \<and> t + length (data_of (limited_stream t items)) \<le> MAX_BODY_SIZE
     \<and> (t + length (data_of items) \<le> MAX_BODY_SIZE \<longrightarrow> data_of (limited_stream t items) = data_of items)
     \<and> (Inl (LimitExceeded MAX_BODY_SIZE) \<in> set (limited_stream t items)
          \<longleftrightarrow> t + length (data_of items) > MAX_BODY_SIZE)"
proof (induction t items rule: limited_stream.induct)
  case (2 t b rest)
  show ?case
  proof (cases "t + length b \<le> MAX_BODY_SIZE")
    case True
    then have "saturating_add t (length b) = t + length b" by (simp add: saturating_add_def MAX_BODY_SIZE_def)
    then show ?thesis using 2 True by (simp add: ac_simps)
  next
    case False
    then have sat: "saturating_add t (length b) > MAX_BODY_SIZE" by (simp add: saturating_add_def MAX_BODY_SIZE_def)
    then show ?thesis using 2(3) False limited_stream_over [OF sat, of rest] by simp
  qed
qed simp_all

text \<open>
  C28: The body limit: the data the body limit passes on is a prefix of the request body of at most
  two mebibytes; a body within the limit passes unchanged, and a body beyond it ends in a
  limit error, however it is chunked.
\<close>
theorem body_limit_enforced:
  "prefix (data_of (limited_stream 0 items)) (data_of items)
     \<and> length (data_of (limited_stream 0 items)) \<le> MAX_BODY_SIZE
     \<and> (data_of (limited_stream 0 items) = data_of items
          \<longleftrightarrow> Inl (LimitExceeded MAX_BODY_SIZE) \<notin> set (limited_stream 0 items))
     \<and> (Inl (LimitExceeded MAX_BODY_SIZE) \<in> set (limited_stream 0 items)
          \<longleftrightarrow> length (data_of items) > MAX_BODY_SIZE)"
proof -
  note l = limited_stream_data [of 0 items, simplified]
  have "data_of (limited_stream 0 items) = data_of items \<longleftrightarrow> length (data_of items) \<le> MAX_BODY_SIZE"
    using l by auto
  then show ?thesis using l by auto
qed

text \<open>
  Every error that a body beyond the limit causes is recognised: whatever errors of other crates
  wrap it, \<open>contains_body_limit_error\<close> finds a limit error exactly when one is in the chain of sources.
\<close>
lemma body_limit_error_found:
  "contains_body_limit_error e \<longleftrightarrow> (\<exists>n. LimitExceeded n \<in> set (error_chain e))"
  by (induction e rule: contains_body_limit_error.induct) auto

section \<open>The request-id layer\<close>

text \<open>
  What tower-http documents of \<open>SetRequestIdLayer\<close> with a generator that always gives an identifier: a request that
  has the header keeps it, and its value becomes the \<open>RequestId\<close> extension unless there is one; otherwise a new
  identifier is set both as extension and as header. Nothing else of the request changes.
\<close>

definition id_layer :: "(http_request \<Rightarrow> http_request) \<Rightarrow> bool" where
  "id_layer set_id \<longleftrightarrow> (\<forall>req.
     case header_get (rq_headers req) ''x-request-id'' of
       Some v \<Rightarrow> set_id req = (if rq_request_id req = None then req\<lparr>rq_request_id := Some v\<rparr> else req)
     | None \<Rightarrow> (\<exists>v. set_id req =
         req\<lparr>rq_request_id := Some v, rq_headers := header_insert ''x-request-id'' v (rq_headers req)\<rparr>))"

lemma header_get_insert: "header_get (header_insert n v hs) m = (if m = n then Some v else header_get hs m)"
  by (induction hs) (auto simp: header_get_def header_insert_def)

lemma id_layer_keeps:
  assumes "id_layer set_id"
  shows "rq_method (set_id req) = rq_method req" "rq_path (set_id req) = rq_path req"
    "rq_body (set_id req) = rq_body req" "rq_tenant (set_id req) = rq_tenant req"
    "n \<noteq> ''x-request-id'' \<Longrightarrow> header_get (rq_headers (set_id req)) n = header_get (rq_headers req) n"
  using assms [unfolded id_layer_def, rule_format, of req]
  by (auto simp: header_get_insert split: option.splits if_splits)

lemma id_layer_front:
  assumes "id_layer set_id"
  shows "bearer_token lib (set_id req) = bearer_token lib req"
    "request_origin lib (set_id req) = request_origin lib req"
    "cors_admits lib st (set_id req) = None \<longleftrightarrow> cors_admits lib st req = None"
    "limit_admits lib st (set_id req) = None \<longleftrightarrow> limit_admits lib st req = None"
  by (simp_all add: bearer_token_def request_origin_def cors_admits_def limit_admits_def id_layer_keeps [OF assms]
      split: option.splits if_splits)

section \<open>The router\<close>

lemma make_router_state:
  "fst (make_router lib build attest route set_id propagate_id p st req) =
     fst (cors_middleware lib (enforce_body_limit lib (routes lib build attest route p)) st (set_id req))"
  by (simp add: make_router_def Let_def split: prod.splits)

text \<open>The request that the handlers get: with its identifier and the limited body.\<close>

definition handled_request :: "(http_request \<Rightarrow> http_request) \<Rightarrow> http_request \<Rightarrow> http_request" where
  "handled_request set_id req = (set_id req)\<lparr>rq_body := limited_stream 0 (rq_body (set_id req))\<rparr>"

lemma handled_request_keeps [simp]:
  "rq_method (handled_request set_id req) = rq_method (set_id req)"
  "rq_path (handled_request set_id req) = rq_path (set_id req)"
  "bearer_token lib (handled_request set_id req) = bearer_token lib (set_id req)"
  by (simp_all add: handled_request_def bearer_token_def)

lemma front_admits:
  assumes "Option.bind (cors_admits lib st (set_id req)) (limit_admits lib st) = Some req'"
  shows "req' = handled_request set_id req"
  using assms by (auto simp: handled_request_def cors_admits_def limit_admits_def split: if_splits option.splits)

lemma router_state:
  "fst (make_router lib build attest route set_id propagate_id p st req) \<noteq> st \<Longrightarrow>
   fst (make_router lib build attest route set_id propagate_id p st req)
     = fst (routes lib build attest route p st (handled_request set_id req))"
  using front.stack.state_change [of lib "routes lib build attest route p" st "set_id req"] front_admits
  by (fastforce simp: make_router_state)

lemma rules_handler_state:
  assumes "fst (rules_handler lib build st req) \<noteq> st"
  shows "\<exists>patterns compiled. json_rules lib req = Inr patterns \<and> patterns \<noteq> []
    \<and> (EngineState_new build patterns (map (\<lambda>_. ''[REDACTED]'') patterns) :: (_, unit) outcome) = Ok compiled
    \<and> fst (rules_handler lib build st req) = st\<lparr>as_engine_state := compiled\<rparr>"
  using assms
  by (auto simp: rules_handler_def update_rules_def split: sum.splits if_splits outcome.splits)

lemma admin_route_state:
  fixes lib build
  defines "rules \<equiv> rules_handler lib build :: 'c handler"
  assumes "fst (auth_middleware lib rules st req) \<noteq> st"
  shows "\<exists>token patterns compiled. bearer_token lib req = Some token
    \<and> token_hash lib token = as_admin_bearer_token_hash st \<and> json_rules lib req = Inr patterns \<and> patterns \<noteq> []
    \<and> (EngineState_new build patterns (map (\<lambda>_. ''[REDACTED]'') patterns) :: (_, unit) outcome) = Ok compiled
    \<and> fst (auth_middleware lib rules st req) = st\<lparr>as_engine_state := compiled\<rparr>"
proof -
  from admin_auth.state_change [OF assms(2)] obtain req' where
    r: "admin_admits lib st req = Some req'"
    and f: "fst (auth_middleware lib rules st req) = fst (rules st req')" by blast
  then have "req' = req" by (auto simp: admin_admits_def split: option.splits if_splits)
  with f assms(2) have f': "fst (auth_middleware lib rules st req) = fst (rules st req)" "fst (rules st req) \<noteq> st" by simp_all
  from rules_handler_state [OF f'(2) [unfolded rules_def]] r show ?thesis
    unfolding f'(1) by (auto simp: rules_def admin_admits_def split: option.splits if_splits)
qed

lemma tenant_route_state:
  assumes "fst (require_auth lib (proxy_handler lib ce) st req) \<noteq> st"
  shows "\<exists>token. bearer_token lib req = Some token \<and> token_hash lib token \<in> set (as_auth_keyring st)
    \<and> as_tenant_budgets st (token_hash lib token) = None
    \<and> fst (require_auth lib (proxy_handler lib ce) st req)
       = st\<lparr>as_tenant_budgets := (as_tenant_budgets st)(token_hash lib token := Some (ce_semaphore ce))\<rparr>"
proof -
  from tenant_auth.state_change [OF assms] obtain req' where
    r: "tenant_admits lib st req = Some req'"
    and f: "fst (require_auth lib (proxy_handler lib ce) st req) = fst (proxy_handler lib ce st req')" by blast
  then obtain token where token: "bearer_token lib req = Some token" "token_hash lib token \<in> set (as_auth_keyring st)"
    "tenant_of req' = token_hash lib token"
    by (auto simp: tenant_admits_def tenant_of_def split: option.splits if_splits)
  have "fst (proxy_handler lib ce st req')
      = st\<lparr>as_tenant_budgets := tenant_entry (ce_semaphore ce) (token_hash lib token) (as_tenant_budgets st)\<rparr>"
    using proxy_handler_state [of lib ce st req'] assms f token(3) by auto
  moreover from this have "as_tenant_budgets st (token_hash lib token) = None"
    using assms f tenant_entry_change [of "ce_semaphore ce" "token_hash lib token" "as_tenant_budgets st"] by auto
  ultimately show ?thesis using f token by (auto simp: tenant_entry_def)
qed

text \<open>What a request to the running proxy changes: the rules, or the entry of a new tenant.\<close>

lemma router_state_change:
  assumes "fst (make_router lib build attest route set_id propagate_id (proxy_handler lib ce) st req) \<noteq> st"
    (is "?st' \<noteq> st")
  shows "(route (rq_method (set_id req)) (rq_path (set_id req)) = Rules
      \<and> (\<exists>token patterns compiled. bearer_token lib (set_id req) = Some token
          \<and> token_hash lib token = as_admin_bearer_token_hash st
          \<and> json_rules lib (handled_request set_id req) = Inr patterns \<and> patterns \<noteq> []
          \<and> (EngineState_new build patterns (map (\<lambda>_. ''[REDACTED]'') patterns) :: (_, unit) outcome) = Ok compiled
          \<and> ?st' = st\<lparr>as_engine_state := compiled\<rparr>))
    \<or> (route (rq_method (set_id req)) (rq_path (set_id req)) = Completions
      \<and> (\<exists>token. bearer_token lib (set_id req) = Some token \<and> token_hash lib token \<in> set (as_auth_keyring st)
          \<and> as_tenant_budgets st (token_hash lib token) = None
          \<and> ?st' = st\<lparr>as_tenant_budgets := (as_tenant_budgets st)(token_hash lib token := Some (ce_semaphore ce))\<rparr>))"
proof -
  let ?req = "handled_request set_id req"
  have eq: "?st' = fst (routes lib build attest route (proxy_handler lib ce) st ?req)" using router_state [OF assms] .
  consider (rules) "route (rq_method ?req) (rq_path ?req) = Rules"
    | (proxy) "route (rq_method ?req) (rq_path ?req) = Completions"
    using assms eq admin_auth.keeps_state [of "admin_metrics lib" st lib ?req]
      tenant_auth.keeps_state [of "\<lambda>st req. (st, status_response 405)" st lib ?req]
      admin_auth.keeps_state [of "\<lambda>st req. (st, status_response 405)" st lib ?req]
    by (auto simp: routes_def admin_metrics_def split: endpoint.splits)
  then show ?thesis
  proof cases
    case rules
    then show ?thesis using assms eq admin_route_state [of lib build st ?req] by (simp add: routes_def)
  next
    case proxy
    then show ?thesis using assms eq tenant_route_state [of lib ce st ?req] by (simp add: routes_def)
  qed
qed

text \<open>
  C8: Only the administrator changes the rules. Of the state of the application, a request changes at most the
  compiled rules and the map of tenants. If the rules change, the request went to the rules route with
  the administrator's bearer token, and the new rules are the patterns in its JSON body, at least one, each
  replaced by \<open>[REDACTED]\<close>, and nothing else changed. If the map changes, the request went to the completions route with a
  tenant's token, and the only change is the entry of that tenant, which had none. Here the proxy handler is the
  one of the code.
\<close>
theorem rules_change_needs_admin:
  assumes "fst (make_router lib build attest route set_id propagate_id (proxy_handler lib ce) st req) = st'"
  shows "st' = st\<lparr>as_engine_state := as_engine_state st', as_tenant_budgets := as_tenant_budgets st'\<rparr>
    \<and> (as_engine_state st' \<noteq> as_engine_state st \<longrightarrow>
        route (rq_method (set_id req)) (rq_path (set_id req)) = Rules
        \<and> as_tenant_budgets st' = as_tenant_budgets st
        \<and> (\<exists>token patterns. bearer_token lib (set_id req) = Some token
            \<and> token_hash lib token = as_admin_bearer_token_hash st
            \<and> json_rules lib (handled_request set_id req) = Inr patterns \<and> patterns \<noteq> []
            \<and> EngineState_new build patterns (map (\<lambda>_. ''[REDACTED]'') patterns)
                = (Ok (as_engine_state st') :: (_, unit) outcome)))
    \<and> (as_tenant_budgets st' \<noteq> as_tenant_budgets st \<longrightarrow>
        route (rq_method (set_id req)) (rq_path (set_id req)) = Completions
        \<and> as_engine_state st' = as_engine_state st
        \<and> (\<exists>token. bearer_token lib (set_id req) = Some token \<and> token_hash lib token \<in> set (as_auth_keyring st)
            \<and> as_tenant_budgets st (token_hash lib token) = None
            \<and> as_tenant_budgets st' = (as_tenant_budgets st)(token_hash lib token := Some (ce_semaphore ce))))"
proof (cases "st' = st")
  case False
  with router_state_change [of lib build attest route set_id propagate_id ce st req] assms show ?thesis by auto
qed simp

text \<open>What the router does with a request to the completions route that CORS and the declared length let through.\<close>

lemma completions_request:
  fixes p :: "'c handler"
  assumes "route (rq_method (set_id req)) (rq_path (set_id req)) = Completions"
    and "cors_admits lib st (set_id req) \<noteq> None" and "limit_admits lib st (set_id req) \<noteq> None"
  shows "make_router lib build attest route set_id propagate_id p st req =
    (case require_auth lib p st (handled_request set_id req) of
       (st', resp) \<Rightarrow> (st', propagate_id (set_id req)
          (resp\<lparr>rs_headers := cors_headers lib (request_origin lib (set_id req)) (rs_headers resp)\<rparr>)))"
proof -
  let ?r = "routes lib build attest route p" and ?req = "set_id req"
  have "enforce_body_limit lib ?r st ?req = require_auth lib p st (handled_request set_id req)"
    using assms(1,3) by (auto simp: enforce_body_limit_def limit_admits_def handled_request_def routes_def
        split: option.splits if_splits)
  moreover have "cors_middleware lib n st ?req =
      (case n st ?req of (st', resp) \<Rightarrow> (st', resp\<lparr>rs_headers := cors_headers lib (request_origin lib ?req) (rs_headers resp)\<rparr>))"
    for n :: "'c handler"
    using assms(2)
    by (auto simp: cors_middleware_def cors_admits_def request_origin_def list_ex_mem Let_def
        split: option.splits if_splits prod.splits Option.bind_splits)
  ultimately show ?thesis by (simp add: make_router_def Let_def split: prod.splits)
qed

text \<open>A request without the token of a tenant is answered the same whatever the proxy handler does.\<close>

lemma unauthorised_request_ignored:
  fixes p p' :: "'c handler"
  assumes "route (rq_method req) (rq_path req) = Completions" and "id_layer set_id"
    and "\<And>token. bearer_token lib req = Some token \<Longrightarrow> token_hash lib token \<notin> set (as_auth_keyring st)"
  shows "make_router lib build attest route set_id propagate_id p st req
      = make_router lib build attest route set_id propagate_id p' st req"
proof -
  let ?r = "routes lib build attest route" and ?req = "handled_request set_id req"
  have "tenant_admits lib st ?req = None"
    using assms(3) by (auto simp: tenant_admits_def id_layer_front [OF assms(2)] split: option.splits)
  then have eq: "?r p st ?req = ?r p' st ?req"
    using tenant_auth.rejects [of lib st ?req p p'] assms(1) by (simp add: routes_def id_layer_keeps [OF assms(2)])
  have "cors_middleware lib (enforce_body_limit lib (?r p)) st (set_id req)
      = cors_middleware lib (enforce_body_limit lib (?r p')) st (set_id req)"
  proof (cases "Option.bind (cors_admits lib st (set_id req)) (limit_admits lib st)")
    case None
    then show ?thesis using front.stack.rejects [OF None, of "?r p" "?r p'"] by simp
  next
    case (Some req')
    then show ?thesis using front.stack.depends [OF Some, of "?r p" "?r p'"] front_admits [where set_id = set_id and req = req, OF Some] eq by simp
  qed
  then show ?thesis by (simp add: make_router_def Let_def)
qed

text \<open>
  C9: Only tenants reach the proxy. Consider a request to the completions route, with the request-id layer as
  documented. If its origin is allowed (or absent) and its declared length within the limit, then the answer is,
  up to the CORS headers and the propagated identifier, that of the proxy handler called with the limited body for exactly
  the tenant whose token the request carries, if the token's hash is in the keyring, and otherwise 401 with the state
  unchanged. And without such a token the proxy handler has no influence at all, whatever the origin and the length.
\<close>
theorem proxy_needs_tenant_token:
  assumes "route (rq_method req) (rq_path req) = Completions" and "id_layer set_id"
  shows "(cors_admits lib st req \<noteq> None \<and> limit_admits lib st req \<noteq> None \<longrightarrow>
      make_router lib build attest route set_id propagate_id p st req =
        (case (case bearer_token lib req of
             Some token \<Rightarrow>
               if token_hash lib token \<in> set (as_auth_keyring st)
               then p st ((handled_request set_id req)\<lparr>rq_tenant := Some (token_hash lib token)\<rparr>)
               else (st, status_response 401)
           | None \<Rightarrow> (st, status_response 401)) of
           (st', resp) \<Rightarrow> (st', propagate_id (set_id req)
              (resp\<lparr>rs_headers := cors_headers lib (request_origin lib req) (rs_headers resp)\<rparr>))))
    \<and> ((\<forall>token. bearer_token lib req = Some token \<longrightarrow> token_hash lib token \<notin> set (as_auth_keyring st)) \<longrightarrow>
      make_router lib build attest route set_id propagate_id p st req
        = make_router lib build attest route set_id propagate_id p' st req)"
proof -
  note l = id_layer_keeps [OF assms(2)] id_layer_front [OF assms(2)]
  have "require_auth lib p st (handled_request set_id req) =
    (case bearer_token lib req of
       Some token \<Rightarrow>
         if token_hash lib token \<in> set (as_auth_keyring st)
         then p st ((handled_request set_id req)\<lparr>rq_tenant := Some (token_hash lib token)\<rparr>)
         else (st, status_response 401)
     | None \<Rightarrow> (st, status_response 401))"
    by (auto simp: require_auth_def l foldl_any Let_def split: option.splits)
  with completions_request [of route set_id req lib st build attest propagate_id p] assms(1)
    unauthorised_request_ignored [where route = route and req = req and set_id = set_id and lib = lib and st = st
      and build = build and attest = attest and propagate_id = propagate_id and p = p and p' = p', OF assms]
  show ?thesis by (simp add: l)
qed

text \<open>
  C29: The origin policy: a request from an origin that is not configured is refused with 403
  whatever the rest of the stack would do, and with no origins configured every request with an
  origin is; a request from a configured origin gets that origin, and no other, in the response's
  \<open>access-control-allow-origin\<close>.
\<close>
theorem cors_origin_policy:
  assumes "request_origin lib req = Some origin" and "hv_from_str lib origin = Some origin"
  shows "(if origin \<in> set (as_allowed_origins st)
     then header_get (rs_headers (snd (cors_middleware lib next st req))) ''access-control-allow-origin'' = Some origin
     else cors_middleware lib next st req = (st, status_response 403))"
proof (cases "origin \<in> set (as_allowed_origins st)")
  case False
  then show ?thesis using assms(1)
    by (simp add: cors_middleware_def request_origin_def [symmetric] list_ex_mem)
next
  case True
  have hd: "header_get (cors_headers lib (Some origin) hs) ''access-control-allow-origin'' = Some origin" for hs
    using assms(2) by (simp add: cors_headers_def header_insert_def header_get_def)
  then show ?thesis using assms(1) True
    by (simp add: cors_middleware_def request_origin_def [symmetric] list_ex_mem hd Let_def split: prod.splits)
qed

section \<open>Witnesses\<close>

definition sample_lib :: http_lib where
  "sample_lib = \<lparr>hv_to_str = Some, hv_from_str = Some, token_hash = (\<lambda>t. t @ ''#''), hex_decode = (\<lambda>_. None),
     b64_decode = Some, b64_encode_std = (\<lambda>b. b), json_rules = (\<lambda>_. Inr [''ssn'']), render_metrics = []\<rparr>"

definition sample_state :: AppState where
  "sample_state = \<lparr>as_vault = sample_vault, as_engine_state = pv_engine_state sample_vault, as_auth_keyring = [''alice#''],
     as_admin_bearer_token_hash = ''root#'', as_attestation_document = ''doc'', as_upstream_url = ''u'',
     as_allowed_origins = [''https://a''], as_shutdown = False, as_global_memory = 0, as_tenant_budgets = (\<lambda>_. None)\<rparr>"

definition lookup_route :: "bytes \<Rightarrow> bytes \<Rightarrow> endpoint" where
  "lookup_route m p = (case find (\<lambda>(m', p', _). m' = m \<and> p' = p) route_table of
     Some (_, _, e) \<Rightarrow> e | None \<Rightarrow> NoRoute 404)"

definition sample_request :: "bytes \<Rightarrow> bytes \<Rightarrow> http_request" where
  "sample_request path token = \<lparr>rq_method = ''POST'', rq_path = path,
     rq_headers = [(''authorization'', ''Bearer '' @ token), (''origin'', ''https://a'')],
     rq_query_nonce = None, rq_request_id = None, rq_tenant = None, rq_body = [Inr ''hi'']\<rparr>"

text \<open>A layer that gives every request without an identifier the same one.\<close>

definition sample_set_id :: "http_request \<Rightarrow> http_request" where
  "sample_set_id req =
     (case header_get (rq_headers req) ''x-request-id'' of
        Some v \<Rightarrow> if rq_request_id req = None then req\<lparr>rq_request_id := Some v\<rparr> else req
      | None \<Rightarrow> req\<lparr>rq_request_id := Some ''id-1'', rq_headers := header_insert ''x-request-id'' ''id-1'' (rq_headers req)\<rparr>)"

lemma sample_id_layer: "id_layer sample_set_id"
  by (auto simp: id_layer_def sample_set_id_def split: option.splits)

definition sample_proxy_env :: "nat \<Rightarrow> (bytes, bytes) proxy_env" where
  "sample_proxy_env status = \<lparr>pe_receipt = sample_renv, pe_hex = (\<lambda>b. b), pe_rules_to_vec = (\<lambda>(ps, rs). concat ps @ concat rs),
     pe_terminal_to_vec = (\<lambda>r s. Some (ar_payload_hash r @ s)), pe_pcr0_hash = None, pe_mock_pcr0 = Some ''0'',
     pe_stream_permit = True, pe_memory_permit = True, pe_consumed = length,
     pe_send = (\<lambda>_. Send_ok \<lparr>up_status = status, up_headers = [(''content-type'', ''Text/Event-Stream'')],
       up_events = [Chunk ''stack trace'']\<rparr>)\<rparr>"

definition sample_call :: "nat \<Rightarrow> (bytes, bytes) call_env" where
  "sample_call status = \<lparr>ce_env = sample_proxy_env status, ce_set_id = sample_set_id, ce_addr = 0, ce_later = (\<lambda>st. st),
     ce_semaphore = 7\<rparr>"

definition echo_handler :: "unit handler" where
  "echo_handler st req = (st, into_response (200, data_of (rq_body req)))"

lemmas sample_http = sample_lib_def sample_state_def sample_request_def lookup_route_def route_table_def
  sample_set_id_def echo_handler_def request_origin_def header_get_def header_insert_def bearer_token_def strip_prefix_def

text \<open>The administrator's request, and the first one of a tenant.\<close>

theorem rules_change_needs_admin_witness:
  "\<exists>st1 st2. fst (make_router sample_lib reference_build Inr lookup_route sample_set_id (\<lambda>_ r. r)
        (proxy_handler sample_lib (sample_call 200)) sample_state (sample_request ''/_admin/rules'' ''root'')) = st1
    \<and> es_patterns (as_engine_state st1) = [''ssn''] \<and> as_tenant_budgets st1 = (\<lambda>_. None)
    \<and> fst (make_router sample_lib reference_build Inr lookup_route sample_set_id (\<lambda>_ r. r)
        (proxy_handler sample_lib (sample_call 200)) sample_state (sample_request ''/v1/chat/completions'' ''alice'')) = st2
    \<and> as_engine_state st2 = as_engine_state sample_state \<and> as_tenant_budgets st2 = [''alice#'' \<mapsto> 7]"
proof -
  let ?run = "\<lambda>path token. fst (make_router sample_lib reference_build Inr lookup_route sample_set_id (\<lambda>_ r. r)
      (proxy_handler sample_lib (sample_call 200)) sample_state (sample_request path token))"
  note claim = rules_change_needs_admin [where lib = sample_lib and build = reference_build and attest = Inr
      and route = lookup_route and set_id = sample_set_id and propagate_id = "\<lambda>_ r. r" and ce = "sample_call 200"
      and st = sample_state, OF refl]
  have "es_patterns (as_engine_state (?run ''/_admin/rules'' ''root'')) = [''ssn'']"
    by (simp add: make_router_def cors_middleware_def enforce_body_limit_def routes_def auth_middleware_def
        rules_handler_def update_rules_def EngineState_new_def build_redaction_dfa_eq expect_def reference_build_def
        sample_http Let_def)
  moreover from this have "as_engine_state (?run ''/_admin/rules'' ''root'') \<noteq> as_engine_state sample_state"
    by (auto simp: sample_state_def sample_vault_def default_patterns_def Let_def)
  then have "as_tenant_budgets (?run ''/_admin/rules'' ''root'') = (\<lambda>_. None)"
    using claim [of "sample_request ''/_admin/rules'' ''root''"] by (simp add: sample_state_def)
  moreover have new: "as_tenant_budgets (?run ''/v1/chat/completions'' ''alice'') ''alice#'' = Some 7"
    by (simp add: make_router_def cors_middleware_def enforce_body_limit_def routes_def require_auth_def
        proxy_handler_def proxy_with_upstream_def sample_call_def sample_proxy_env_def is_success_def tenant_entry_def
        tenant_of_def sample_http Let_def)
  then have "as_tenant_budgets (?run ''/v1/chat/completions'' ''alice'') \<noteq> as_tenant_budgets sample_state"
    by (auto simp: sample_state_def)
  then have "as_engine_state (?run ''/v1/chat/completions'' ''alice'') = as_engine_state sample_state
      \<and> (\<exists>t. as_tenant_budgets (?run ''/v1/chat/completions'' ''alice'') = [t \<mapsto> ce_semaphore (sample_call 200)])"
    using claim [of "sample_request ''/v1/chat/completions'' ''alice''"] by (auto simp: sample_state_def)
  ultimately show ?thesis using new by (auto simp: sample_call_def split: if_splits)
qed

theorem proxy_needs_tenant_token_witness:
  "make_router sample_lib reference_build Inr lookup_route sample_set_id (\<lambda>_ r. r) echo_handler sample_state
       (sample_request ''/v1/chat/completions'' ''mallory'')
     = make_router sample_lib reference_build Inr lookup_route sample_set_id (\<lambda>_ r. r) (\<lambda>st req. (st, status_response 200))
       sample_state (sample_request ''/v1/chat/completions'' ''mallory'')
   \<and> make_router sample_lib reference_build Inr lookup_route sample_set_id (\<lambda>_ r. r) echo_handler sample_state
       (sample_request ''/v1/chat/completions'' ''alice'')
     = (sample_state, \<lparr>rs_status = 200, rs_headers = cors_headers sample_lib (Some ''https://a'') [], rs_body = Full ''hi''\<rparr>)
   \<and> make_router sample_lib reference_build Inr lookup_route sample_set_id (\<lambda>_ r. r) echo_handler sample_state
       (sample_request ''/v1/chat/completions'' ''mallory'')
     = (sample_state, \<lparr>rs_status = 401, rs_headers = cors_headers sample_lib (Some ''https://a'') [], rs_body = Full []\<rparr>)"
proof -
  have r: "lookup_route (rq_method (sample_request ''/v1/chat/completions'' t))
      (rq_path (sample_request ''/v1/chat/completions'' t)) = Completions" for t
    by (simp add: sample_http)
  note pn = proxy_needs_tenant_token [where route = lookup_route and set_id = sample_set_id and lib = sample_lib
      and st = sample_state and p = echo_handler and p' = "\<lambda>st req. (st, status_response 200)"
      and attest = Inr and propagate_id = "\<lambda>_ r. r" and build = reference_build, OF _ sample_id_layer]
  have adm: "cors_admits sample_lib sample_state (sample_request ''/v1/chat/completions'' t) \<noteq> None"
    "limit_admits sample_lib sample_state (sample_request ''/v1/chat/completions'' t) \<noteq> None"
    "request_origin sample_lib (sample_request ''/v1/chat/completions'' t) = Some ''https://a''"
    "bearer_token sample_lib (sample_request ''/v1/chat/completions'' t) = Some t"
    "token_hash sample_lib t \<in> set (as_auth_keyring sample_state) \<longleftrightarrow> t = ''alice''" for t
    by (simp_all add: sample_http cors_admits_def limit_admits_def)
  have body: "rq_body (handled_request sample_set_id (sample_request ''/v1/chat/completions'' t)) = [Inr ''hi'']" for t
    by (simp add: handled_request_def sample_http saturating_add_def MAX_BODY_SIZE_def)
  show ?thesis
  proof (intro conjI)
    show "make_router sample_lib reference_build Inr lookup_route sample_set_id (\<lambda>_ r. r) echo_handler sample_state
        (sample_request ''/v1/chat/completions'' ''mallory'')
      = make_router sample_lib reference_build Inr lookup_route sample_set_id (\<lambda>_ r. r) (\<lambda>st req. (st, status_response 200))
        sample_state (sample_request ''/v1/chat/completions'' ''mallory'')"
      using conjunct2 [OF pn [OF r [of "''mallory''"]]] adm(4,5) by simp
  qed (use conjunct1 [OF pn [OF r [of "''alice''"]]] conjunct1 [OF pn [OF r [of "''mallory''"]]] in
      \<open>simp_all add: adm echo_handler_def into_response_def status_response_def body\<close>)
qed

theorem cors_origin_policy_witness:
  "header_get (rs_headers (snd (cors_middleware sample_lib echo_handler sample_state (sample_request ''/x'' ''t''))))
     ''access-control-allow-origin'' = Some ''https://a''"
  using cors_origin_policy [of sample_lib "sample_request ''/x'' ''t''" "''https://a''" sample_state echo_handler]
  by (simp add: sample_http)

end
