(* ===== verification/Delivery.thy ===== *)
theory Delivery
  imports StreamTask Detection BudgetFlow Admission
begin

text \<open>
  The proxy end to end: the stream task composes the redactor, the detector and the queue. On a
  response that ends normally the client receives exactly the redacted response with the receipt in
  front of its end marker, and under any failure a prefix of it.
\<close>

section \<open>The downstream\<close>

text \<open>
  What the task needs of the queue: it takes bytes in order, all of them when it reports success, a
  part when it fails or the timer elapses.
\<close>

locale downstream =
  fixes enq :: "'q enqueuer" and delivered :: "'q \<Rightarrow> bytes"
  assumes enq_delivers: "enq q b = (q', r) \<Longrightarrow>
    \<exists>p. prefix p b \<and> delivered q' = delivered q @ p \<and> (r = Some (Ok ()) \<longrightarrow> p = b) \<and> r \<noteq> Some Panic"
begin

lemma enqueue_with_timeout_delivers:
  "enqueue_with_timeout enq q b = (q', r) \<Longrightarrow>
    \<exists>p. prefix p b \<and> delivered q' = delivered q @ p \<and> (r = Ok () \<longrightarrow> p = b) \<and> r \<noteq> Panic"
  using enq_delivers [of q b] by (auto simp: enqueue_with_timeout_def split: prod.splits option.splits)

lemma send_terminal_error_delivers:
  "\<exists>p. prefix p (terminal_frame reason) \<and> delivered (send_terminal_error enq q reason) = delivered q @ p"
  using enqueue_with_timeout_delivers [of q "terminal_frame reason"]
  by (cases "enqueue_with_timeout enq q (terminal_frame reason)") (auto simp: send_terminal_error_def)

lemma forward_events_delivers:
  "forward_stream_events enq q evs = (q', r) \<Longrightarrow>
    \<exists>p. prefix p (concat (map event_bytes evs)) \<and> delivered q' = delivered q @ p
      \<and> (r = Ok () \<longrightarrow> p = concat (map event_bytes evs)) \<and> r \<noteq> Panic"
proof (induction evs arbitrary: q)
  case (Cons ev evs)
  obtain q1 r1 where e: "enqueue_with_timeout enq q (event_bytes ev) = (q1, r1)" by fastforce
  from enqueue_with_timeout_delivers [OF e] obtain p1 where
    p1: "prefix p1 (event_bytes ev)" "delivered q1 = delivered q @ p1" "r1 = Ok () \<longrightarrow> p1 = event_bytes ev" "r1 \<noteq> Panic"
    by blast
  show ?case
  proof (cases r1)
    case (Ok u)
    then have "forward_stream_events enq q1 evs = (q', r)" using Cons.prems e by simp
    from Cons.IH [OF this] Ok p1 show ?thesis by auto
  next
    case (Err u)
    then have "q' = q1" "r = Err ()" using Cons.prems e by auto
    then show ?thesis using p1 by (auto intro: prefix_prefix)
  next
    case Panic
    then show ?thesis using p1 by simp
  qed
qed auto

end

text \<open>The byte-budget queue under a timer is such a downstream.\<close>

definition timed_enqueue ::
  "'s sem_ops \<Rightarrow> ('s world \<Rightarrow> BudgetedSegment \<Rightarrow> 's world \<times> bool) \<Rightarrow> ('s world \<Rightarrow> nat option) \<Rightarrow> ByteBudget \<Rightarrow>
     ('s world \<times> BudgetedSegment list) enqueuer" where
  "timed_enqueue ops snd_fn timer budget = (\<lambda>(w, log) b.
     case timer w of
       None \<Rightarrow> (case enqueue ops snd_fn w budget b of (w', sent, r) \<Rightarrow> ((w', log @ sent), Some r))
     | Some k \<Rightarrow>
         (case enqueue_loop ops snd_fn budget b w (take k (step_by (bb_capacity budget) [0..<length b])) of
            (w', sent, r) \<Rightarrow> ((w', log @ sent), None)))"

definition log_bytes :: "'w \<times> BudgetedSegment list \<Rightarrow> bytes" where
  "log_bytes q = concat (map seg_bytes (snd q))"

lemma enqueue_loop_take:
  "enqueue_loop ops snd_fn budget b w (xs @ ys) = (w', sent, r) \<Longrightarrow>
   prefix (fst (snd (enqueue_loop ops snd_fn budget b w xs))) sent"
proof (induction xs arbitrary: w w' sent r)
  case (Cons x xs)
  then show ?case
    by (fastforce simp: Let_def split: prod.splits outcome.splits bool.splits)
qed simp

lemma prefix_concat_map: "prefix xs ys \<Longrightarrow> prefix (concat (map f xs)) (concat (map f ys))"
  by (auto simp: prefix_def)

lemma timed_enqueue_downstream:
  assumes "0 < bb_capacity budget"
  shows "downstream (timed_enqueue ops snd_fn timer budget) log_bytes"
proof
  fix q q' :: "'a world \<times> BudgetedSegment list" and b r
  assume e: "timed_enqueue ops snd_fn timer budget q b = (q', r)"
  obtain w log where q: "q = (w, log)" by (cases q)
  let ?starts = "step_by (bb_capacity budget) [0..<length b]"
  show "\<exists>p. prefix p b \<and> log_bytes q' = log_bytes q @ p \<and> (r = Some (Ok ()) \<longrightarrow> p = b) \<and> r \<noteq> Some Panic"
  proof (cases "timer w")
    case None
    obtain w' sent r' where n: "enqueue ops snd_fn w budget b = (w', sent, r')" by (metis prod_cases3)
    then have "q' = (w', log @ sent)" "r = Some r'" using e q None by (auto simp: timed_enqueue_def)
    moreover have "b = [] \<Longrightarrow> sent = [] \<and> r' = Ok ()" using n by (auto simp: enqueue_def)
    moreover have "b \<noteq> [] \<Longrightarrow> enqueue_loop ops snd_fn budget b w ?starts = (w', sent, r')"
      using n assms by (simp add: enqueue_def)
    ultimately show ?thesis
      using q enqueue_loop_slices [OF assms, of ops snd_fn b w 0 w' sent r']
      by (cases "b = []") (auto simp: log_bytes_def)
  next
    case (Some k)
    obtain w' sent r' where l: "enqueue_loop ops snd_fn budget b w (take k ?starts) = (w', sent, r')" by (metis prod_cases3)
    obtain w2 sent2 r2 where f: "enqueue_loop ops snd_fn budget b w ?starts = (w2, sent2, r2)" by (metis prod_cases3)
    have "prefix sent sent2" using enqueue_loop_take [of ops snd_fn budget b w "take k ?starts" "drop k ?starts"] f l by simp
    then have "prefix (concat (map seg_bytes sent)) b"
      using enqueue_loop_slices [OF assms f] prefix_concat_map prefix_order.trans by fastforce
    moreover have "q' = (w', log @ sent)" "r = None" using e q Some l by (auto simp: timed_enqueue_def)
    ultimately show ?thesis using q by (auto simp: log_bytes_def)
  qed
qed

interpretation response_queue: downstream
    "timed_enqueue ops snd_fn timer \<lparr>bb_semaphore = a, bb_global_memory = g, bb_capacity = OUTPUT_BYTE_BUDGET\<rparr>"
    log_bytes for ops :: "'s sem_ops" and snd_fn timer a g
  by (rule timed_enqueue_downstream) (simp add: OUTPUT_BYTE_BUDGET_def)

section \<open>The ideal run\<close>

text \<open>The task over a queue that takes everything: its queue is what the task means to send.\<close>

definition ideal_queue :: "bytes enqueuer" where
  "ideal_queue q b = (q @ b, Some (Ok ()))"

interpretation ideal: downstream ideal_queue "\<lambda>q. q"
  by unfold_locales (auto simp: ideal_queue_def)

lemma ideal_enqueue [simp]: "enqueue_with_timeout ideal_queue q b = (q @ b, Ok ())"
  by (simp add: enqueue_with_timeout_def ideal_queue_def)

lemma ideal_forward [simp]:
  "forward_stream_events ideal_queue q evs = (q @ concat (map event_bytes evs), Ok ())"
  by (induction evs arbitrary: q) simp_all

lemma ideal_terminal [simp]: "send_terminal_error ideal_queue q reason = q @ terminal_frame reason"
  by (simp add: send_terminal_error_def)

primrec flow_task :: "'t flow \<Rightarrow> 't option" where
  "flow_task (Continue t) = Some t"
| "flow_task (Break t a b) = Some t"
| "flow_task (Return t) = Some t"
| "flow_task Crash = None"

definition grows :: "('h, bytes) task \<Rightarrow> ('h, bytes) task flow \<Rightarrow> bool" where
  "grows ti f \<longleftrightarrow> (\<forall>ti'. flow_task f = Some ti' \<longrightarrow> prefix (tk_queue ti) (tk_queue ti'))"

lemma forward_output_grows: "grows ti (forward_output env ideal_queue is_sse l ti b)"
  by (auto simp: grows_def forward_output_def Let_def split: outcome.splits)

lemma forward_outputs_grows: "grows ti (forward_outputs env ideal_queue is_sse l ti outs)"
proof (induction outs arbitrary: ti)
  case (Cons out outs)
  show ?case
  proof (cases "forward_output env ideal_queue is_sse l ti (segment_bytes out)")
    case (Continue ti1)
    then show ?thesis using forward_output_grows [of ti env is_sse l "segment_bytes out"] Cons.IH [of ti1]
      by (auto simp: grows_def intro: prefix_order.trans)
  qed (use forward_output_grows [of ti env is_sse l "segment_bytes out"] in \<open>auto simp: grows_def\<close>)
qed (simp add: grows_def)

lemma grows_redactor: "grows (ti\<lparr>tk_redactor := r\<rparr>) f = grows ti f"
  by (simp add: grows_def)

lemma task_turn_grows: "grows ti (task_turn env ideal_queue is_sse ti ev)"
proof (cases ev)
  case (Chunk c)
  obtain red r where "push (tk_redactor ti) c = (red, r)" by fastforce
  then show ?thesis using Chunk forward_outputs_grows [of "ti\<lparr>tk_redactor := red\<rparr>" env is_sse True]
    by (cases r) (auto simp: task_turn_def terminate_def grows_def)
qed (auto simp: task_turn_def terminate_def grows_def split: outcome.splits)

lemma task_loop_grows: "grows ti (task_loop env ideal_queue is_sse ti evs)"
proof (induction evs arbitrary: ti)
  case (Cons ev evs)
  show ?case
  proof (cases "task_turn env ideal_queue is_sse ti ev")
    case (Continue ti1)
    then show ?thesis using task_turn_grows [of ti env is_sse ev] Cons.IH [of ti1]
      by (auto simp: grows_def intro: prefix_order.trans)
  qed (use task_turn_grows [of ti env is_sse ev] in \<open>auto simp: grows_def\<close>)
qed (simp add: grows_def)

lemma finish_detector_grows: "grows ti (finish_detector env ideal_queue is_sse ti)"
  by (auto simp: finish_detector_def grows_def split: prod.splits)

lemma task_finish_grows: "grows ti (task_finish env ideal_queue is_sse ti)"
proof -
  obtain red r where f: "finish (tk_redactor ti) = (red, r)" by fastforce
  show ?thesis
  proof (cases r)
    case (Ok outs)
    show ?thesis
    proof (cases "forward_outputs env ideal_queue is_sse False (ti\<lparr>tk_redactor := red\<rparr>) outs")
      case (Continue ti1)
      then show ?thesis
        using Ok f forward_outputs_grows [of "ti\<lparr>tk_redactor := red\<rparr>" env is_sse False outs]
          finish_detector_grows [of ti1 env is_sse]
        by (auto simp: task_finish_def grows_def intro: prefix_order.trans)
    qed (use Ok f forward_outputs_grows [of "ti\<lparr>tk_redactor := red\<rparr>" env is_sse False outs] in
        \<open>auto simp: task_finish_def grows_def\<close>)
  qed (use f in \<open>auto simp: task_finish_def grows_def terminate_def\<close>)
qed

section \<open>Any downstream receives a prefix\<close>

context downstream
begin

text \<open>The real and the ideal task agree, and the real queue has delivered what the ideal one holds.\<close>

definition sim :: "bytes \<Rightarrow> ('h, 'q) task \<Rightarrow> ('h, bytes) task \<Rightarrow> bool" where
  "sim d0 tk ti \<longleftrightarrow> tk_redactor tk = tk_redactor ti \<and> tk_hasher tk = tk_hasher ti
     \<and> tk_detector tk = tk_detector ti \<and> delivered (tk_queue tk) = d0 @ tk_queue ti"

text \<open>The real task has stopped with a part of what the ideal one sends, and perhaps an error frame.\<close>

definition partial :: "bytes \<Rightarrow> ('h, 'q) task \<Rightarrow> bytes \<Rightarrow> bool" where
  "partial d0 tk whole \<longleftrightarrow> (\<exists>p e reason. delivered (tk_queue tk) = d0 @ p @ e \<and> prefix p whole
     \<and> prefix e (terminal_frame reason))"

definition simf :: "bytes \<Rightarrow> ('h, 'q) task flow \<Rightarrow> ('h, bytes) task flow \<Rightarrow> bool" where
  "simf d0 fr fi \<longleftrightarrow> (case fi of
       Crash \<Rightarrow> True
     | Continue ti \<Rightarrow> (case fr of Continue tk \<Rightarrow> sim d0 tk ti | Return tk \<Rightarrow> partial d0 tk (tk_queue ti) | _ \<Rightarrow> False)
     | Break ti a b \<Rightarrow> (case fr of Break tk a' b' \<Rightarrow> a' = a \<and> b' = b \<and> sim d0 tk ti
                        | Return tk \<Rightarrow> partial d0 tk (tk_queue ti) | _ \<Rightarrow> False)
     | Return ti \<Rightarrow> (case fr of Return tk \<Rightarrow> partial d0 tk (tk_queue ti) | _ \<Rightarrow> False))"

lemma partialI: "delivered (tk_queue tk) = d0 @ p \<Longrightarrow> prefix p whole \<Longrightarrow> partial d0 tk whole"
  unfolding partial_def by (metis append_Nil2 Nil_prefix)

lemma partial_grow: "partial d0 tk s \<Longrightarrow> prefix s s' \<Longrightarrow> partial d0 tk s'"
  unfolding partial_def by (meson prefix_order.trans)

lemma sim_partial: "sim d0 tk ti \<Longrightarrow> partial d0 tk (tk_queue ti)"
  by (auto simp: sim_def intro: partialI)

lemma simf_Return_grow:
  assumes "partial d0 tk (tk_queue ti)" and "grows ti fi"
  shows "simf d0 (Return tk) fi"
  using assms by (cases fi) (auto simp: simf_def grows_def intro: partial_grow)

lemma forward_events_sim:
  assumes s: "delivered q = d0 @ s" and "forward_stream_events enq q evs = (q', r)"
  shows "case r of Ok _ \<Rightarrow> delivered q' = d0 @ s @ concat (map event_bytes evs)
    | Err _ \<Rightarrow> \<exists>p. delivered q' = d0 @ p \<and> prefix p (s @ concat (map event_bytes evs)) | Panic \<Rightarrow> False"
  using forward_events_delivers [OF assms(2)] s by (auto split: outcome.split)

lemma terminate_sim:
  assumes "sim d0 tk ti"
  shows "simf d0 (terminate enq tk reason) (terminate ideal_queue ti reason)"
proof -
  from send_terminal_error_delivers [of reason "tk_queue tk"] assms
  show ?thesis by (auto simp: simf_def terminate_def sim_def intro: partialI)
qed

lemma forward_output_sim:
  assumes s: "sim d0 tk ti"
  shows "simf d0 (forward_output env enq is_sse l tk b) (forward_output env ideal_queue is_sse l ti b)"
proof (cases is_sse)
  case True
  show ?thesis
  proof (cases "inspect env (tk_detector ti) b (tk_hasher ti)")
    case (Ok x)
    obtain det h evs where x: "x = (det, h, evs)" by (cases x)
    obtain q' r where f: "forward_stream_events enq (tk_queue tk) evs = (q', r)" by fastforce
    from forward_events_sim [OF _ f, of d0 "tk_queue ti"] s
    have "case r of Ok _ \<Rightarrow> delivered q' = d0 @ tk_queue ti @ concat (map event_bytes evs)
      | Err _ \<Rightarrow> \<exists>p. delivered q' = d0 @ p \<and> prefix p (tk_queue ti @ concat (map event_bytes evs)) | Panic \<Rightarrow> False"
      by (simp add: sim_def)
    then show ?thesis using True Ok x f s
      by (cases r) (auto simp: forward_output_def sim_def simf_def intro: partialI)
  qed (use True s in \<open>simp_all add: forward_output_def sim_def simf_def\<close>)
next
  case False
  obtain q' r where e: "enqueue_with_timeout enq (tk_queue tk) b = (q', r)" by fastforce
  from enqueue_with_timeout_delivers [OF e] obtain p where
    p: "prefix p b" "delivered q' = delivered (tk_queue tk) @ p" "r = Ok () \<longrightarrow> p = b" "r \<noteq> Panic" by blast
  show ?thesis
  proof (cases r)
    case (Ok u)
    then show ?thesis using False e p s by (simp add: forward_output_def sim_def simf_def)
  next
    case (Err er)
    obtain t where t: "prefix t (terminal_frame (terminal_reason er))"
      "delivered (send_terminal_error enq q' (terminal_reason er)) = delivered q' @ t"
      using send_terminal_error_delivers by blast
    have "prefix (tk_queue ti @ p) (tk_queue ti @ b)" using p(1) by simp
    then have "partial d0 (tk\<lparr>tk_hasher := h, tk_queue := if l then send_terminal_error enq q' (terminal_reason er) else q'\<rparr>)
        (tk_queue ti @ b)" for h
      using p(2) t s unfolding partial_def
      by (intro exI [of _ "tk_queue ti @ p"] exI [of _ "if l then t else []"] exI [of _ "terminal_reason er"])
         (simp add: sim_def)
    then show ?thesis using False e Err by (simp add: forward_output_def simf_def Let_def)
  next
    case Panic
    then show ?thesis using p(4) by simp
  qed
qed

end

context downstream
begin

text \<open>Running on after a step: the shape \<open>forward_outputs\<close> and \<open>task_loop\<close> share.\<close>

lemma simf_then:
  assumes "simf d0 fr fi"
    and "\<And>tk ti. fr = Continue tk \<Longrightarrow> fi = Continue ti \<Longrightarrow> sim d0 tk ti \<Longrightarrow> simf d0 (kr tk) (ki ti)"
    and "\<And>ti. fi = Continue ti \<Longrightarrow> grows ti (ki ti)"
  shows "simf d0 (case fr of Continue tk \<Rightarrow> kr tk | r \<Rightarrow> r) (case fi of Continue ti \<Rightarrow> ki ti | r \<Rightarrow> r)"
  using assms(1)
proof (cases fi)
  case (Continue ti)
  show ?thesis
  proof (cases fr)
    case (Continue tk)
    then show ?thesis using assms(1,2) \<open>fi = flow.Continue ti\<close> by (simp add: simf_def)
  next
    case (Return tk)
    then have "partial d0 tk (tk_queue ti)" using assms(1) Continue by (simp add: simf_def)
    then show ?thesis using simf_Return_grow [OF _ assms(3) [OF Continue]] Return Continue by simp
  qed (use assms(1) Continue in \<open>simp_all add: simf_def\<close>)
qed (cases fr; simp add: simf_def)+

lemma forward_outputs_sim:
  "sim d0 tk ti \<Longrightarrow> simf d0 (forward_outputs env enq is_sse l tk outs) (forward_outputs env ideal_queue is_sse l ti outs)"
proof (induction outs arbitrary: tk ti)
  case (Cons out outs)
  show ?case unfolding forward_outputs.simps
    by (rule simf_then [OF forward_output_sim [OF Cons.prems]]) (use Cons.IH forward_outputs_grows in auto)
qed (simp add: simf_def)

lemma sim_redactor: "sim d0 tk ti \<Longrightarrow> sim d0 (tk\<lparr>tk_redactor := r\<rparr>) (ti\<lparr>tk_redactor := r\<rparr>)"
  by (simp add: sim_def)

lemma task_turn_sim:
  assumes s: "sim d0 tk ti"
  shows "simf d0 (task_turn env enq is_sse tk ev) (task_turn env ideal_queue is_sse ti ev)"
proof (cases ev)
  case (Chunk c)
  obtain red r where p: "push (tk_redactor ti) c = (red, r)" by fastforce
  have "tk_redactor tk = tk_redactor ti" using s by (simp add: sim_def)
  then show ?thesis using Chunk p forward_outputs_sim [OF sim_redactor [OF s, of red], of env is_sse True]
      terminate_sim [OF sim_redactor [OF s, of red]]
    by (cases r) (simp_all add: task_turn_def simf_def)
next
  case (Shutdown_changed down)
  show ?thesis
  proof (cases "down \<and> (\<exists>x. shutdown_events env (tk_detector ti) (tk_hasher ti) = Ok x)")
    case True
    then obtain det h evs where x: "shutdown_events env (tk_detector ti) (tk_hasher ti) = Ok (det, h, evs)" by auto
    obtain q' r where f: "forward_stream_events enq (tk_queue tk) evs = (q', r)" by fastforce
    from forward_events_sim [OF _ f, of d0 "tk_queue ti"] s
    have "case r of Ok _ \<Rightarrow> delivered q' = d0 @ tk_queue ti @ concat (map event_bytes evs)
      | Err _ \<Rightarrow> \<exists>p. delivered q' = d0 @ p \<and> prefix p (tk_queue ti @ concat (map event_bytes evs)) | Panic \<Rightarrow> False"
      by (simp add: sim_def)
    then show ?thesis using True Shutdown_changed x f s
      by (cases r) (auto simp: task_turn_def sim_def simf_def intro: partialI)
  next
    case False
    then show ?thesis using Shutdown_changed s
      by (cases "shutdown_events env (tk_detector ti) (tk_hasher ti)") (auto simp: task_turn_def simf_def sim_def)
  qed
qed (use s terminate_sim [OF s] in \<open>simp_all add: task_turn_def simf_def\<close>)

lemma task_loop_sim:
  "sim d0 tk ti \<Longrightarrow> simf d0 (task_loop env enq is_sse tk evs) (task_loop env ideal_queue is_sse ti evs)"
proof (induction evs arbitrary: tk ti)
  case (Cons ev evs)
  show ?case unfolding task_loop.simps
    by (rule simf_then [OF task_turn_sim [OF Cons.prems]]) (use Cons.IH task_loop_grows in auto)
qed (simp add: simf_def)

lemma finish_detector_sim:
  assumes s: "sim d0 tk ti"
  shows "simf d0 (finish_detector env enq is_sse tk) (finish_detector env ideal_queue is_sse ti)"
proof (cases is_sse)
  case True
  obtain det h evs where d: "DoneDetector_finish env (tk_detector ti) (tk_hasher ti) = (det, h, evs)"
    by (metis prod_cases3)
  obtain q' r where g: "forward_stream_events enq (tk_queue tk) evs = (q', r)" by fastforce
  from forward_events_delivers [OF g] obtain p where "prefix p (concat (map event_bytes evs))"
    "delivered q' = delivered (tk_queue tk) @ p" "r \<noteq> Panic" by blast
  then show ?thesis using True d g s
    by (cases r) (auto simp: finish_detector_def simf_def sim_def intro!: partialI)
qed (use s sim_partial in \<open>simp add: finish_detector_def simf_def\<close>)

lemma task_finish_sim:
  assumes s: "sim d0 tk ti"
  shows "simf d0 (task_finish env enq is_sse tk) (task_finish env ideal_queue is_sse ti)"
proof -
  obtain red r where f: "finish (tk_redactor ti) = (red, r)" by fastforce
  have same: "tk_redactor tk = tk_redactor ti" using s by (simp add: sim_def)
  show ?thesis
  proof (cases r)
    case (Ok outs)
    show ?thesis unfolding task_finish_def f same Ok prod.case outcome.case
      by (rule simf_then [OF forward_outputs_sim [OF sim_redactor [OF s]] finish_detector_sim finish_detector_grows])
  qed (use f same terminate_sim [OF sim_redactor [OF s]] in \<open>simp_all add: task_finish_def simf_def\<close>)
qed

lemma stream_task_sim:
  assumes s: "sim d0 tk ti"
  shows "simf d0 (stream_task env enq is_sse tk evs) (stream_task env ideal_queue is_sse ti evs)"
proof -
  have l: "simf d0 (task_loop env enq is_sse tk evs) (task_loop env ideal_queue is_sse ti evs)"
    using task_loop_sim [OF s] .
  show ?thesis
  proof (cases "task_loop env ideal_queue is_sse ti evs")
    case (Break ti1 a b)
    show ?thesis
    proof (cases "task_loop env enq is_sse tk evs")
      case (Break tk1 a' b')
      then have "a' = a" "b' = b" "sim d0 tk1 ti1"
        using l \<open>task_loop env ideal_queue is_sse ti evs = flow.Break ti1 a b\<close> by (simp_all add: simf_def)
      then show ?thesis using Break \<open>task_loop env ideal_queue is_sse ti evs = flow.Break ti1 a b\<close>
          task_finish_sim [of d0 tk1 ti1 env is_sse] sim_partial [of d0 tk1 ti1]
        by (simp add: stream_task_def simf_def)
    next
      case (Return tk1)
      then have "partial d0 tk1 (tk_queue ti1)" using l Break by (simp add: simf_def)
      from simf_Return_grow [OF this] Return Break sim_partial task_finish_grows [of ti1 env is_sse] this
      show ?thesis by (simp add: stream_task_def grows_def)
    qed (use l Break in \<open>simp_all add: simf_def\<close>)
  qed (use l in \<open>cases "task_loop env enq is_sse tk evs"; simp add: stream_task_def simf_def\<close>)+
qed

end

section \<open>The ideal run of a complete response\<close>

lemma ideal_outputs_sse:
  "run_steps (inspect_step env) (tk_detector ti, tk_hasher ti) (map segment_bytes outs) = Ok ((det, h), evs) \<Longrightarrow>
   forward_outputs env ideal_queue True l ti outs
     = Continue (ti\<lparr>tk_detector := det, tk_hasher := h, tk_queue := tk_queue ti @ concat (map event_bytes evs)\<rparr>)"
proof (induction outs arbitrary: ti det h evs)
  case (Cons out outs)
  from Cons.prems obtain det1 h1 evs1 evs2 where
    1: "inspect env (tk_detector ti) (segment_bytes out) (tk_hasher ti) = Ok (det1, h1, evs1)"
    and 2: "run_steps (inspect_step env) (det1, h1) (map segment_bytes outs) = Ok ((det, h), evs2)" "evs = evs1 @ evs2"
    by (auto simp: inspect_step_def)
  let ?ti1 = "ti\<lparr>tk_detector := det1, tk_hasher := h1, tk_queue := tk_queue ti @ concat (map event_bytes evs1)\<rparr>"
  have "forward_outputs env ideal_queue True l ti (out # outs) = forward_outputs env ideal_queue True l ?ti1 outs"
    using 1 by (simp add: forward_output_def)
  also have "\<dots> = Continue (?ti1\<lparr>tk_detector := det, tk_hasher := h,
      tk_queue := tk_queue ?ti1 @ concat (map event_bytes evs2)\<rparr>)"
    by (rule Cons.IH) (use 2 in simp)
  finally show ?case using 2 by simp
qed simp

lemma ideal_outputs_plain:
  "\<exists>h. forward_outputs env ideal_queue False l ti outs
     = Continue (ti\<lparr>tk_hasher := h, tk_queue := tk_queue ti @ rendered outs\<rparr>)"
proof (induction outs arbitrary: ti)
  case Nil
  have "ti = ti\<lparr>tk_hasher := tk_hasher ti, tk_queue := tk_queue ti\<rparr>" by simp
  then show ?case unfolding rendered_def by (auto intro!: exI [of _ "tk_hasher ti"])
next
  case (Cons out outs)
  let ?ti1 = "ti\<lparr>tk_hasher := hasher_update (re_crypto env) (tk_hasher ti) (segment_bytes out),
      tk_queue := tk_queue ti @ segment_bytes out\<rparr>"
  from Cons.IH [of ?ti1] show ?case by (simp add: forward_output_def rendered_def)
qed

text \<open>Both kinds of stream, given how one batch of output is forwarded.\<close>

lemma ideal_loop_sse:
  "push_all (tk_redactor ti) chunks = (red, Ok outs) \<Longrightarrow>
   run_steps (inspect_step env) (tk_detector ti, tk_hasher ti) (map segment_bytes outs) = Ok ((det, h), evs) \<Longrightarrow>
   task_loop env ideal_queue True ti (map Chunk chunks @ rest)
     = task_loop env ideal_queue True (ti\<lparr>tk_redactor := red, tk_detector := det, tk_hasher := h,
         tk_queue := tk_queue ti @ concat (map event_bytes evs)\<rparr>) rest"
proof (induction chunks arbitrary: ti outs evs det h)
  case (Cons c chunks)
  from Cons.prems(1) obtain red1 out1 outs2 where
    p: "push (tk_redactor ti) c = (red1, Ok out1)" "push_all red1 chunks = (red, Ok outs2)" "outs = out1 @ outs2"
    by (auto split: prod.splits outcome.splits)
  from Cons.prems(2) obtain det1 h1 evs1 evs2 where
    r: "run_steps (inspect_step env) (tk_detector ti, tk_hasher ti) (map segment_bytes out1) = Ok ((det1, h1), evs1)"
      "run_steps (inspect_step env) (det1, h1) (map segment_bytes outs2) = Ok ((det, h), evs2)" "evs = evs1 @ evs2"
    by (auto simp: p(3) run_steps_append)
  let ?ti1 = "ti\<lparr>tk_redactor := red1, tk_detector := det1, tk_hasher := h1,
      tk_queue := tk_queue ti @ concat (map event_bytes evs1)\<rparr>"
  have "task_turn env ideal_queue True ti (Chunk c) = Continue ?ti1"
    using p(1) ideal_outputs_sse [of env "ti\<lparr>tk_redactor := red1\<rparr>" out1 det1 h1 evs1 True] r(1)
    by (simp add: task_turn_def)
  then show ?case using Cons.IH [of ?ti1 outs2 det h evs2] p r by simp
next
  case Nil
  have "ti\<lparr>tk_redactor := tk_redactor ti\<rparr> = ti" by simp
  then show ?case using Nil by auto
qed

lemma ideal_loop_plain:
  "push_all (tk_redactor ti) chunks = (red, Ok outs) \<Longrightarrow>
   \<exists>h. task_loop env ideal_queue False ti (map Chunk chunks @ rest)
     = task_loop env ideal_queue False (ti\<lparr>tk_redactor := red, tk_hasher := h,
         tk_queue := tk_queue ti @ rendered outs\<rparr>) rest"
proof (induction chunks arbitrary: ti outs)
  case Nil
  have "ti = ti\<lparr>tk_redactor := tk_redactor ti, tk_hasher := tk_hasher ti, tk_queue := tk_queue ti\<rparr>" by simp
  then show ?case using Nil unfolding rendered_def by (auto intro!: exI [of _ "tk_hasher ti"])
next
  case (Cons c chunks)
  from Cons.prems(1) obtain red1 out1 outs2 where
    p: "push (tk_redactor ti) c = (red1, Ok out1)" "push_all red1 chunks = (red, Ok outs2)" "outs = out1 @ outs2"
    by (auto split: prod.splits outcome.splits)
  obtain h1 where "forward_outputs env ideal_queue False True (ti\<lparr>tk_redactor := red1\<rparr>) out1
      = Continue (ti\<lparr>tk_redactor := red1, tk_hasher := h1, tk_queue := tk_queue ti @ rendered out1\<rparr>)"
    using ideal_outputs_plain [of env True "ti\<lparr>tk_redactor := red1\<rparr>" out1] by auto
  then have "task_turn env ideal_queue False ti (Chunk c)
      = Continue (ti\<lparr>tk_redactor := red1, tk_hasher := h1, tk_queue := tk_queue ti @ rendered out1\<rparr>)"
    using p(1) by (simp add: task_turn_def)
  then show ?case using Cons.IH [of "ti\<lparr>tk_redactor := red1, tk_hasher := h1, tk_queue := tk_queue ti @ rendered out1\<rparr>" outs2] p
    by (simp add: rendered_def)
qed

lemma redact_stream_Ok:
  assumes "redact_stream red chunks = Ok segs"
  obtains red1 red2 outs outs' where "push_all red chunks = (red1, Ok outs)" "finish red1 = (red2, Ok outs')"
    "segs = outs @ outs'"
  using assms by (auto simp: redact_stream_def split: prod.splits outcome.splits) (metis prod.collapse)

lemma ideal_task_sse:
  assumes "redact_stream (tk_redactor ti) chunks = Ok segs"
    and "detect_stream env (tk_detector ti) (map segment_bytes segs) (tk_hasher ti) = Ok (det, h, evs)"
  shows "\<exists>ti'. stream_task env ideal_queue True ti (map Chunk chunks @ [End_of_stream]) = Return ti'
    \<and> tk_queue ti' = tk_queue ti @ concat (map event_bytes evs)"
proof -
  from assms(1) obtain red1 red2 outs outs' where
    p: "push_all (tk_redactor ti) chunks = (red1, Ok outs)" "finish red1 = (red2, Ok outs')" "segs = outs @ outs'"
    by (rule redact_stream_Ok)
  from assms(2) obtain d2 h2 e12 where
    run: "run_steps (inspect_step env) (tk_detector ti, tk_hasher ti) (map segment_bytes segs) = Ok ((d2, h2), e12)"
    and fin: "(case DoneDetector_finish env d2 h2 of (s, hh, e) \<Rightarrow> Ok (s, hh, e12 @ e)) = (Ok (det, h, evs) :: (_, unit) outcome)"
    by (auto simp: detect_stream_def)
  from run obtain d1 h1 e1 e2 where
    r: "run_steps (inspect_step env) (tk_detector ti, tk_hasher ti) (map segment_bytes outs) = Ok ((d1, h1), e1)"
      "run_steps (inspect_step env) (d1, h1) (map segment_bytes outs') = Ok ((d2, h2), e2)" and e12: "e12 = e1 @ e2"
    by (auto simp: p(3) run_steps_append)
  obtain e3 where r': "DoneDetector_finish env d2 h2 = (det, h, e3)" "evs = e1 @ e2 @ e3"
    using fin by (cases "DoneDetector_finish env d2 h2") (auto simp: e12)
  let ?t1 = "ti\<lparr>tk_redactor := red1, tk_detector := d1, tk_hasher := h1, tk_queue := tk_queue ti @ concat (map event_bytes e1)\<rparr>"
  let ?t2 = "?t1\<lparr>tk_redactor := red2, tk_detector := d2, tk_hasher := h2,
      tk_queue := tk_queue ?t1 @ concat (map event_bytes e2)\<rparr>"
  have "task_loop env ideal_queue True ti (map Chunk chunks @ [End_of_stream]) = Break ?t1 True False"
    using ideal_loop_sse [OF p(1) r(1), of "[End_of_stream]"] by (simp add: task_turn_def)
  moreover have "forward_outputs env ideal_queue True False (?t1\<lparr>tk_redactor := red2\<rparr>) outs' = Continue ?t2"
    using ideal_outputs_sse [of env "?t1\<lparr>tk_redactor := red2\<rparr>" outs' d2 h2 e2 False] r(2) by simp
  ultimately show ?thesis using p(2) r'
    by (simp add: stream_task_def task_finish_def finish_detector_def)
qed

lemma ideal_task_plain:
  assumes "redact_stream (tk_redactor ti) chunks = Ok segs"
  shows "\<exists>ti'. stream_task env ideal_queue False ti (map Chunk chunks @ [End_of_stream]) = Return ti'
    \<and> tk_queue ti' = tk_queue ti @ rendered segs"
proof -
  from assms obtain red1 red2 outs outs' where
    p: "push_all (tk_redactor ti) chunks = (red1, Ok outs)" "finish red1 = (red2, Ok outs')" "segs = outs @ outs'"
    by (rule redact_stream_Ok)
  from ideal_loop_plain [OF p(1), of env "[End_of_stream]"] obtain h where
    l: "task_loop env ideal_queue False ti (map Chunk chunks @ [End_of_stream])
      = Break (ti\<lparr>tk_redactor := red1, tk_hasher := h, tk_queue := tk_queue ti @ rendered outs\<rparr>) True False"
    by (auto simp: task_turn_def)
  let ?t1 = "ti\<lparr>tk_hasher := h, tk_queue := tk_queue ti @ rendered outs, tk_redactor := red2\<rparr>"
  obtain h2 where "forward_outputs env ideal_queue False False ?t1 outs'
      = Continue (?t1\<lparr>tk_hasher := h2, tk_queue := tk_queue ?t1 @ rendered outs'\<rparr>)"
    using ideal_outputs_plain [of env False ?t1 outs'] by blast
  then show ?thesis using l p(2,3)
    by (simp add: stream_task_def task_finish_def finish_detector_def rendered_def)
qed

section \<open>Properties of the stream task\<close>

lemma start_task_Ok:
  "start_task cr ss q = Ok \<lparr>tk_redactor = \<lparr>sr_state = ss_engine ss, sr_pending = [], sr_max_capacity = 65536\<rparr>,
     tk_hasher = hasher_new cr, tk_detector = ss_detector ss, tk_queue = q\<rparr>"
  by (simp add: start_task_def from_state_def with_state_max_capacity_def DEFAULT_MAX_BUFFER_CAPACITY_def)

text \<open>The rules and the response for which the redactor is exact.\<close>

definition exact_stream :: "EngineState \<Rightarrow> bytes \<Rightarrow> bool" where
  "exact_stream st s \<longleftrightarrow> engine_ok st \<and> overlap_free (es_patterns st) \<and> max_len (es_patterns st) + 3 \<le> 65536
     \<and> valid_utf8 s \<and> case_exact (es_patterns st) s"

lemma exact_stream_redacted:
  assumes "exact_stream st (concat chunks)"
  shows "\<exists>segs. redact_stream \<lparr>sr_state = st, sr_pending = [], sr_max_capacity = 65536\<rparr> chunks = Ok segs
    \<and> rendered segs = redacted st (concat chunks)"
  using redact_stream_spec [of "\<lparr>sr_state = st, sr_pending = [], sr_max_capacity = 65536\<rparr>" chunks] assms
  by (simp add: exact_stream_def)

text \<open>
  C2: End to end, for a response of server-sent events, under the conditions of \<open>exact_stream\<close> (rules whose
  occurrences cannot overlap and of at most 65533 bytes, a response that is valid UTF-8 and spells the rules in the case they
  are configured in) and with a queue that accepts everything (what a failing one keeps is a
  prefix of this, by the refinement below): however the upstream cuts such a response into chunks, what the task sends is
  a sequence of frames that, receipts left out, is exactly the redacted response; if the end marker
  occurs in it there is exactly one receipt, directly in front of the frame that begins with the marker,
  and otherwise none.
\<close>
theorem event_stream_end_to_end:
  assumes "exact_stream (ss_engine ss) (concat chunks)" and "receipts_ok env addr"
    and "ss_detector ss = DoneDetector_new rid tid url addr pd pcr"
    and "start_task (re_crypto env) ss [] = Ok tk"
  shows "\<exists>tk' evs. stream_task env ideal_queue True tk (map Chunk chunks @ [End_of_stream]) = Return tk'
    \<and> tk_queue tk' = concat (map event_bytes evs)
    \<and> concat (map passthrough evs) = redacted (ss_engine ss) (concat chunks)
    \<and> (if has_marker (redacted (ss_engine ss) (concat chunks))
       then \<exists>ds a m ds'. evs = map Data ds @ AuditReceipt a # DoneMarker m # map Data ds' \<and> prefix SSE_DONE_MARKER m
       else \<exists>ds. evs = map Data ds)"
proof -
  have tk: "tk = \<lparr>tk_redactor = \<lparr>sr_state = ss_engine ss, sr_pending = [], sr_max_capacity = 65536\<rparr>,
     tk_hasher = hasher_new (re_crypto env), tk_detector = ss_detector ss, tk_queue = []\<rparr>"
    using assms(4) by (simp add: start_task_Ok)
  obtain segs where segs: "redact_stream (tk_redactor tk) chunks = Ok segs"
    "rendered segs = redacted (ss_engine ss) (concat chunks)"
    using exact_stream_redacted [OF assms(1)] by (auto simp: tk)
  have cat: "concat (map segment_bytes segs) = redacted (ss_engine ss) (concat chunks)"
    using segs(2) by (simp add: rendered_def)
  from detect_stream_conserves [OF assms(2), of rid tid url pd pcr "map segment_bytes segs" "hasher_new (re_crypto env)"]
    detect_stream_shape [OF assms(2), of rid tid url pd pcr "map segment_bytes segs" "hasher_new (re_crypto env)"]
  obtain det h evs where
    d: "detect_stream env (tk_detector tk) (map segment_bytes segs) (tk_hasher tk) = Ok (det, h, evs)"
    and pass: "concat (map passthrough evs) = redacted (ss_engine ss) (concat chunks)"
    and shape: "if has_marker (redacted (ss_engine ss) (concat chunks))
       then \<exists>ds a m ds'. evs = map Data ds @ AuditReceipt a # DoneMarker m # map Data ds' \<and> prefix SSE_DONE_MARKER m
       else \<exists>ds. evs = map Data ds"
    using assms(3) cat by (fastforce simp: tk has_marker_iff split: if_splits)
  from ideal_task_sse [OF segs(1) d] obtain ti' where
    ti': "stream_task env ideal_queue True tk (map Chunk chunks @ [End_of_stream]) = Return ti'"
      "tk_queue ti' = concat (map event_bytes evs)" by (auto simp: tk)
  show ?thesis by (rule exI [of _ ti'], rule exI [of _ evs]) (intro conjI ti' pass shape)
qed

text \<open>
  End to end, for any other response: what the task sends is exactly the redacted response.
\<close>
lemma plain_response_end_to_end:
  assumes "exact_stream (ss_engine ss) (concat chunks)" and "start_task (re_crypto env) ss [] = Ok tk"
  shows "\<exists>tk'. stream_task env ideal_queue False tk (map Chunk chunks @ [End_of_stream]) = Return tk'
    \<and> tk_queue tk' = redacted (ss_engine ss) (concat chunks)"
proof -
  have tk: "tk = \<lparr>tk_redactor = \<lparr>sr_state = ss_engine ss, sr_pending = [], sr_max_capacity = 65536\<rparr>,
     tk_hasher = hasher_new (re_crypto env), tk_detector = ss_detector ss, tk_queue = []\<rparr>"
    using assms(2) by (simp add: start_task_Ok)
  obtain segs where "redact_stream (tk_redactor tk) chunks = Ok segs"
    "rendered segs = redacted (ss_engine ss) (concat chunks)"
    using exact_stream_redacted [OF assms(1)] by (auto simp: tk)
  from ideal_task_plain [OF this(1), of env] this(2) show ?thesis by (simp add: tk)
qed

text \<open>
  C7: Under any failure the client gets a prefix: whatever the upstream, the shutdown signal, the
  budgets, the channel and the timer do, the bytes the response queue has taken are a prefix of what
  the task sends over a queue that never fails, followed at most by a part of one error frame.
\<close>
theorem client_receives_prefix:
  assumes "start_task (re_crypto env) ss (w, []) = Ok tk" and "start_task (re_crypto env) ss [] = Ok ti"
    and "flow_task (stream_task env
           (timed_enqueue ops snd_fn timer \<lparr>bb_semaphore = a, bb_global_memory = g, bb_capacity = OUTPUT_BYTE_BUDGET\<rparr>)
           is_sse tk evs) = Some tk'"
    and "flow_task (stream_task env ideal_queue is_sse ti evs) = Some ti'"
  shows "\<exists>p e reason. log_bytes (tk_queue tk') = p @ e \<and> prefix p (tk_queue ti') \<and> prefix e (terminal_frame reason)"
proof -
  let ?enq = "timed_enqueue ops snd_fn timer \<lparr>bb_semaphore = a, bb_global_memory = g, bb_capacity = OUTPUT_BYTE_BUDGET\<rparr>"
  have "response_queue.sim [] tk ti"
    using assms(1,2) by (auto simp: start_task_Ok response_queue.sim_def log_bytes_def)
  from response_queue.stream_task_sim [OF this, of env ops snd_fn timer a g is_sse evs]
  have "response_queue.partial [] tk' (tk_queue ti')"
    using assms(3,4) response_queue.sim_partial [of "[]" tk' ti']
    by (cases "stream_task env ?enq is_sse tk evs"; cases "stream_task env ideal_queue is_sse ti evs")
       (auto simp: response_queue.simf_def)
  then show ?thesis by (auto simp: response_queue.partial_def)
qed

text \<open>
  After a shutdown the redactor is still flushed: text it was holding back is sent behind the
  receipt and the termination frame, so the receipt does not cover it.
\<close>
lemma shutdown_sends_data_behind_receipt:
  assumes "receipts_ok env addr"
    and "ss_engine ss = pv_engine_state sample_vault" and "ss_detector ss = DoneDetector_new rid tid url addr pd pcr"
    and "start_task (re_crypto env) ss [] = Ok tk"
  shows "\<exists>tk' a. stream_task env ideal_queue True tk [Chunk ''hello pass'', Shutdown_changed True] = Return tk'
    \<and> tk_queue tk' = ''hello '' @ a @ KILLED_BY_SHUTDOWN @ ''pass''"
proof -
  let ?ini = "DoneDetector_new rid tid url addr pd pcr"
  let ?red = "\<lparr>sr_state = pv_engine_state sample_vault, sr_pending = [], sr_max_capacity = 65536\<rparr>"
  have tk: "tk = \<lparr>tk_redactor = ?red, tk_hasher = hasher_new (re_crypto env), tk_detector = ?ini, tk_queue = []\<rparr>"
    using assms(2-4) by (simp add: start_task_Ok)
  have u: "from_utf8 ''hello pass'' = Utf8_Ok" "from_utf8 ''pass'' = Utf8_Ok" by (code_simp, code_simp)
  have b: "determine_safe_boundary_state ''hello pass'' (pv_engine_state sample_vault) = (''hello '', ''pass'')"
    by code_simp
  have f: "ac_find_iter (es_ac (pv_engine_state sample_vault)) ''hello '' = []"
    "ac_find_iter (es_ac (pv_engine_state sample_vault)) ''pass'' = []" by (code_simp, code_simp)
  have push: "push ?red ''hello pass'' = (?red\<lparr>sr_pending := ''pass''\<rparr>, Ok [Input ''hello ''])"
    by (simp add: push_def process_source_def u b redact_source_def slice_checked_def f Prelude.slice_def)
  have fin: "finish \<lparr>sr_state = pv_engine_state sample_vault, sr_pending = ''pass'', sr_max_capacity = 65536\<rparr>
      = (?red, Ok [Input ''pass''])"
    by (simp add: finish_def process_source_def u redact_source_def slice_checked_def f Prelude.slice_def)
  have ins: "inspect env ?ini ''hello '' h = Ok (?ini\<lparr>dd_trailing := ''hello ''\<rparr>, h, [])" for h
    by (simp add: inspect_def SSE_DONE_MARKER_def inspect_retain_def)
  have ok: "receipts_ok env (dd_request_hasher ?ini)" using assms(1) by simp
  have sd: "shutdown_events env (?ini\<lparr>dd_trailing := ''hello ''\<rparr>) h = Ok (?ini\<lparr>dd_completed := True\<rparr>,
      hasher_update (re_crypto env) h ''hello '',
      [Data ''hello '', AuditReceipt (audit_frame env ?ini (payload_hex env (hasher_update (re_crypto env) h ''hello ''))),
       DoneMarker KILLED_BY_SHUTDOWN])" for h
    by (simp add: shutdown_events_def receipt_events_eq [OF ok])
  have ins2: "inspect env (?ini\<lparr>dd_completed := True\<rparr>) ''pass'' h = Ok (?ini\<lparr>dd_completed := True\<rparr>, h, [Data ''pass''])" for h
    by (simp add: inspect_def)
  show ?thesis
    by (simp add: tk stream_task_def task_turn_def push forward_output_def ins sd task_finish_def fin ins2
        finish_detector_def DoneDetector_finish_def)
qed

lemma terminal_not_streaming:
  "terminal_response pe det h s hs = Ok resp \<Longrightarrow> rs_body resp \<noteq> Streaming ss"
  by (auto simp: terminal_response_def Let_def split: prod.splits option.splits)

text \<open>
  The receipt names the rules in force exactly when no reload came between: the policy digest in
  the receipts of a stream is the digest of the rules that redact it if and only if the rules read
  when the request arrived and those read when the upstream had answered have the same digest.
\<close>
lemma receipt_policy_digest_may_be_stale:
  assumes "proxy_with_upstream lib pe url addr st st' req = Ok resp" and "rs_body resp = Streaming ss"
  defines "digest \<equiv> policy_digest (pe_rules_to_vec pe)
      (\<lambda>b. to_hex (re_crypto (pe_receipt pe)) (blake3_hash (re_crypto (pe_receipt pe)) b))"
  shows "dd_policy_digest (ss_detector ss) = digest (ss_engine ss)
    \<longleftrightarrow> digest (as_engine_state st) = digest (as_engine_state st')"
proof -
  have "ss_engine ss = as_engine_state st'" "dd_policy_digest (ss_detector ss) = digest (as_engine_state st)"
    using assms(1,2) unfolding digest_def
    by (auto simp: proxy_with_upstream_def status_response_def DoneDetector_new_def Let_def
        split: option.splits if_splits send_result.splits dest: terminal_not_streaming)
  then show ?thesis by simp
qed

lemma terminal_response_spec:
  assumes "\<forall>r s. pe_terminal_to_vec pe r s \<noteq> None"
  shows "\<exists>resp body. (terminal_response pe det h st hs :: ('c http_response, unit) outcome) = Ok resp
    \<and> rs_status resp = (if 100 \<le> st \<and> st < 1000 then st else 502) \<and> rs_body resp = Full body
    \<and> pe_terminal_to_vec pe (fst (terminal_receipt pe det h)) (snd (terminal_receipt pe det h)) = Some body
    \<and> header_get (rs_headers resp) ''x-redaction-digest''
        = Some (to_hex (re_crypto (pe_receipt pe)) (blake3_hash (re_crypto (pe_receipt pe)) body))"
proof -
  obtain r s where t: "terminal_receipt pe det h = (r, s)" by fastforce
  obtain body where b: "pe_terminal_to_vec pe r s = Some body" using assms by blast
  then show ?thesis by (auto simp: terminal_response_def t b header_get_def Let_def split: option.splits)
qed

text \<open>
  C30: A failing upstream is answered with a signed receipt and nothing of its own body. The answer has the
  upstream's status and does not depend on what the upstream streams; its body is the encoding of exactly one
  receipt and signature: the receipt names the request identifier, the tenant, the upstream, the hash of the
  request body as far as it was read, the payload \<open>TERMINAL_ERROR\<close>, the digest of the rules in force, the measurement
  and the digest of these seven fields, and the signature is the proxy's over that digest.
  \<open>x-redaction-digest\<close> is the hash of the body.
\<close>
theorem failing_upstream_body_withheld:
  assumes "pe_stream_permit pe" and "pe_memory_permit pe"
    and "(case pe_pcr0_hash pe of Some v \<Rightarrow> Some v | None \<Rightarrow> pe_mock_pcr0 pe) = Some pcr0"
    and "\<forall>r s. pe_terminal_to_vec pe r s \<noteq> None"
    and "pe_send pe (build_upstream_request url req) = Send_ok up" and "\<not> is_success (up_status up)"
    and "pe' = pe\<lparr>pe_send := (\<lambda>_. Send_ok (up\<lparr>up_events := evs\<rparr>))\<rparr>"
  shows "let cr = re_crypto (pe_receipt pe);
      request_hash = to_hex cr (hasher_finalize cr (hash_request cr (take (pe_consumed pe (rq_body req)) (rq_body req))));
      payload_hash = to_hex cr (blake3_hash cr ''TERMINAL_ERROR'');
      policy = policy_digest (pe_rules_to_vec pe) (\<lambda>b. to_hex cr (blake3_hash cr b)) (as_engine_state st);
      digest = canonical_receipt_digest cr (request_id_of lib req) (pe_hex pe (tenant_of req)) url request_hash policy
        pcr0 payload_hash;
      receipt = \<lparr>ar_request_id = request_id_of lib req, ar_tenant_id = pe_hex pe (tenant_of req), ar_upstream_url = url,
        ar_request_hash = request_hash, ar_payload_hash = payload_hash, ar_policy_digest = policy, ar_pcr0 = pcr0,
        ar_tuple_digest = to_hex cr digest, ar_timestamp = unix_secs (re_now (pe_receipt pe))\<rparr>;
      signature = b64_encode cr (ed25519_sign cr (re_key (pe_receipt pe)) digest) in
    \<exists>resp body. proxy_with_upstream lib pe url addr st st' req = Ok resp
      \<and> rs_status resp = (if 100 \<le> up_status up \<and> up_status up < 1000 then up_status up else 502)
      \<and> pe_terminal_to_vec pe receipt signature = Some body \<and> rs_body resp = Full body
      \<and> header_get (rs_headers resp) ''x-redaction-digest'' = Some (to_hex cr (blake3_hash cr body))
      \<and> proxy_with_upstream lib pe' url addr st st' req = Ok resp"
proof -
  have pcr': "(case pe_pcr0_hash pe' of Some v \<Rightarrow> Some v | None \<Rightarrow> pe_mock_pcr0 pe') = Some pcr0"
    using assms(3) by (cases "pe_pcr0_hash pe") (simp_all add: assms(7))
  let ?cr = "re_crypto (pe_receipt pe)"
  let ?det = "DoneDetector_new (request_id_of lib req) (pe_hex pe (tenant_of req)) url addr
    (policy_digest (pe_rules_to_vec pe) (\<lambda>b. to_hex ?cr (blake3_hash ?cr b)) (as_engine_state st)) pcr0"
  let ?h = "hash_request ?cr (take (pe_consumed pe (rq_body req)) (rq_body req))"
  let ?res = "terminal_response pe ?det ?h (up_status up) (up_headers up) :: (stream_start http_response, unit) outcome"
  have p: "proxy_with_upstream lib pe url addr st st' req = ?res"
    using assms(1,2,5,6) by (simp add: proxy_with_upstream_def assms(3) Let_def)
  have p': "proxy_with_upstream lib pe' url addr st st' req = ?res"
  proof -
    have f: "pe_stream_permit pe'" "pe_memory_permit pe'" "pe_receipt pe' = pe_receipt pe" "pe_hex pe' = pe_hex pe"
      "pe_rules_to_vec pe' = pe_rules_to_vec pe" "pe_consumed pe' = pe_consumed pe"
      "pe_send pe' (build_upstream_request url req) = Send_ok (up\<lparr>up_events := evs\<rparr>)"
      using assms(1,2) by (simp_all add: assms(7))
    have t: "(terminal_response pe' d h s hs :: (stream_start http_response, unit) outcome)
        = terminal_response pe d h s hs" for d h s hs
      by (simp add: terminal_response_def terminal_receipt_def assms(7))
    show ?thesis using assms(6) f by (simp add: proxy_with_upstream_def pcr' t Let_def)
  qed
  obtain resp body where res: "?res = Ok resp"
    "rs_status resp = (if 100 \<le> up_status up \<and> up_status up < 1000 then up_status up else 502)" "rs_body resp = Full body"
    "pe_terminal_to_vec pe (fst (terminal_receipt pe ?det ?h)) (snd (terminal_receipt pe ?det ?h)) = Some body"
    "header_get (rs_headers resp) ''x-redaction-digest'' = Some (to_hex ?cr (blake3_hash ?cr body))"
    using terminal_response_spec [OF assms(4), of ?det ?h "up_status up" "up_headers up"] by blast
  note enc = res(4) [unfolded terminal_receipt_def DoneDetector_new_def Let_def, simplified]
  show ?thesis unfolding Let_def using p p' res enc by (intro exI [of _ resp] exI [of _ body]) simp
qed

section \<open>Witnesses\<close>

definition sample_start :: stream_start where
  "sample_start = \<lparr>ss_is_sse = True, ss_engine = pv_engine_state sample_vault,
     ss_detector = DoneDetector_new ''r'' ''t'' ''u'' 0 ''p'' ''0'', ss_tenant = ''t'', ss_capacity = OUTPUT_BYTE_BUDGET,
     ss_items = 32, ss_events = []\<rparr>"

definition sample_task :: "'q \<Rightarrow> (bytes, 'q) task" where
  "sample_task q = \<lparr>tk_redactor = \<lparr>sr_state = pv_engine_state sample_vault, sr_pending = [], sr_max_capacity = 65536\<rparr>,
     tk_hasher = [], tk_detector = DoneDetector_new ''r'' ''t'' ''u'' 0 ''p'' ''0'', tk_queue = q\<rparr>"

lemma sample_task_start: "start_task (re_crypto sample_renv) sample_start q = Ok (sample_task q)"
  by (simp add: start_task_Ok sample_start_def sample_task_def sample_renv_def sample_crypto_def)

lemma sample_exact: "exact_stream (ss_engine sample_start) (concat [''my pass'', ''word data: [DO'', ''NE]''])"
proof -
  have e: "ss_engine sample_start = pv_engine_state sample_vault" "es_patterns (pv_engine_state sample_vault) = default_patterns"
    by (simp_all add: sample_start_def sample_vault_def Let_def)
  have "valid_utf8 (concat [''my pass'', ''word data: [DO'', ''NE]''])" by code_simp
  moreover have "case_exact default_patterns (concat [''my pass'', ''word data: [DO'', ''NE]''])"
    unfolding case_exact_reference [OF sample_rules(1)] by code_simp
  ultimately show ?thesis using sample_engine_ok sample_rules by (simp add: exact_stream_def e)
qed

lemma sample_redacted:
  "redacted (ss_engine sample_start) (concat [''my pass'', ''word data: [DO'', ''NE]'']) = ''my [REDACTED] data: [DONE]''"
proof -
  have "redacted (pv_engine_state sample_vault) (concat [''my pass'', ''word data: [DO'', ''NE]''])
      = ''my [REDACTED] data: [DONE]''" by code_simp
  then show ?thesis by (simp add: sample_start_def)
qed

theorem event_stream_end_to_end_witness:
  "\<exists>tk' evs. stream_task sample_renv ideal_queue True (sample_task [])
       (map Chunk [''my pass'', ''word data: [DO'', ''NE]''] @ [End_of_stream]) = Return tk'
    \<and> tk_queue tk' = concat (map event_bytes evs)
    \<and> concat (map passthrough evs) = ''my [REDACTED] data: [DONE]''"
proof -
  have d: "ss_detector sample_start = DoneDetector_new ''r'' ''t'' ''u'' 0 ''p'' ''0''" by (simp add: sample_start_def)
  from event_stream_end_to_end [OF sample_exact sample_receipts_ok d sample_task_start] show ?thesis
    unfolding sample_redacted by blast
qed

lemma plain_response_end_to_end_witness:
  "\<exists>tk'. stream_task sample_renv ideal_queue False (sample_task [])
       (map Chunk [''my pass'', ''word data: [DO'', ''NE]''] @ [End_of_stream]) = Return tk'
    \<and> tk_queue tk' = ''my [REDACTED] data: [DONE]''"
proof -
  from plain_response_end_to_end [OF sample_exact sample_task_start] show ?thesis unfolding sample_redacted .
qed

text \<open>A queue whose channel is closed from the start, and an upstream that fails.\<close>

theorem client_receives_prefix_witness:
  "\<exists>p e reason. log_bytes (tk_queue (the (flow_task (stream_task sample_renv
       (timed_enqueue counting_ops (\<lambda>w s. (w, False)) (\<lambda>_. None)
          \<lparr>bb_semaphore = 1, bb_global_memory = 0, bb_capacity = OUTPUT_BYTE_BUDGET\<rparr>) False
       (sample_task (tight_world, [])) [Read_error])))) = p @ e
    \<and> prefix p (terminal_frame ''upstream_read_failed'') \<and> prefix e (terminal_frame reason)"
proof -
  let ?enq = "timed_enqueue counting_ops (\<lambda>w s. (w, False)) (\<lambda>_. None)
    \<lparr>bb_semaphore = 1, bb_global_memory = 0, bb_capacity = OUTPUT_BYTE_BUDGET\<rparr>"
  have 1: "flow_task (stream_task sample_renv ?enq False (sample_task (tight_world, [])) [Read_error])
      = Some (the (flow_task (stream_task sample_renv ?enq False (sample_task (tight_world, [])) [Read_error])))"
    by (simp add: stream_task_def task_turn_def terminate_def)
  have 2: "flow_task (stream_task sample_renv ideal_queue False (sample_task []) [Read_error])
      = Some ((sample_task [])\<lparr>tk_queue := terminal_frame ''upstream_read_failed''\<rparr>)"
    by (simp add: stream_task_def task_turn_def terminate_def sample_task_def)
  from client_receives_prefix [OF sample_task_start sample_task_start 1 2] show ?thesis by simp
qed

lemma shutdown_sends_data_behind_receipt_witness:
  "\<exists>tk' a. stream_task sample_renv ideal_queue True (sample_task []) [Chunk ''hello pass'', Shutdown_changed True] = Return tk'
    \<and> tk_queue tk' = ''hello '' @ a @ KILLED_BY_SHUTDOWN @ ''pass''"
  by (rule shutdown_sends_data_behind_receipt [OF sample_receipts_ok _ _ sample_task_start])
     (simp_all add: sample_start_def)

definition reloaded_state :: AppState where
  "reloaded_state = sample_state\<lparr>as_engine_state := (pv_engine_state sample_vault)\<lparr>es_patterns := [''iban'']\<rparr>\<rparr>"

lemma receipt_policy_digest_may_be_stale_witness:
  "\<exists>resp ss. proxy_with_upstream sample_lib (sample_proxy_env 200) ''u'' 0 sample_state reloaded_state
       (sample_request ''/v1/chat/completions'' ''alice'') = Ok resp \<and> rs_body resp = Streaming ss
     \<and> dd_policy_digest (ss_detector ss) \<noteq> policy_digest (\<lambda>(ps, rs). concat ps @ concat rs) (\<lambda>b. b) (ss_engine ss)"
proof -
  let ?res = "proxy_with_upstream sample_lib (sample_proxy_env 200) ''u'' 0 sample_state reloaded_state
       (sample_request ''/v1/chat/completions'' ''alice'')"
  have "\<exists>resp ss. ?res = Ok resp \<and> rs_body resp = Streaming ss"
    by (simp add: proxy_with_upstream_def sample_proxy_env_def is_success_def Let_def)
  then obtain resp ss where r: "?res = Ok resp" "rs_body resp = Streaming ss" by blast
  have cr: "re_crypto (pe_receipt (sample_proxy_env 200)) = sample_crypto"
    "pe_rules_to_vec (sample_proxy_env 200) = (\<lambda>(ps, rs). concat ps @ concat rs)"
    "(\<lambda>b. to_hex sample_crypto (blake3_hash sample_crypto b)) = (\<lambda>b. b)"
    by (simp_all add: sample_proxy_env_def sample_renv_def sample_crypto_def)
  have "policy_digest (\<lambda>(ps, rs). concat ps @ concat rs) (\<lambda>b. b) (as_engine_state sample_state)
      \<noteq> policy_digest (\<lambda>(ps, rs). concat ps @ concat rs) (\<lambda>b. b) (as_engine_state reloaded_state)"
    by (simp add: policy_digest_def sample_state_def reloaded_state_def sample_vault_def default_patterns_def Let_def)
  then show ?thesis using receipt_policy_digest_may_be_stale [OF r, unfolded cr] r by blast
qed

theorem failing_upstream_body_withheld_witness:
  "\<exists>resp. proxy_with_upstream sample_lib (sample_proxy_env 500) ''u'' 0 sample_state sample_state
       (sample_request ''/v1/chat/completions'' ''alice'') = Ok resp \<and> rs_status resp = 500
    \<and> (\<exists>digest. rs_body resp = Full (to_hex sample_crypto (blake3_hash sample_crypto ''TERMINAL_ERROR'')
         @ b64_encode sample_crypto (ed25519_sign sample_crypto (re_key sample_renv) digest)))"
proof -
  let ?up = "\<lparr>up_status = 500, up_headers = [(''content-type'', ''Text/Event-Stream'')], up_events = [Chunk ''stack trace'']\<rparr>"
  have h: "pe_stream_permit (sample_proxy_env 500)" "pe_memory_permit (sample_proxy_env 500)"
    "(case pe_pcr0_hash (sample_proxy_env 500) of Some v \<Rightarrow> Some v | None \<Rightarrow> pe_mock_pcr0 (sample_proxy_env 500)) = Some ''0''"
    "\<forall>r s. pe_terminal_to_vec (sample_proxy_env 500) r s \<noteq> None"
    "pe_send (sample_proxy_env 500) (build_upstream_request ''u'' (sample_request ''/v1/chat/completions'' ''alice'')) = Send_ok ?up"
    "\<not> is_success (up_status ?up)"
    by (simp_all add: sample_proxy_env_def is_success_def)
  have env: "re_crypto (pe_receipt (sample_proxy_env 500)) = sample_crypto" "re_key (pe_receipt (sample_proxy_env 500)) = re_key sample_renv"
    "pe_terminal_to_vec (sample_proxy_env 500) r s = Some (ar_payload_hash r @ s)" for r s
    by (simp_all add: sample_proxy_env_def sample_renv_def)
  from failing_upstream_body_withheld [where lib = sample_lib and addr = 0 and st = sample_state and st' = sample_state
      and evs = "[]", OF h refl]
  show ?thesis unfolding Let_def env by auto
qed

section \<open>What leaves towards the upstream\<close>

lemma upstream_headers:
  "header_get (uq_headers (build_upstream_request url req)) n =
     (if n = ''content-type'' then header_get (rq_headers req) ''content-type''
      else if n = ''x-request-id'' then request_id_header req else None)"
  by (auto simp: build_upstream_request_def header_get_def split: option.splits)

text \<open>Two requests the handler cannot tell apart.\<close>

definition same_payload :: "http_request \<Rightarrow> http_request \<Rightarrow> bool" where
  "same_payload req req' \<longleftrightarrow>
     rq_body req = rq_body req' \<and> rq_tenant req = rq_tenant req' \<and> request_id_header req = request_id_header req'
     \<and> header_get (rq_headers req) ''content-type'' = header_get (rq_headers req') ''content-type''"

text \<open>
  C17: The client's credentials stay in the proxy. A request to the upstream carries no header of the
  client but its content type and the request identifier, and neither it nor the answer depends on
  anything else of the client's headers, its path or its query: requests that agree in body, tenant,
  identifier and content type are sent and answered alike, so in particular the bearer token does not
  leave the proxy.
\<close>
theorem credentials_not_forwarded:
  assumes "same_payload req req'"
  shows "build_upstream_request url req = build_upstream_request url req'
    \<and> proxy_with_upstream lib pe url addr st st' req = proxy_with_upstream lib pe url addr st st' req'
    \<and> (n \<notin> {''content-type'', ''x-request-id''} \<longrightarrow>
         header_get (uq_headers (build_upstream_request url req)) n = None)"
proof -
  have eq: "build_upstream_request url req = build_upstream_request url req'" "request_id_of lib req = request_id_of lib req'"
    "tenant_of req = tenant_of req'" "rq_body req = rq_body req'"
    using assms by (simp_all add: same_payload_def build_upstream_request_def request_id_of_def tenant_of_def)
  then have "proxy_with_upstream lib pe url addr st st' req = proxy_with_upstream lib pe url addr st st' req'"
    by (simp only: proxy_with_upstream_def)
  then show ?thesis using eq(1) by (simp add: upstream_headers)
qed

theorem credentials_not_forwarded_witness:
  "proxy_with_upstream sample_lib (sample_proxy_env 200) ''u'' 0 sample_state sample_state
      (sample_request ''/v1/chat/completions'' ''alice'')
    = proxy_with_upstream sample_lib (sample_proxy_env 200) ''u'' 0 sample_state sample_state
      (sample_request ''/v1/chat/completions'' ''bob'')
   \<and> header_get (uq_headers (build_upstream_request ''u'' (sample_request ''/v1/chat/completions'' ''alice''))) ''authorization'' = None"
proof -
  have "same_payload (sample_request ''/v1/chat/completions'' ''alice'') (sample_request ''/v1/chat/completions'' ''bob'')"
    by (simp add: same_payload_def sample_request_def request_id_header_def header_get_def)
  from credentials_not_forwarded [OF this, of "''u''" sample_lib "sample_proxy_env 200" 0 sample_state sample_state "''authorization''"]
  moreover have "''authorization'' \<notin> {''content-type'', ''x-request-id''}" by simp
  ultimately show ?thesis by blast
qed

end
