(* ===== verification/Config.thy ===== *)
theory Config
  imports Redaction RustStr
begin

text \<open>
  The configuration of \<open>src/main.rs\<close>: the keyring and rules files and the two file watchers as state
  transformers. Reading a file and the notifications are the environment's: a watcher step gets the
  event and the results of the reads.
\<close>

section \<open>The files\<close>

definition hash_keyring :: "(bytes \<Rightarrow> bytes) \<Rightarrow> bytes \<Rightarrow> bytes list" where
  "hash_keyring hash source = map hash (filter (\<lambda>token. token \<noteq> []) (map trim (lines source)))"

text \<open>One entry of the rules: the pattern and its replacement, nothing for a blank one.\<close>

definition parse_entry :: "bytes \<Rightarrow> (bytes \<times> bytes) list" where
  "parse_entry raw =
     (let entry = trim raw in
      if entry = [] then []
      else case split_once (CHR 0x3A) entry of
        Some (pattern, replacement) \<Rightarrow>
          if trim pattern \<noteq> [] \<and> trim replacement \<noteq> [] then [(trim pattern, trim replacement)]
          else [(entry, ''[REDACTED]'')]
      | None \<Rightarrow> [(entry, ''[REDACTED]'')])"

definition parse_pii_config :: "bytes \<Rightarrow> bytes list \<times> bytes list" where
  "parse_pii_config source =
     foldl (\<lambda>(patterns, replacements) raw.
        (patterns @ map fst (parse_entry raw), replacements @ map snd (parse_entry raw)))
       ([], []) (split_on (\<lambda>c. c = CHR 0x0A \<or> c = CHR 0x2C) source)"

definition parse_allowed_origins :: "bytes option \<Rightarrow> bytes list" where
  "parse_allowed_origins var =
     (case var of
        None \<Rightarrow> []
      | Some origins \<Rightarrow> filter (\<lambda>origin. origin \<noteq> []) (map trim (split_on (\<lambda>c. c = CHR 0x2C) origins)))"

section \<open>The watchers\<close>

record config_state =
  cs_auth_keyring :: "bytes list"
  cs_tenant_budgets :: "bytes \<Rightarrow> nat option"
  cs_vault :: PiiVault
  cs_engine_state :: EngineState

text \<open>
  A notification: an error, an event for other files, or one that concerns the watched file (its path,
  or the \<open>..data\<close> link of a mounted secret) with the results of reading it now and after each delay.
\<close>

datatype file_event = Watch_error | Other_file | Changed "bytes option list"

fun read_with_retries :: "nat \<Rightarrow> bytes option list \<Rightarrow> bytes option" where
  "read_with_retries 0 rs = None"
| "read_with_retries (Suc n) [] = None"
| "read_with_retries (Suc n) (Some c # rs) = Some c"
| "read_with_retries (Suc n) (None # rs) = read_with_retries n rs"

definition watch_auth_file :: "(bytes \<Rightarrow> bytes) \<Rightarrow> config_state \<Rightarrow> file_event \<Rightarrow> config_state" where
  "watch_auth_file hash st ev =
     (case ev of
        Changed reads \<Rightarrow>
          (case read_with_retries 4 reads of
             None \<Rightarrow> st
           | Some contents \<Rightarrow>
               let next_keyring = hash_keyring hash contents in
               if next_keyring = [] then st
               else st\<lparr>cs_tenant_budgets := (\<lambda>_. None), cs_auth_keyring := next_keyring\<rparr>)
      | _ \<Rightarrow> st)"

text \<open>A rule set the automaton cannot be built from panics, which ends the watcher's thread.\<close>

definition watch_pii_config ::
  "ac_builder \<Rightarrow> (bytes \<Rightarrow> bytes option) \<Rightarrow> config_state \<Rightarrow> file_event \<Rightarrow> (config_state, unit) outcome" where
  "watch_pii_config build to_string st ev =
     (case ev of
        Changed reads \<Rightarrow>
          (case read_with_retries 4 reads of
             None \<Rightarrow> Ok st
           | Some contents \<Rightarrow>
               let (patterns, replacements) = parse_pii_config contents in
               obind (PiiVault_new build to_string patterns replacements) (\<lambda>next_vault.
               obind (EngineState_new build patterns replacements) (\<lambda>next_engine_state.
               Ok (st\<lparr>cs_vault := next_vault, cs_engine_state := next_engine_state\<rparr>))))
      | _ \<Rightarrow> Ok st)"

text \<open>A watcher's thread: its events one after the other.\<close>

definition watch_auth_loop :: "(bytes \<Rightarrow> bytes) \<Rightarrow> config_state \<Rightarrow> file_event list \<Rightarrow> config_state" where
  "watch_auth_loop hash st evs = foldl (watch_auth_file hash) st evs"

fun watch_pii_loop ::
  "ac_builder \<Rightarrow> (bytes \<Rightarrow> bytes option) \<Rightarrow> config_state \<Rightarrow> file_event list \<Rightarrow> (config_state, unit) outcome" where
  "watch_pii_loop build to_string st [] = Ok st"
| "watch_pii_loop build to_string st (ev # evs) =
     obind (watch_pii_config build to_string st ev) (\<lambda>st'. watch_pii_loop build to_string st' evs)"

section \<open>Parsing the rules\<close>

lemma parse_pii_config_eq:
  "parse_pii_config source =
     (let es = concat (map parse_entry (split_on (\<lambda>c. c = CHR 0x0A \<or> c = CHR 0x2C) source)) in (map fst es, map snd es))"
proof -
  have "foldl (\<lambda>(ps, rs) raw. (ps @ map fst (parse_entry raw), rs @ map snd (parse_entry raw))) (a, b) xs
      = (a @ map fst (concat (map parse_entry xs)), b @ map snd (concat (map parse_entry xs)))" for a b xs
    by (induction xs arbitrary: a b) simp_all
  then show ?thesis by (simp add: parse_pii_config_def Let_def)
qed

lemma redacted_literal_clean: "clean ''[REDACTED]''"
  by (simp add: clean_def clean_front_def whitespace_def upt_rec)

lemma parse_entry_wf:
  assumes "(p, r) \<in> set (parse_entry raw)"
  shows "p \<noteq> [] \<and> clean p \<and> set p \<subseteq> set raw \<and> r \<noteq> [] \<and> clean r"
proof (cases "split_once (CHR 0x3A) (trim raw)")
  case None
  then show ?thesis using assms set_trim [of raw] redacted_literal_clean trim_clean
    by (auto simp: parse_entry_def Let_def split: if_splits)
next
  case (Some ab)
  obtain a b where ab: "ab = (a, b)" by (cases ab)
  have "set (trim a) \<subseteq> set raw"
    using set_trim [of a] set_trim [of raw] split_once_parts [OF Some [unfolded ab]] by auto
  then show ?thesis using assms Some ab set_trim [of raw] redacted_literal_clean trim_clean
    by (auto simp: parse_entry_def Let_def split: if_splits)
qed

section \<open>Properties\<close>

text \<open>
  The rules a file is parsed into are well-formed, whatever the file: as many replacements as
  patterns, and all of them non-empty and without surrounding whitespace, the patterns without the
  separators. So reloading the rules cannot fail in the length check of \<open>PiiVault::new\<close>, but only
  when no automaton can be built.
\<close>
lemma pii_config_wellformed:
  assumes "parse_pii_config source = (patterns, replacements)"
  shows "length patterns = length replacements
    \<and> (\<forall>p \<in> set patterns. p \<noteq> [] \<and> trim p = p \<and> CHR 0x0A \<notin> set p \<and> CHR 0x2C \<notin> set p)
    \<and> (\<forall>r \<in> set replacements. r \<noteq> [] \<and> trim r = r)
    \<and> ((PiiVault_new build to_string patterns replacements :: (PiiVault, unit) outcome) = Panic
         \<longleftrightarrow> build patterns = None)"
proof -
  let ?pieces = "split_on (\<lambda>c. c = CHR 0x0A \<or> c = CHR 0x2C) source"
  let ?es = "concat (map parse_entry ?pieces)"
  have eq: "patterns = map fst ?es" "replacements = map snd ?es"
    using assms by (simp_all add: parse_pii_config_eq Let_def)
  have e: "p \<noteq> [] \<and> trim p = p \<and> CHR 0x0A \<notin> set p \<and> CHR 0x2C \<notin> set p \<and> r \<noteq> [] \<and> trim r = r"
    if pr: "(p, r) \<in> set ?es" for p r
  proof -
    from pr obtain raw where raw: "raw \<in> set ?pieces" "(p, r) \<in> set (parse_entry raw)" by auto
    have "CHR 0x0A \<notin> set raw" "CHR 0x2C \<notin> set raw" using split_on_pieces [OF raw(1)] by auto
    then show ?thesis using parse_entry_wf [OF raw(2)] by (auto simp: clean_iff)
  qed
  have len: "length patterns = length replacements" by (simp add: eq)
  have "(PiiVault_new build to_string patterns replacements :: (PiiVault, unit) outcome) = Panic
      \<longleftrightarrow> build patterns = None"
    using len by (cases "build patterns")
      (simp_all add: PiiVault_new_def EngineState_new_def build_redaction_dfa_eq expect_def)
  then show ?thesis using len e unfolding eq by (auto simp del: set_concat)
qed

text \<open>A rule as it is written in the file.\<close>

definition render_rule :: "bytes \<times> bytes \<Rightarrow> bytes" where
  "render_rule pr = fst pr @ [CHR 0x3A] @ snd pr"

fun render_rules :: "(bytes \<times> bytes) list \<Rightarrow> bytes" where
  "render_rules [] = []"
| "render_rules [pr] = render_rule pr"
| "render_rules (pr # prs) = render_rule pr @ [CHR 0x2C] @ render_rules prs"

definition writable :: "bytes \<times> bytes \<Rightarrow> bool" where
  "writable pr \<longleftrightarrow> fst pr \<noteq> [] \<and> snd pr \<noteq> [] \<and> trim (fst pr) = fst pr \<and> trim (snd pr) = snd pr
     \<and> CHR 0x3A \<notin> set (fst pr) \<and> {CHR 0x0A, CHR 0x2C} \<inter> (set (fst pr) \<union> set (snd pr)) = {}"

lemma whitespace_no_colon: "w \<in> set whitespace \<Longrightarrow> CHR 0x3A \<notin> set w"
proof -
  have "list_all (\<lambda>w. CHR 0x3A \<notin> set w) whitespace" by code_simp
  then show "w \<in> set whitespace \<Longrightarrow> CHR 0x3A \<notin> set w" by (auto simp: list_all_iff)
qed

lemma render_rule_clean:
  assumes "writable pr"
  shows "trim (render_rule pr) = render_rule pr"
proof -
  have c: "clean (fst pr)" "clean (snd pr)" using assms by (simp_all add: writable_def clean_iff)
  have "clean_front whitespace (fst pr @ CHR 0x3A # snd pr)"
    by (rule clean_front_append) (use c assms whitespace_no_colon in \<open>auto simp: clean_def writable_def\<close>)
  moreover have "clean_front (map rev whitespace) (rev (snd pr) @ CHR 0x3A # rev (fst pr))"
    by (rule clean_front_append) (use c assms whitespace_no_colon in \<open>auto simp: clean_def writable_def\<close>)
  ultimately have "clean (render_rule pr)" by (simp add: clean_def render_rule_def)
  then show ?thesis by (simp add: clean_iff)
qed

lemma parse_entry_render: "writable pr \<Longrightarrow> parse_entry (render_rule pr) = [pr]"
  using render_rule_clean [of pr] split_once_append [of "CHR 0x3A" "fst pr" "snd pr"]
  by (cases pr) (auto simp: parse_entry_def writable_def render_rule_def Let_def)

lemma split_render_rules:
  "\<forall>pr \<in> set prs. writable pr \<Longrightarrow> prs \<noteq> [] \<Longrightarrow>
   split_on (\<lambda>c. c = CHR 0x0A \<or> c = CHR 0x2C) (render_rules prs) = map render_rule prs"
proof (induction prs rule: render_rules.induct)
  case (2 pr)
  then show ?case by (auto simp: writable_def render_rule_def intro!: split_on_none)
next
  case (3 pr v va)
  have "\<forall>c \<in> set (render_rule pr). \<not> (c = CHR 0x0A \<or> c = CHR 0x2C)"
    using 3(2) by (auto simp: writable_def render_rule_def)
  from split_on_append [of "render_rule pr" "\<lambda>c. c = CHR 0x0A \<or> c = CHR 0x2C" "CHR 0x2C", OF this] 3
  show ?case by simp
qed simp

text \<open>
  Round trip of the rules file: any list of rules whose patterns and replacements are
  trimmed, non-empty and free of the separators is read back exactly, in order, from the file that
  lists them.
\<close>
lemma pii_config_roundtrip:
  assumes "\<forall>pr \<in> set rules. writable pr" and "rules \<noteq> []"
  shows "parse_pii_config (render_rules rules) = (map fst rules, map snd rules)"
proof -
  have "concat (map parse_entry (map render_rule rules)) = rules"
    using assms(1) parse_entry_render by (induction rules) auto
  then show ?thesis by (simp add: parse_pii_config_eq split_render_rules [OF assms] Let_def del: map_map)
qed

lemma pii_config_roundtrip_witness:
  "parse_pii_config (render_rules [(''ssn'', ''[SSN]''), (''api key'', ''a:b'')])
     = ([''ssn'', ''api key''], [''[SSN]'', ''a:b''])"
proof -
  have "list_all writable [(''ssn'', ''[SSN]''), (''api key'', ''a:b'')]" by code_simp
  then have "\<forall>pr \<in> set [(''ssn'', ''[SSN]''), (''api key'', ''a:b'')]. writable pr"
    by (simp only: list_all_iff)
  from pii_config_roundtrip [OF this] show ?thesis by simp
qed

lemma pii_config_wellformed_witness:
  "parse_pii_config '' ssn : [SSN] ,, secret:'' = ([''ssn'', ''secret:''], [''[SSN]'', ''[REDACTED]''])
    \<and> trim ''ssn'' = ''ssn''
    \<and> (PiiVault_new reference_build Some [''ssn'', ''secret:''] [''[SSN]'', ''[REDACTED]''] :: (PiiVault, unit) outcome)
        \<noteq> Panic"
proof -
  have p: "parse_pii_config '' ssn : [SSN] ,, secret:'' = ([''ssn'', ''secret:''], [''[SSN]'', ''[REDACTED]''])"
    by code_simp
  show ?thesis using p pii_config_wellformed [OF p, of reference_build Some]
    by (auto simp: reference_build_def)
qed

section \<open>What the watchers keep\<close>

text \<open>The contents a watcher gets to see, one for each event whose reads succeed in time.\<close>

definition event_contents :: "file_event \<Rightarrow> bytes list" where
  "event_contents ev =
     (case ev of
        Changed reads \<Rightarrow> (case read_with_retries 4 reads of None \<Rightarrow> [] | Some c \<Rightarrow> [c])
      | _ \<Rightarrow> [])"

definition read_contents :: "file_event list \<Rightarrow> bytes list" where
  "read_contents evs = concat (map event_contents evs)"

definition keyring_ok :: "(bytes \<Rightarrow> bytes) \<Rightarrow> bytes list \<Rightarrow> bool" where
  "keyring_ok hash ring \<longleftrightarrow>
     ring \<noteq> [] \<and> (\<forall>h \<in> set ring. \<exists>token. token \<noteq> [] \<and> trim token = token \<and> h = hash token)"

lemma hash_keyring_ok: "hash_keyring hash c \<noteq> [] \<Longrightarrow> keyring_ok hash (hash_keyring hash c)"
  using trim_clean by (auto simp: keyring_ok_def hash_keyring_def clean_iff)

lemma watch_auth_file_eq:
  "watch_auth_file hash st ev =
     (case event_contents ev of
        [] \<Rightarrow> st
      | c # _ \<Rightarrow> if hash_keyring hash c = [] then st
          else st\<lparr>cs_tenant_budgets := (\<lambda>_. None), cs_auth_keyring := hash_keyring hash c\<rparr>)"
  by (simp add: watch_auth_file_def event_contents_def Let_def split: file_event.splits option.splits)

lemma event_contents_cases: "event_contents ev = [] \<or> (\<exists>c. event_contents ev = [c])"
  by (simp add: event_contents_def split: file_event.splits option.splits)

text \<open>
  C16: The keyring always is that of the last file that was read and named a token: unreadable files,
  files without a token and unrelated events leave the previous keyring in place, the tenants'
  budgets are forgotten exactly when a keyring is taken over, and the rules are never touched. Hence
  a keyring with a token never becomes empty, and all its members are hashes of trimmed tokens.
\<close>
theorem keyring_of_last_usable_file:
  assumes "keyring_ok hash (cs_auth_keyring st)"
  shows "let st' = watch_auth_loop hash st evs;
             usable = filter (\<lambda>c. hash_keyring hash c \<noteq> []) (read_contents evs) in
    keyring_ok hash (cs_auth_keyring st')
    \<and> cs_auth_keyring st' = (if usable = [] then cs_auth_keyring st else hash_keyring hash (last usable))
    \<and> cs_tenant_budgets st' = (if usable = [] then cs_tenant_budgets st else (\<lambda>_. None))
    \<and> cs_vault st' = cs_vault st \<and> cs_engine_state st' = cs_engine_state st"
  using assms unfolding Let_def watch_auth_loop_def
proof (induction evs rule: rev_induct)
  case (snoc ev evs)
  then show ?case
    using event_contents_cases [of ev]
    by (auto simp: watch_auth_file_eq read_contents_def hash_keyring_ok)
qed (simp add: read_contents_def)

theorem keyring_of_last_usable_file_witness:
  "cs_auth_keyring (watch_auth_loop id
      \<lparr>cs_auth_keyring = [''old''], cs_tenant_budgets = (\<lambda>_. None), cs_vault = sample_vault,
       cs_engine_state = pv_engine_state sample_vault\<rparr>
      [Changed [None, Some [CHR ''t'', CHR 0x0D, CHR 0x0A, CHR '' '', CHR ''u'']], Changed [Some ''  ''], Other_file])
    = [''t'', ''u'']"
proof -
  let ?st = "\<lparr>cs_auth_keyring = [''old''], cs_tenant_budgets = (\<lambda>_. None), cs_vault = sample_vault,
       cs_engine_state = pv_engine_state sample_vault\<rparr>"
  let ?evs = "[Changed [None, Some [CHR ''t'', CHR 0x0D, CHR 0x0A, CHR '' '', CHR ''u'']], Changed [Some ''  ''], Other_file]"
  have "trim ''old'' = ''old''" by code_simp
  then have ok: "keyring_ok id (cs_auth_keyring ?st)" by (auto simp: keyring_ok_def)
  have "filter (\<lambda>c. hash_keyring id c \<noteq> []) (read_contents ?evs) = [[CHR ''t'', CHR 0x0D, CHR 0x0A, CHR '' '', CHR ''u'']]"
    by code_simp
  moreover have "hash_keyring id [CHR ''t'', CHR 0x0D, CHR 0x0A, CHR '' '', CHR ''u''] = [''t'', ''u'']" by code_simp
  ultimately show ?thesis using keyring_of_last_usable_file [OF ok, of ?evs] by (simp add: Let_def)
qed

lemma watch_pii_config_eq:
  "watch_pii_config build to_string st ev =
     (case event_contents ev of
        [] \<Rightarrow> Ok st
      | c # _ \<Rightarrow>
          obind (PiiVault_new build to_string (fst (parse_pii_config c)) (snd (parse_pii_config c))) (\<lambda>v.
          obind (EngineState_new build (fst (parse_pii_config c)) (snd (parse_pii_config c))) (\<lambda>e.
          Ok (st\<lparr>cs_vault := v, cs_engine_state := e\<rparr>))))"
  by (simp add: watch_pii_config_def event_contents_def case_prod_beta Let_def split: file_event.splits option.splits)

definition rules_agree :: "config_state \<Rightarrow> bool" where
  "rules_agree st \<longleftrightarrow> pv_engine_state (cs_vault st) = cs_engine_state st
     \<and> pv_patterns (cs_vault st) = es_patterns (cs_engine_state st)
     \<and> pv_replacements (cs_vault st) = es_replacements (cs_engine_state st)"

lemma new_rules_agree:
  assumes "PiiVault_new build to_string ps rs = (Ok v :: (PiiVault, unit) outcome)"
    and "EngineState_new build ps rs = (Ok e :: (EngineState, unit) outcome)"
  shows "rules_agree (st\<lparr>cs_vault := v, cs_engine_state := e\<rparr>)" and "es_patterns e = ps" and "es_replacements e = rs"
  using assms by (auto simp: PiiVault_new_def EngineState_new_def rules_agree_def split: if_splits)

text \<open>
  Reloading the rules keeps the two copies of them in agreement, the vault's and the one the
  streams are redacted with: after any events they hold the rules of the last file that could be
  read, all else is as before.
\<close>
lemma reloaded_rules_agree:
  assumes "rules_agree st" and "watch_pii_loop build to_string st evs = Ok st'"
  shows "rules_agree st'
    \<and> (es_patterns (cs_engine_state st'), es_replacements (cs_engine_state st'))
        = (if read_contents evs = [] then (es_patterns (cs_engine_state st), es_replacements (cs_engine_state st))
           else parse_pii_config (last (read_contents evs)))
    \<and> cs_auth_keyring st' = cs_auth_keyring st \<and> cs_tenant_budgets st' = cs_tenant_budgets st"
  using assms
proof (induction evs arbitrary: st)
  case (Cons ev evs)
  from Cons(3) obtain s1 where
    s1: "watch_pii_config build to_string st ev = Ok s1" "watch_pii_loop build to_string s1 evs = Ok st'" by auto
  show ?case
  proof (cases "event_contents ev")
    case Nil
    then have "s1 = st" using s1(1) by (simp add: watch_pii_config_eq)
    then show ?thesis using Cons.IH [OF _ s1(2)] Cons(2) Nil by (simp add: read_contents_def)
  next
    case (Cons c cs)
    then have cs: "cs = []" using event_contents_cases [of ev] by auto
    from s1(1) Cons obtain v e where
      "PiiVault_new build to_string (fst (parse_pii_config c)) (snd (parse_pii_config c)) = (Ok v :: (PiiVault, unit) outcome)"
      "EngineState_new build (fst (parse_pii_config c)) (snd (parse_pii_config c)) = (Ok e :: (EngineState, unit) outcome)"
      and e: "s1 = st\<lparr>cs_vault := v, cs_engine_state := e\<rparr>"
      by (auto simp: watch_pii_config_eq)
    from new_rules_agree [OF this(1,2)] have
      "rules_agree s1" "es_patterns e = fst (parse_pii_config c)" "es_replacements e = snd (parse_pii_config c)"
      by (simp_all add: e)
    then show ?thesis using Cons.IH [OF _ s1(2)] Cons cs by (auto simp: read_contents_def e)
  qed
qed (simp add: read_contents_def)

lemma reloaded_rules_agree_witness:
  "\<exists>st'. watch_pii_loop reference_build Some
      \<lparr>cs_auth_keyring = [], cs_tenant_budgets = (\<lambda>_. None), cs_vault = sample_vault,
       cs_engine_state = pv_engine_state sample_vault\<rparr>
      [Changed [None, Some ''a:b''], Changed [Some '' , ''], Watch_error, Changed [None, None, None, None, Some ''c'']] = Ok st'
    \<and> rules_agree st' \<and> es_patterns (cs_engine_state st') = []"
proof -
  let ?st = "\<lparr>cs_auth_keyring = [], cs_tenant_budgets = (\<lambda>_. None), cs_vault = sample_vault,
       cs_engine_state = pv_engine_state sample_vault\<rparr>"
  let ?evs = "[Changed [None, Some ''a:b''], Changed [Some '' , ''], Watch_error, Changed [None, None, None, None, Some ''c'']]"
  have parsed: "parse_pii_config ''a:b'' = ([''a''], [''b''])" "parse_pii_config '' , '' = ([], [])" by code_simp+
  have seen: "event_contents (Changed [None, Some ''a:b'']) = [''a:b'']" "event_contents (Changed [Some '' , '']) = ['' , '']"
    "event_contents Watch_error = []" "event_contents (Changed [None, None, None, None, Some ''c'']) = []"
    by code_simp+
  have agree: "rules_agree ?st" by (simp add: rules_agree_def sample_vault_def Let_def)
  have "\<exists>st'. watch_pii_loop reference_build Some ?st ?evs = Ok st'"
    by (simp add: watch_pii_config_eq seen parsed PiiVault_new_def EngineState_new_def build_redaction_dfa_eq
        reference_build_def expect_def)
  then obtain st' where st': "watch_pii_loop reference_build Some ?st ?evs = Ok st'" by blast
  from reloaded_rules_agree [OF agree st'] show ?thesis using st'
    by (auto simp: read_contents_def seen parsed)
qed

end
