(* ===== verification/Attestation.thy ===== *)
theory Attestation
  imports RustStr Utf8
begin

text \<open>
  Attestation documents and the unsealing of secrets: \<open>src/attestation.rs\<close>, \<open>src/bootloader.rs\<close> and
  \<open>src/vsock_bridge.rs\<close>. The security module, the RSA and CBOR crates, the KMS clients, base 64 and the
  sockets are fields of a record of parameters; cargo features are arguments of the definitions they
  select. \<open>KmsProvider\<close> is the interface between the providers and the start-up code, stated as a locale.
\<close>

section \<open>The platform\<close>

record nsm_request =
  nr_nonce :: "bytes option"
  nr_public_key :: "bytes option"
  nr_user_data :: "bytes option"

datatype nsm_response = Nsm_document bytes | Nsm_other bytes

datatype cbor = CText bytes | CBytes bytes | CArray "cbor list" | CMap "(cbor \<times> cbor) list"

text \<open>
  The results of the calls outside the crate. A blocking task that cannot be joined is \<open>None\<close>, an error
  of the call itself an inner \<open>None\<close>; a KMS response without the requested field too. Keys and nonces are drawn
  anew by each caller: the boot loader has draw 0, the key provider draw 1.
\<close>

record 'key platform =
  pf_open_nsm :: bool
  pf_nsm_init :: int
  pf_nsm :: "nsm_request \<Rightarrow> nsm_response option"
  pf_rsa_new :: "nat \<Rightarrow> 'key option option"
  pf_public_key_der :: "'key \<Rightarrow> bytes option"
  pf_oaep_decrypt :: "'key \<Rightarrow> bytes \<Rightarrow> bytes option option"
  pf_random_nonce :: "nat \<Rightarrow> bytes"
  pf_kms_attested :: "bytes \<Rightarrow> bytes \<Rightarrow> bytes option option"
  pf_kms_local :: "bytes \<Rightarrow> bytes option option"
  pf_into_writer :: "cbor \<Rightarrow> bytes option"
  pf_b64_decode :: "bytes \<Rightarrow> bytes option"
  pf_bind :: "nat \<Rightarrow> bool"

datatype att_error =
    Nonce_length | Nsm_unavailable | Nsm_task_failed | Nsm_refused | Encoding_failed
  | Endpoint_missing | Rsa_task_failed | Rsa_generation_failed | Rsa_encoding_failed | Rsa_decryption_failed
  | Kms_failed | Kms_without_plaintext | Plaintext_not_utf8 | Variable_missing bytes | Not_base64

section \<open>Attestation documents\<close>

definition ATTESTATION_NONCE_LEN :: nat where
  "ATTESTATION_NONCE_LEN = 32"

definition validate_nonce :: "bytes option \<Rightarrow> (unit, att_error) outcome" where
  "validate_nonce nonce =
     (case nonce of
        Some n \<Rightarrow> if length n \<noteq> ATTESTATION_NONCE_LEN then Err Nonce_length else Ok ()
      | None \<Rightarrow> Ok ())"

definition nsm_document :: "'key platform \<Rightarrow> nsm_request \<Rightarrow> (bytes, att_error) outcome" where
  "nsm_document pf request =
     (case pf_nsm pf request of
        None \<Rightarrow> Err Nsm_task_failed
      | Some (Nsm_document document) \<Rightarrow> Ok document
      | Some (Nsm_other _) \<Rightarrow> Err Nsm_refused)"

definition mock_document :: "bytes \<Rightarrow> bytes \<Rightarrow> bytes \<Rightarrow> cbor" where
  "mock_document public_key nonce pcr0 =
     CMap [(CText ''format'', CText ''local-mock-not-nitro''),
           (CText ''user_data'', CBytes public_key),
           (CText ''public_key'', CBytes public_key),
           (CText ''nonce'', CBytes nonce),
           (CText ''pcr0'', CText pcr0),
           (CText ''certificate'', CBytes []),
           (CText ''cabundle'', CArray [])]"

definition attestation_doc ::
  "bool \<Rightarrow> 'key platform \<Rightarrow> (bytes \<Rightarrow> bytes option) \<Rightarrow> bytes \<Rightarrow> bytes option \<Rightarrow> (bytes, att_error) outcome" where
  "attestation_doc nitro pf var public_key nonce =
     obind (validate_nonce nonce) (\<lambda>_.
       if nitro then
         if \<not> pf_open_nsm pf then Err Nsm_unavailable
         else nsm_document pf \<lparr>nr_nonce = nonce, nr_public_key = None, nr_user_data = Some public_key\<rparr>
       else case var ''MOCK_PCR0'' of
         None \<Rightarrow> Panic
       | Some pcr0 \<Rightarrow>
           (case pf_into_writer pf (mock_document public_key (case_option [] id nonce) pcr0) of
              None \<Rightarrow> Err Encoding_failed
            | Some encoded \<Rightarrow> Ok encoded))"

section \<open>Providers\<close>

datatype mock_client = Default_client | Endpoint_client bytes bytes

definition LocalMockProvider_new :: "bool \<Rightarrow> (bytes \<Rightarrow> bytes option) \<Rightarrow> (mock_client, att_error) outcome" where
  "LocalMockProvider_new kind_test var =
     (if kind_test then Ok Default_client
      else case var ''LOCALSTACK_ENDPOINT'' of
        None \<Rightarrow> Err Endpoint_missing
      | Some endpoint \<Rightarrow>
          let region = (case var ''AWS_DEFAULT_REGION'' of
                          Some r \<Rightarrow> r
                        | None \<Rightarrow> case_option ''us-east-1'' id (var ''AWS_REGION'')) in
          Ok (Endpoint_client endpoint region))"

definition secret_string :: "bytes \<Rightarrow> (bytes, att_error) outcome" where
  "secret_string plaintext = (if from_utf8 plaintext = Utf8_Ok then Ok plaintext else Err Plaintext_not_utf8)"

definition LocalMockProvider_decrypt :: "bool \<Rightarrow> 'key platform \<Rightarrow> bytes \<Rightarrow> (bytes, att_error) outcome" where
  "LocalMockProvider_decrypt kind_test pf ciphertext =
     (if kind_test then secret_string ciphertext
      else case pf_kms_local pf ciphertext of
        None \<Rightarrow> Err Kms_failed
      | Some None \<Rightarrow> Err Kms_without_plaintext
      | Some (Some plaintext) \<Rightarrow> secret_string plaintext)"

text \<open>What the process keeps: its environment variables and the tunnels, started once.\<close>

record process =
  pr_vars :: "bytes \<Rightarrow> bytes option"
  pr_tunnels :: "(nat \<times> nat \<times> nat) list option"

definition start_tunnel :: "'key platform \<Rightarrow> nat \<Rightarrow> nat \<Rightarrow> nat \<Rightarrow> (nat \<times> nat \<times> nat, att_error) outcome" where
  "start_tunnel pf local_port vsock_cid vsock_port =
     (if pf_bind pf local_port then Ok (local_port, vsock_cid, vsock_port) else Panic)"

definition spawn_enclave_tunnels :: "'key platform \<Rightarrow> process \<Rightarrow> (process, att_error) outcome" where
  "spawn_enclave_tunnels pf pr =
     (case pr_tunnels pr of
        Some _ \<Rightarrow> Ok pr
      | None \<Rightarrow>
          obind (start_tunnel pf 8000 3 8000) (\<lambda>kms.
          obind (start_tunnel pf 8001 3 8001) (\<lambda>metadata.
          Ok (pr\<lparr>pr_tunnels := Some [kms, metadata]\<rparr>))))"

definition use_tunnels :: "process \<Rightarrow> process" where
  "use_tunnels pr = pr\<lparr>pr_vars := (pr_vars pr)(
     ''HTTPS_PROXY'' \<mapsto> ''http://127.0.0.1:8000'',
     ''https_proxy'' \<mapsto> ''http://127.0.0.1:8000'',
     ''AWS_EC2_METADATA_SERVICE_ENDPOINT'' \<mapsto> ''http://127.0.0.1:8001'')\<rparr>"

definition new_rsa_key :: "'key platform \<Rightarrow> nat \<Rightarrow> ('key, att_error) outcome" where
  "new_rsa_key pf draw =
     (case pf_rsa_new pf draw of
        None \<Rightarrow> Err Rsa_task_failed
      | Some None \<Rightarrow> Err Rsa_generation_failed
      | Some (Some key) \<Rightarrow> Ok key)"

definition encode_public_key :: "'key platform \<Rightarrow> 'key \<Rightarrow> (bytes, att_error) outcome" where
  "encode_public_key pf key = (case pf_public_key_der pf key of None \<Rightarrow> Err Rsa_encoding_failed | Some der \<Rightarrow> Ok der)"

text \<open>The request to KMS, with the attestation document as recipient, and the unwrapping of its answer.\<close>

definition attested_kms_decrypt :: "'key platform \<Rightarrow> 'key \<Rightarrow> bytes \<Rightarrow> bytes \<Rightarrow> (bytes, att_error) outcome" where
  "attested_kms_decrypt pf key document ciphertext =
     (case pf_kms_attested pf ciphertext document of
        None \<Rightarrow> Err Kms_failed
      | Some None \<Rightarrow> Err Kms_without_plaintext
      | Some (Some wrapped) \<Rightarrow>
          (case pf_oaep_decrypt pf key wrapped of
             None \<Rightarrow> Err Rsa_task_failed
           | Some None \<Rightarrow> Err Rsa_decryption_failed
           | Some (Some plaintext) \<Rightarrow> secret_string plaintext))"

text \<open>\<open>NitroKmsProvider::decrypt\<close>, behind the tunnels.\<close>

definition nitro_unseal :: "'key platform \<Rightarrow> bytes \<Rightarrow> (bytes, att_error) outcome" where
  "nitro_unseal pf ciphertext =
     obind (new_rsa_key pf 1) (\<lambda>private_key.
     obind (encode_public_key pf private_key) (\<lambda>public_key_der.
       if \<not> pf_open_nsm pf then Err Nsm_unavailable
       else
         obind (nsm_document pf \<lparr>nr_nonce = Some (pf_random_nonce pf 1), nr_public_key = Some public_key_der,
                                 nr_user_data = None\<rparr>) (\<lambda>document.
         attested_kms_decrypt pf private_key document ciphertext)))"

definition NitroKmsProvider_decrypt ::
  "'key platform \<Rightarrow> process \<Rightarrow> bytes \<Rightarrow> process \<times> (bytes, att_error) outcome" where
  "NitroKmsProvider_decrypt pf pr ciphertext =
     (case spawn_enclave_tunnels pf pr of
        Ok pr' \<Rightarrow> (use_tunnels pr', nitro_unseal pf ciphertext)
      | Err e \<Rightarrow> (pr, Err e)
      | Panic \<Rightarrow> (pr, Panic))"

text \<open>\<open>provider.decrypt\<close> is an argument.\<close>

definition decrypt_upstream_api_key ::
  "(bytes \<Rightarrow> 's \<times> (bytes, att_error) outcome) \<Rightarrow> bytes \<Rightarrow> 's \<times> (bytes, att_error) outcome" where
  "decrypt_upstream_api_key decrypt ciphertext =
     (let (s, r) = decrypt ciphertext in (s, obind r (\<lambda>secret. Ok secret)))"

section \<open>The boot loader\<close>

definition bootloader_unseal :: "'key platform \<Rightarrow> bytes \<Rightarrow> (bytes, att_error) outcome" where
  "bootloader_unseal pf ciphertext =
     obind (new_rsa_key pf 0) (\<lambda>private_key.
     obind (encode_public_key pf private_key) (\<lambda>public_key_der.
       if pf_nsm_init pf < 0 then Err Nsm_unavailable
       else
         obind (nsm_document pf \<lparr>nr_nonce = Some (pf_random_nonce pf 0), nr_public_key = Some public_key_der,
                                 nr_user_data = None\<rparr>) (\<lambda>document.
         attested_kms_decrypt pf private_key document ciphertext)))"

definition decrypt_with_nsm :: "'key platform \<Rightarrow> process \<Rightarrow> bytes \<Rightarrow> process \<times> (bytes, att_error) outcome" where
  "decrypt_with_nsm pf pr ciphertext =
     (case spawn_enclave_tunnels pf pr of
        Ok pr' \<Rightarrow> (use_tunnels pr', bootloader_unseal pf ciphertext)
      | Err e \<Rightarrow> (pr, Err e)
      | Panic \<Rightarrow> (pr, Panic))"

definition load_proxy_auth_token ::
  "bool \<Rightarrow> 'key platform \<Rightarrow> process \<Rightarrow> process \<times> (bytes, att_error) outcome" where
  "load_proxy_auth_token nitro pf pr =
     (if nitro then
        case pr_vars pr ''PROXY_AUTH_TOKEN_CIPHERTEXT'' of
          None \<Rightarrow> (pr, Err (Variable_missing ''PROXY_AUTH_TOKEN_CIPHERTEXT''))
        | Some encoded \<Rightarrow>
            (case pf_b64_decode pf (trim encoded) of
               None \<Rightarrow> (pr, Err Not_base64)
             | Some ciphertext \<Rightarrow> decrypt_with_nsm pf pr ciphertext)
      else case pr_vars pr ''PROXY_AUTH_TOKEN'' of
          None \<Rightarrow> (pr, Err (Variable_missing ''PROXY_AUTH_TOKEN''))
        | Some token \<Rightarrow> (pr, Ok token))"

section \<open>The contract of a provider\<close>

text \<open>
  \<open>KmsProvider\<close>: a provider returns exactly the texts that a ciphertext opens to; what opening means is the
  provider's own.
\<close>

locale kms_provider =
  fixes decrypt :: "bytes \<Rightarrow> 's \<times> (bytes, att_error) outcome"
    and opens :: "bytes \<Rightarrow> bytes \<Rightarrow> bool"
  assumes decrypt_spec: "snd (decrypt ct) = Ok s \<longleftrightarrow> opens ct s \<and> valid_utf8 s"
begin

lemma upstream_key: "snd (decrypt_upstream_api_key decrypt ct) = Ok s \<longleftrightarrow> opens ct s \<and> valid_utf8 s"
  using decrypt_spec [of ct s] by (simp add: decrypt_upstream_api_key_def case_prod_beta)

lemma decrypt_state [simp]: "fst (decrypt_upstream_api_key decrypt ct) = fst (decrypt ct)"
  by (simp add: decrypt_upstream_api_key_def case_prod_beta)

end

lemma secret_string_Ok: "secret_string pt = Ok s \<longleftrightarrow> s = pt \<and> valid_utf8 s"
  by (auto simp: secret_string_def valid_utf8_def)

text \<open>
  A secret that came through the security module: NSM attested the public key of the drawn key together
  with the drawn nonce, KMS answered the ciphertext for the recipient in that document, and OAEP decryption
  with the drawn private key gave the secret.
\<close>

definition attested_secret :: "'key platform \<Rightarrow> nat \<Rightarrow> bytes \<Rightarrow> bytes \<Rightarrow> bool" where
  "attested_secret pf draw ct s \<longleftrightarrow>
     (\<exists>key pk doc wrapped. pf_rsa_new pf draw = Some (Some key) \<and> pf_public_key_der pf key = Some pk
        \<and> pf_nsm pf \<lparr>nr_nonce = Some (pf_random_nonce pf draw), nr_public_key = Some pk, nr_user_data = None\<rparr>
            = Some (Nsm_document doc)
        \<and> pf_kms_attested pf ct doc = Some (Some wrapped)
        \<and> pf_oaep_decrypt pf key wrapped = Some (Some s))"

lemma attested_kms_decrypt_Ok:
  "attested_kms_decrypt pf key doc ct = Ok s \<longleftrightarrow>
     (\<exists>wrapped. pf_kms_attested pf ct doc = Some (Some wrapped) \<and> pf_oaep_decrypt pf key wrapped = Some (Some s))
     \<and> valid_utf8 s"
  by (auto simp: attested_kms_decrypt_def secret_string_Ok split: option.splits)

lemma nsm_document_Ok: "nsm_document pf req = Ok doc \<longleftrightarrow> pf_nsm pf req = Some (Nsm_document doc)"
  by (simp add: nsm_document_def split: option.splits nsm_response.splits)

lemma new_rsa_key_Ok: "new_rsa_key pf draw = Ok key \<longleftrightarrow> pf_rsa_new pf draw = Some (Some key)"
  by (simp add: new_rsa_key_def split: option.splits)

lemma encode_public_key_Ok: "encode_public_key pf key = Ok pk \<longleftrightarrow> pf_public_key_der pf key = Some pk"
  by (simp add: encode_public_key_def split: option.splits)

lemmas unseal_Ok = new_rsa_key_Ok encode_public_key_Ok nsm_document_Ok attested_kms_decrypt_Ok

lemma nitro_unseal_Ok:
  "nitro_unseal pf ct = Ok s \<longleftrightarrow> pf_open_nsm pf \<and> attested_secret pf 1 ct s \<and> valid_utf8 s"
  by (auto simp: nitro_unseal_def attested_secret_def unseal_Ok)

lemma bootloader_unseal_Ok:
  "bootloader_unseal pf ct = Ok s \<longleftrightarrow> 0 \<le> pf_nsm_init pf \<and> attested_secret pf 0 ct s \<and> valid_utf8 s"
  by (auto simp: bootloader_unseal_def attested_secret_def unseal_Ok not_less)

text \<open>The tunnels run already, or their two ports are free.\<close>

definition tunnels_ready :: "'key platform \<Rightarrow> process \<Rightarrow> bool" where
  "tunnels_ready pf pr \<longleftrightarrow> pr_tunnels pr \<noteq> None \<or> (pf_bind pf 8000 \<and> pf_bind pf 8001)"

lemma spawn_enclave_tunnels_eq:
  "spawn_enclave_tunnels pf pr =
     (if tunnels_ready pf pr
      then Ok (if pr_tunnels pr = None then pr\<lparr>pr_tunnels := Some [(8000, 3, 8000), (8001, 3, 8001)]\<rparr> else pr)
      else Panic)"
  by (auto simp: tunnels_ready_def spawn_enclave_tunnels_def start_tunnel_def split: option.splits)

definition tunnels_after :: "'key platform \<Rightarrow> process \<Rightarrow> (nat \<times> nat \<times> nat) list option" where
  "tunnels_after pf pr =
     (if pr_tunnels pr = None \<and> tunnels_ready pf pr then Some [(8000, 3, 8000), (8001, 3, 8001)] else pr_tunnels pr)"

definition nitro_opens :: "'key platform \<Rightarrow> process \<Rightarrow> bytes \<Rightarrow> bytes \<Rightarrow> bool" where
  "nitro_opens pf pr ct s \<longleftrightarrow> tunnels_ready pf pr \<and> pf_open_nsm pf \<and> attested_secret pf 1 ct s"

interpretation kind: kms_provider "\<lambda>ct. ((), LocalMockProvider_decrypt True pf ct)" "\<lambda>ct s. ct = s" for pf
  by unfold_locales (auto simp: LocalMockProvider_decrypt_def secret_string_Ok)

interpretation localstack: kms_provider "\<lambda>ct. ((), LocalMockProvider_decrypt False pf ct)"
    "\<lambda>ct s. pf_kms_local pf ct = Some (Some s)" for pf
  by unfold_locales (auto simp: LocalMockProvider_decrypt_def secret_string_Ok split: option.splits)

interpretation nitro: kms_provider "NitroKmsProvider_decrypt pf pr" "nitro_opens pf pr" for pf pr
  by unfold_locales
    (auto simp: NitroKmsProvider_decrypt_def nitro_opens_def spawn_enclave_tunnels_eq nitro_unseal_Ok)

lemma nitro_tunnels: "pr_tunnels (fst (NitroKmsProvider_decrypt pf pr ct)) = tunnels_after pf pr"
  by (simp add: NitroKmsProvider_decrypt_def spawn_enclave_tunnels_eq tunnels_after_def use_tunnels_def)

lemma boot_tunnels: "pr_tunnels (fst (decrypt_with_nsm pf pr ct)) = tunnels_after pf pr"
  by (simp add: decrypt_with_nsm_def spawn_enclave_tunnels_eq tunnels_after_def use_tunnels_def)

lemma load_token_Ok:
  "snd (load_proxy_auth_token True pf pr) = Ok token \<longleftrightarrow>
     (\<exists>encoded ct. pr_vars pr ''PROXY_AUTH_TOKEN_CIPHERTEXT'' = Some encoded \<and> pf_b64_decode pf (trim encoded) = Some ct
        \<and> tunnels_ready pf pr \<and> 0 \<le> pf_nsm_init pf \<and> attested_secret pf 0 ct token \<and> valid_utf8 token)"
  by (auto simp: load_proxy_auth_token_def decrypt_with_nsm_def spawn_enclave_tunnels_eq bootloader_unseal_Ok
      split: option.splits)

text \<open>
  C37: In the enclave a secret is obtained only through an attested key, and then exactly. The boot loader returns a
  token if and only if the configured ciphertext decodes, the tunnels to the parent run or can be started, and a key drawn for this call, attested
  by NSM with a nonce drawn for this call, opens KMS's answer for that document to a UTF-8 text, which is the token. For the
  upstream key the provider does the same with a key and nonce of its own. No other path returns a secret. When one follows the
  other the two tunnels are started only once.
\<close>
theorem enclave_secrets_need_attested_keys:
  "let (pr1, r1) = load_proxy_auth_token True pf pr;
       (pr2, r2) = decrypt_upstream_api_key (NitroKmsProvider_decrypt pf pr1) ct' in
    (r1 = Ok token \<longleftrightarrow>
       (\<exists>encoded ct. pr_vars pr ''PROXY_AUTH_TOKEN_CIPHERTEXT'' = Some encoded \<and> pf_b64_decode pf (trim encoded) = Some ct
          \<and> tunnels_ready pf pr \<and> 0 \<le> pf_nsm_init pf \<and> attested_secret pf 0 ct token \<and> valid_utf8 token))
    \<and> (r2 = Ok key \<longleftrightarrow>
         tunnels_ready pf pr \<and> pf_open_nsm pf \<and> attested_secret pf 1 ct' key \<and> valid_utf8 key)
    \<and> pr_tunnels pr2 = (if pr_tunnels pr = None \<and> tunnels_ready pf pr then Some [(8000, 3, 8000), (8001, 3, 8001)]
         else pr_tunnels pr)"
proof -
  let ?pr1 = "fst (load_proxy_auth_token True pf pr)"
  have t: "pr_tunnels ?pr1 = pr_tunnels pr \<or> pr_tunnels ?pr1 = tunnels_after pf pr"
    by (auto simp: load_proxy_auth_token_def boot_tunnels split: option.splits)
  then have "tunnels_ready pf ?pr1 \<longleftrightarrow> tunnels_ready pf pr" "tunnels_after pf ?pr1 = tunnels_after pf pr"
    by (auto simp: tunnels_ready_def tunnels_after_def split: if_splits)
  then show ?thesis
    using load_token_Ok [of pf pr token] nitro.upstream_key [of pf ?pr1 ct' key]
    by (simp add: case_prod_beta Let_def nitro_opens_def nitro_tunnels) (simp add: tunnels_after_def)
qed

text \<open>A sample enclave: documents name the public key, and KMS answers with something the drawn key opens.\<close>

definition sample_enclave :: "nat platform" where
  "sample_enclave = \<lparr>pf_open_nsm = True, pf_nsm_init = 3,
     pf_nsm = (\<lambda>r. case nr_public_key r of Some pk \<Rightarrow> Some (Nsm_document pk) | None \<Rightarrow> Some (Nsm_other [])),
     pf_rsa_new = (\<lambda>draw. Some (Some draw)), pf_public_key_der = (\<lambda>k. Some (replicate k (CHR ''k''))),
     pf_oaep_decrypt = (\<lambda>k c. Some (if prefix (replicate k (CHR ''k'')) c then Some (drop k c) else None)),
     pf_random_nonce = (\<lambda>draw. replicate 32 (CHR ''n'')),
     pf_kms_attested = (\<lambda>ct doc. Some (Some (doc @ rev ct))), pf_kms_local = (\<lambda>_. None),
     pf_into_writer = (\<lambda>_. None), pf_b64_decode = Some, pf_bind = (\<lambda>_. True)\<rparr>"

theorem enclave_secrets_need_attested_keys_witness:
  "let (pr1, r1) = load_proxy_auth_token True sample_enclave
           \<lparr>pr_vars = [''PROXY_AUTH_TOKEN_CIPHERTEXT'' \<mapsto> ''nekot ''], pr_tunnels = None\<rparr>;
       (pr2, r2) = decrypt_upstream_api_key (NitroKmsProvider_decrypt sample_enclave pr1) ''yek'' in
    r1 = Ok ''token'' \<and> r2 = Ok ''key'' \<and> pr_tunnels pr2 = Some [(8000, 3, 8000), (8001, 3, 8001)]"
proof -
  let ?pr = "\<lparr>pr_vars = [''PROXY_AUTH_TOKEN_CIPHERTEXT'' \<mapsto> ''nekot ''], pr_tunnels = None\<rparr>"
  have "trim ''nekot '' = ''nekot''" "valid_utf8 ''token''" "valid_utf8 ''key''" by code_simp+
  moreover have "attested_secret sample_enclave 0 ''nekot'' ''token''" "attested_secret sample_enclave 1 ''yek'' ''key''"
    "tunnels_ready sample_enclave ?pr" "0 \<le> pf_nsm_init sample_enclave" "pf_open_nsm sample_enclave"
    by (simp_all add: attested_secret_def tunnels_ready_def sample_enclave_def)
  ultimately show ?thesis
    using enclave_secrets_need_attested_keys [where pf = sample_enclave and pr = ?pr and ct' = "''yek''" and token = "''token''"
        and key = "''key''"]
    by (simp add: Let_def case_prod_beta) (simp add: sample_enclave_def)
qed

end
