(* ===== verification/Startup.thy ===== *)
theory Startup
  imports Config Attestation Gateway
begin

text \<open>
  The start of the proxy, \<open>main\<close> of \<open>src/main.rs\<close> up to the listeners: the environment variables and
  files it reads, the secrets it unseals and the state it builds. Every failure panics. The
  listeners, the servers and the watchdog are in theory \<open>Shutdown\<close>; the metrics recorder is left out.
\<close>

section \<open>The environment\<close>

text \<open>
  The cargo features (with debug assertions), the files as \<open>read_to_string\<close> returns them, the successive
  reads of the LocalStack fixture, the keys drawn, and the crates: BLAKE3, the automaton builder,
  \<open>serde_json::to_string\<close> and \<open>HeaderValue::from_str\<close>.
\<close>

record 'key machine =
  mc_nitro :: bool
  mc_kind_test :: bool
  mc_debug_assertions :: bool
  mc_platform :: "'key platform"
  mc_files :: "bytes \<Rightarrow> bytes option"
  mc_localstack_reads :: "nat \<Rightarrow> bytes option"
  mc_verifying_key :: bytes
  mc_attestation_nonce :: bytes
  mc_hash :: "bytes \<Rightarrow> bytes"
  mc_build :: ac_builder
  mc_to_string :: "bytes \<Rightarrow> bytes option"
  mc_header_value :: "bytes \<Rightarrow> bytes option"

definition expect_ok :: "('a, 'e) outcome \<Rightarrow> ('a, unit) outcome" where
  "expect_ok r = (case r of Ok x \<Rightarrow> Ok x | _ \<Rightarrow> Panic)"

section \<open>The upstream client\<close>

text \<open>The retries of \<open>read_localstack_ciphertext\<close>; \<open>reads n\<close> is what the \<open>n\<close>-th attempt reads.\<close>

function read_localstack_ciphertext ::
  "(bytes \<Rightarrow> bytes option) \<Rightarrow> (nat \<Rightarrow> bytes option) \<Rightarrow> nat \<Rightarrow> (bytes, unit) outcome" where
  "read_localstack_ciphertext decode reads attempt =
     (if attempt > 10 then Panic
      else case reads attempt of
        Some contents \<Rightarrow> expect (decode (trim contents))
      | None \<Rightarrow> if attempt < 10 then read_localstack_ciphertext decode reads (attempt + 1) else Panic)"
  by auto
termination
  by (relation "measure (\<lambda>(decode, reads, attempt). 11 - attempt)") auto

declare read_localstack_ciphertext.simps [simp del]

definition read_kind_ciphertext :: "'key machine \<Rightarrow> (bytes, unit) outcome" where
  "read_kind_ciphertext mc =
     obind (expect (mc_files mc ''/run/secrets/ciphertext.b64'')) (\<lambda>contents.
     expect (pf_b64_decode (mc_platform mc) (trim contents)))"

definition read_nitro_ciphertext :: "'key machine \<Rightarrow> (bytes, unit) outcome" where
  "read_nitro_ciphertext mc =
     obind (expect (mc_files mc ''/run/secrets/ciphertext.b64'')) (\<lambda>contents.
     expect (pf_b64_decode (mc_platform mc) (trim contents)))"

text \<open>The \<open>Authorization\<close> header of all requests to the upstream.\<close>

definition authorization :: "'key machine \<Rightarrow> (bytes, att_error) outcome \<Rightarrow> (bytes, unit) outcome" where
  "authorization mc r = obind (expect_ok r) (\<lambda>secret. expect (mc_header_value mc (''Bearer '' @ secret)))"

definition build_upstream_client :: "'key machine \<Rightarrow> process \<Rightarrow> process \<times> (bytes, unit) outcome" where
  "build_upstream_client mc pr =
     (if mc_nitro mc then
        case read_nitro_ciphertext mc of
          Ok ciphertext \<Rightarrow>
            let (pr', r) = decrypt_upstream_api_key (NitroKmsProvider_decrypt (mc_platform mc) pr) ciphertext in
            (pr', authorization mc r)
        | _ \<Rightarrow> (pr, Panic)
      else if mc_debug_assertions mc \<and> pr_vars pr ''LOCALSTACK_ENDPOINT'' = None then (pr, Panic)
      else
        (pr,
         obind (expect_ok (LocalMockProvider_new (mc_kind_test mc) (pr_vars pr))) (\<lambda>provider.
         obind (if mc_kind_test mc then read_kind_ciphertext mc
                else read_localstack_ciphertext (pf_b64_decode (mc_platform mc)) (mc_localstack_reads mc) 1) (\<lambda>ciphertext.
         authorization mc (snd (decrypt_upstream_api_key
           (\<lambda>ct. ((), LocalMockProvider_decrypt (mc_kind_test mc) (mc_platform mc) ct)) ciphertext))))))"

section \<open>Rules and keyring\<close>

definition pii_source :: "'key machine \<Rightarrow> process \<Rightarrow> bytes" where
  "pii_source mc pr =
     (case Option.bind (pr_vars pr ''PII_CONFIG_PATH'') (mc_files mc) of
        Some content \<Rightarrow> content
      | None \<Rightarrow> case_option ''password,secret,ssn'' id (pr_vars pr ''PII_PATTERNS''))"

definition initial_vault :: "'key machine \<Rightarrow> process \<Rightarrow> (PiiVault, unit) outcome" where
  "initial_vault mc pr =
     (let (patterns, replacements) = parse_pii_config (pii_source mc pr) in
      PiiVault_new (mc_build mc) (mc_to_string mc) patterns replacements)"

text \<open>The tokens that are let in, and the file they come from outside Nitro mode.\<close>

definition auth_source :: "'key machine \<Rightarrow> process \<Rightarrow> process \<times> (bytes \<times> bytes option, unit) outcome" where
  "auth_source mc pr =
     (if pr_vars pr ''NITRO_ENV'' \<noteq> None then
        let (pr', r) = load_proxy_auth_token (mc_nitro mc) (mc_platform mc) pr in
        (pr', obind (expect_ok r) (\<lambda>token. Ok (token, None)))
      else
        (pr, obind (expect (pr_vars pr ''PROXY_AUTH_FILE'')) (\<lambda>path.
             obind (expect (mc_files mc path)) (\<lambda>contents. Ok (contents, Some path)))))"

section \<open>The start\<close>

record booted =
  bt_app :: AppState
  bt_authorization :: bytes
  bt_proxy_port :: nat
  bt_shutdown_timeout :: nat
  bt_global_memory :: nat
  bt_watched_rules :: "bytes option"
  bt_watched_tokens :: "bytes option"
  bt_tls :: bool

definition parsed_var :: "process \<Rightarrow> bytes \<Rightarrow> nat \<Rightarrow> nat \<Rightarrow> nat" where
  "parsed_var pr name limit fallback =
     case_option fallback id (Option.bind (pr_vars pr name) (parse_unsigned limit))"

text \<open>The part of the state that the watchers write.\<close>

definition app_config :: "AppState \<Rightarrow> config_state" where
  "app_config st = \<lparr>cs_auth_keyring = as_auth_keyring st, cs_tenant_budgets = as_tenant_budgets st, cs_vault = as_vault st,
     cs_engine_state = as_engine_state st\<rparr>"

text \<open>
  The state; of the variables it reads none is one of those the tunnels change. The semaphore of the global
  memory is the first one of the store.
\<close>

definition boot_state ::
  "'key machine \<Rightarrow> process \<Rightarrow> PiiVault \<Rightarrow> bytes \<Rightarrow> bytes \<Rightarrow> bytes option \<Rightarrow> bytes \<Rightarrow> bytes \<Rightarrow> booted" where
  "boot_state mc pr vault document tokens token_file admin_token client =
      \<lparr>bt_app = \<lparr>as_vault = vault, as_engine_state = pv_engine_state vault,
                 as_auth_keyring = hash_keyring (mc_hash mc) tokens,
                 as_admin_bearer_token_hash = mc_hash mc admin_token, as_attestation_document = document,
                 as_upstream_url = case_option ''https://api.openai.com/v1/chat/completions'' id (pr_vars pr ''UPSTREAM_API_URL''),
                 as_allowed_origins = parse_allowed_origins (pr_vars pr ''ALLOWED_ORIGINS''),
                 as_shutdown = False, as_global_memory = 0, as_tenant_budgets = (\<lambda>_. None)\<rparr>,
       bt_authorization = client,
       bt_proxy_port = parsed_var pr ''PROXY_PORT'' (2 ^ 16 - 1) 3000,
       bt_shutdown_timeout = parsed_var pr ''SHUTDOWN_TIMEOUT_SEC'' (2 ^ 64 - 1) 110,
       bt_global_memory = 256 * 1024 * 1024,
       bt_watched_rules = pr_vars pr ''PII_CONFIG_PATH'', bt_watched_tokens = token_file,
       bt_tls = (pr_vars pr ''NITRO_ENV'' \<noteq> None)\<rparr>"

definition main :: "'key machine \<Rightarrow> process \<Rightarrow> process \<times> (booted, unit) outcome" where
  "main mc pr =
     (if pr_vars pr ''PCR0_HASH'' = None \<and> pr_vars pr ''MOCK_PCR0'' = None then (pr, Panic)
      else
        case obind (initial_vault mc pr) (\<lambda>vault.
             obind (expect_ok (attestation_doc (mc_nitro mc) (mc_platform mc) (pr_vars pr) (mc_verifying_key mc)
                      (Some (mc_attestation_nonce mc)))) (\<lambda>document. Ok (vault, document))) of
          Ok (vault, document) \<Rightarrow>
            (case auth_source mc pr of
               (pr1, Ok (tokens, token_file)) \<Rightarrow>
                 (case pr_vars pr1 ''ADMIN_BEARER_TOKEN'' of
                    None \<Rightarrow> (pr1, Panic)
                  | Some admin_token \<Rightarrow>
                      let (pr2, client) = build_upstream_client mc pr1 in
                      (pr2, obind client (\<lambda>client.
                        Ok (boot_state mc pr2 vault document tokens token_file admin_token client))))
             | (pr1, _) \<Rightarrow> (pr1, Panic))
        | _ \<Rightarrow> (pr, Panic))"

section \<open>What a started proxy has\<close>

lemma expect_Ok: "expect x = Ok v \<longleftrightarrow> x = Some v"
  by (simp add: expect_def split: option.splits)

lemma expect_ok_Ok: "expect_ok r = Ok v \<longleftrightarrow> r = Ok v"
  by (simp add: expect_ok_def split: outcome.splits)

text \<open>The tunnels change the proxy variables only.\<close>

definition tunnel_vars :: "bytes set" where
  "tunnel_vars = {''HTTPS_PROXY'', ''https_proxy'', ''AWS_EC2_METADATA_SERVICE_ENDPOINT''}"

lemma spawn_vars: "spawn_enclave_tunnels pf pr = Ok pr' \<Longrightarrow> pr_vars pr' = pr_vars pr"
  by (auto simp: spawn_enclave_tunnels_def split: option.splits)

lemma decrypt_vars:
  "x \<notin> tunnel_vars \<Longrightarrow> pr_vars (fst (NitroKmsProvider_decrypt pf pr ct)) x = pr_vars pr x"
  "x \<notin> tunnel_vars \<Longrightarrow> pr_vars (fst (decrypt_with_nsm pf pr ct)) x = pr_vars pr x"
  by (auto simp: tunnel_vars_def NitroKmsProvider_decrypt_def decrypt_with_nsm_def use_tunnels_def
      split: outcome.splits dest: spawn_vars)

lemma auth_source_vars: "x \<notin> tunnel_vars \<Longrightarrow> pr_vars (fst (auth_source mc pr)) x = pr_vars pr x"
  by (auto simp: auth_source_def load_proxy_auth_token_def decrypt_vars case_prod_beta Let_def split: option.splits)

lemma build_client_vars: "x \<notin> tunnel_vars \<Longrightarrow> pr_vars (fst (build_upstream_client mc pr)) x = pr_vars pr x"
  by (auto simp: build_upstream_client_def decrypt_upstream_api_key_def decrypt_vars case_prod_beta Let_def
      split: outcome.splits)

lemma authorization_Ok:
  "authorization mc r = Ok c \<longleftrightarrow> (\<exists>secret. r = Ok secret \<and> mc_header_value mc (''Bearer '' @ secret) = Some c)"
  by (auto simp: authorization_def expect_Ok expect_ok_Ok)

text \<open>
  The secret that the upstream client carries: what the provider of the build opens the mounted ciphertext to.
\<close>

definition upstream_secret :: "'key machine \<Rightarrow> process \<Rightarrow> bytes \<Rightarrow> bool" where
  "upstream_secret mc pr secret \<longleftrightarrow>
     (if mc_nitro mc
      then \<exists>ct. read_nitro_ciphertext mc = Ok ct \<and> snd (NitroKmsProvider_decrypt (mc_platform mc) pr ct) = Ok secret
      else (mc_debug_assertions mc \<or> \<not> mc_kind_test mc \<longrightarrow> pr_vars pr ''LOCALSTACK_ENDPOINT'' \<noteq> None)
        \<and> (\<exists>ct. (if mc_kind_test mc then read_kind_ciphertext mc
                else read_localstack_ciphertext (pf_b64_decode (mc_platform mc)) (mc_localstack_reads mc) 1) = Ok ct
             \<and> LocalMockProvider_decrypt (mc_kind_test mc) (mc_platform mc) ct = Ok secret))"

lemma decrypt_key_result: "snd (decrypt_upstream_api_key decrypt ct) = snd (decrypt ct)"
  by (simp add: decrypt_upstream_api_key_def case_prod_beta)

lemma provider_new_Ok:
  "(\<exists>c. LocalMockProvider_new kind_test var = Ok c) \<longleftrightarrow> kind_test \<or> var ''LOCALSTACK_ENDPOINT'' \<noteq> None"
  by (auto simp: LocalMockProvider_new_def Let_def split: option.splits)

lemma build_client_Ok:
  "snd (build_upstream_client mc pr) = Ok c \<longleftrightarrow>
     (\<exists>secret. upstream_secret mc pr secret \<and> mc_header_value mc (''Bearer '' @ secret) = Some c)"
proof (cases "mc_nitro mc")
  case True
  then show ?thesis
    by (auto simp: build_upstream_client_def upstream_secret_def authorization_Ok decrypt_key_result case_prod_beta Let_def
        split: outcome.splits)
next
  case False
  then show ?thesis
    using provider_new_Ok [of "mc_kind_test mc" "pr_vars pr"]
    by (auto simp: build_upstream_client_def upstream_secret_def authorization_Ok decrypt_key_result expect_ok_Ok)
qed

lemma upstream_secret_text: "upstream_secret mc pr secret \<Longrightarrow> valid_utf8 secret"
  by (cases "mc_kind_test mc") (auto simp: upstream_secret_def kind.decrypt_spec [simplified] localstack.decrypt_spec [simplified]
      nitro.decrypt_spec split: if_splits)

lemma expect_not_Err: "expect x \<noteq> Err e" "expect_ok r \<noteq> Err e'"
  by (simp_all add: expect_def expect_ok_def split: option.splits outcome.splits)

lemma obind_not_Err: "(\<And>e. r \<noteq> Err e) \<Longrightarrow> (\<And>x e. f x \<noteq> Err e) \<Longrightarrow> obind r f \<noteq> Err e"
  by (cases r) auto

lemma read_localstack_not_Err: "read_localstack_ciphertext decode reads attempt \<noteq> Err e"
proof (induction decode reads attempt rule: read_localstack_ciphertext.induct)
  case (1 decode reads attempt)
  then show ?case
    by (subst read_localstack_ciphertext.simps) (auto simp: expect_not_Err split: option.splits)
qed

lemma authorization_not_Err: "authorization mc r \<noteq> Err e"
  unfolding authorization_def by (rule obind_not_Err) (rule expect_not_Err)+

lemma read_kind_not_Err: "read_kind_ciphertext mc \<noteq> Err e"
  unfolding read_kind_ciphertext_def by (rule obind_not_Err) (rule expect_not_Err)+

lemma build_client_not_Err: "snd (build_upstream_client mc pr) \<noteq> Err e"
proof (cases "mc_nitro mc")
  case True
  then show ?thesis
    by (simp add: build_upstream_client_def case_prod_beta Let_def authorization_not_Err split: outcome.splits)
next
  case False
  have "obind (expect_ok (LocalMockProvider_new (mc_kind_test mc) (pr_vars pr))) (\<lambda>provider.
      obind (if mc_kind_test mc then read_kind_ciphertext mc
             else read_localstack_ciphertext (pf_b64_decode (mc_platform mc)) (mc_localstack_reads mc) 1)
        (\<lambda>ct. authorization mc (f ct))) \<noteq> Err e" for f
    by (intro obind_not_Err expect_not_Err authorization_not_Err) (simp add: read_kind_not_Err read_localstack_not_Err)
  then show ?thesis using False by (simp add: build_upstream_client_def)
qed

text \<open>The tokens of the start and the file they come from.\<close>

definition start_tokens :: "'key machine \<Rightarrow> process \<Rightarrow> bytes \<Rightarrow> bytes option \<Rightarrow> bool" where
  "start_tokens mc pr tokens token_file \<longleftrightarrow>
     (if pr_vars pr ''NITRO_ENV'' \<noteq> None
      then snd (load_proxy_auth_token (mc_nitro mc) (mc_platform mc) pr) = Ok tokens \<and> token_file = None
      else \<exists>path. pr_vars pr ''PROXY_AUTH_FILE'' = Some path \<and> mc_files mc path = Some tokens \<and> token_file = Some path)"

lemma auth_source_Ok: "snd (auth_source mc pr) = Ok (tokens, token_file) \<longleftrightarrow> start_tokens mc pr tokens token_file"
  by (auto simp: auth_source_def start_tokens_def case_prod_beta Let_def expect_Ok expect_ok_Ok)

text \<open>What the start needs.\<close>

definition startable :: "'key machine \<Rightarrow> process \<Rightarrow> bool" where
  "startable mc pr \<longleftrightarrow>
     (pr_vars pr ''PCR0_HASH'' \<noteq> None \<or> pr_vars pr ''MOCK_PCR0'' \<noteq> None)
     \<and> (\<exists>vault. initial_vault mc pr = Ok vault)
     \<and> (\<exists>document. attestation_doc (mc_nitro mc) (mc_platform mc) (pr_vars pr) (mc_verifying_key mc)
          (Some (mc_attestation_nonce mc)) = Ok document)
     \<and> (\<exists>tokens token_file. start_tokens mc pr tokens token_file)
     \<and> pr_vars pr ''ADMIN_BEARER_TOKEN'' \<noteq> None
     \<and> (\<exists>secret. upstream_secret mc (fst (auth_source mc pr)) secret \<and> mc_header_value mc (''Bearer '' @ secret) \<noteq> None)"

lemma main_Ok:
  assumes "main mc pr = (pr', Ok b)"
  obtains vault document tokens token_file admin_token client where
    "initial_vault mc pr = Ok vault"
    "attestation_doc (mc_nitro mc) (mc_platform mc) (pr_vars pr) (mc_verifying_key mc) (Some (mc_attestation_nonce mc)) = Ok document"
    "snd (auth_source mc pr) = Ok (tokens, token_file)"
    "pr_vars pr ''ADMIN_BEARER_TOKEN'' = Some admin_token"
    "snd (build_upstream_client mc (fst (auth_source mc pr))) = Ok client"
    "pr' = fst (build_upstream_client mc (fst (auth_source mc pr)))"
    "b = boot_state mc pr' vault document tokens token_file admin_token client"
    "pr_vars pr ''PCR0_HASH'' \<noteq> None \<or> pr_vars pr ''MOCK_PCR0'' \<noteq> None"
proof -
  have admin: "pr_vars (fst (auth_source mc pr)) ''ADMIN_BEARER_TOKEN'' = pr_vars pr ''ADMIN_BEARER_TOKEN''"
    by (rule auth_source_vars) (simp add: tunnel_vars_def)
  obtain pr1 r1 where a: "auth_source mc pr = (pr1, r1)" by (cases "auth_source mc pr")
  obtain pr2 c where c: "build_upstream_client mc pr1 = (pr2, c)" by (cases "build_upstream_client mc pr1")
  from assms a c admin show ?thesis
    by (auto simp: main_def expect_ok_Ok Let_def intro: that
        split: if_splits outcome.splits option.splits prod.splits)
qed

lemma main_outcome: "(\<exists>b. snd (main mc pr) = Ok b \<and> startable mc pr) \<or> (snd (main mc pr) = Panic \<and> \<not> startable mc pr)"
proof -
  obtain pr1 r1 where a: "auth_source mc pr = (pr1, r1)" by (cases "auth_source mc pr")
  obtain pr2 c where c: "build_upstream_client mc pr1 = (pr2, c)" by (cases "build_upstream_client mc pr1")
  have admin: "pr_vars pr1 ''ADMIN_BEARER_TOKEN'' = pr_vars pr ''ADMIN_BEARER_TOKEN''"
    using auth_source_vars [of "''ADMIN_BEARER_TOKEN''" mc pr] by (simp add: a tunnel_vars_def)
  have r1: "r1 = Ok (tokens, token_file) \<longleftrightarrow> start_tokens mc pr tokens token_file" for tokens token_file
    using auth_source_Ok [of mc pr] by (simp add: a)
  have c_Ok: "c = Ok x \<longleftrightarrow> (\<exists>secret. upstream_secret mc pr1 secret \<and> mc_header_value mc (''Bearer '' @ secret) = Some x)" for x
    using build_client_Ok [of mc pr1 x] by (simp add: c)
  have c_Err: "c \<noteq> Err e" for e using build_client_not_Err [of mc pr1 e] by (simp add: c)
  have st: "startable mc pr \<longleftrightarrow> (pr_vars pr ''PCR0_HASH'' \<noteq> None \<or> pr_vars pr ''MOCK_PCR0'' \<noteq> None)
      \<and> (\<exists>vault. initial_vault mc pr = Ok vault)
      \<and> (\<exists>document. attestation_doc (mc_nitro mc) (mc_platform mc) (pr_vars pr) (mc_verifying_key mc)
          (Some (mc_attestation_nonce mc)) = Ok document)
      \<and> (\<exists>tokens token_file. r1 = Ok (tokens, token_file)) \<and> pr_vars pr ''ADMIN_BEARER_TOKEN'' \<noteq> None \<and> (\<exists>x. c = Ok x)"
    unfolding startable_def r1 c_Ok not_None_eq a fst_conv by blast
  have "(\<exists>x. c = Ok x) \<or> c = Panic" using c_Err by (cases c) auto
  then show ?thesis
    by (cases r1; cases "initial_vault mc pr"; cases "attestation_doc (mc_nitro mc) (mc_platform mc) (pr_vars pr)
          (mc_verifying_key mc) (Some (mc_attestation_nonce mc))"; cases "pr_vars pr ''ADMIN_BEARER_TOKEN''")
      (auto simp: main_def st a c admin expect_ok_def)
qed

lemma initial_vault_agrees:
  assumes "initial_vault mc pr = Ok vault"
  shows "rules_agree (st\<lparr>cs_vault := vault, cs_engine_state := pv_engine_state vault\<rparr>)"
    and "(es_patterns (pv_engine_state vault), es_replacements (pv_engine_state vault)) = parse_pii_config (pii_source mc pr)"
  using assms
  by (auto simp: initial_vault_def PiiVault_new_def EngineState_new_def rules_agree_def Let_def split: prod.splits if_splits)

lemma parsed_var_bound: "fallback \<le> limit \<Longrightarrow> parsed_var pr name limit fallback \<le> limit"
  using parse_unsigned_bound [of limit]
  by (auto simp: parsed_var_def split: option.splits Option.bind_splits)

section \<open>Properties\<close>


text \<open>A cluster test build: tokens and upstream key in files, a mock attestation.\<close>

definition sample_machine :: "nat machine" where
  "sample_machine = \<lparr>mc_nitro = False, mc_kind_test = True, mc_debug_assertions = False,
     mc_platform = sample_enclave\<lparr>pf_into_writer := (\<lambda>_. Some ''doc'')\<rparr>,
     mc_files = [''tokens'' \<mapsto> ''t'', ''/run/secrets/ciphertext.b64'' \<mapsto> ''key''],
     mc_localstack_reads = (\<lambda>_. None), mc_verifying_key = ''vk'', mc_attestation_nonce = replicate 32 (CHR ''n''),
     mc_hash = (\<lambda>t. t @ ''#''), mc_build = reference_build, mc_to_string = Some, mc_header_value = Some\<rparr>"

definition sample_process :: process where
  "sample_process = \<lparr>pr_vars = [''MOCK_PCR0'' \<mapsto> ''0'', ''ADMIN_BEARER_TOKEN'' \<mapsto> ''admin'', ''PROXY_AUTH_FILE'' \<mapsto> ''tokens''],
     pr_tunnels = None\<rparr>"

lemma sample_machine_header: "mc_header_value sample_machine v = Some v"
  by (simp add: sample_machine_def)

lemma sample_auth_source: "auth_source sample_machine sample_process = (sample_process, Ok (''t'', Some ''tokens''))"
  by (simp add: auth_source_def sample_machine_def sample_process_def expect_def)

lemma sample_main: "\<exists>b. main sample_machine sample_process = (sample_process, Ok b) \<and> bt_watched_tokens b = Some ''tokens''"
proof -
  have "pii_source sample_machine sample_process = ''password,secret,ssn''"
    by (simp add: pii_source_def sample_process_def)
  moreover have "parse_pii_config ''password,secret,ssn'' = ([''password'', ''secret'', ''ssn''], replicate 3 ''[REDACTED]'')"
    by code_simp
  ultimately have "\<exists>v. initial_vault sample_machine sample_process = Ok v"
    by (simp add: initial_vault_def sample_machine_def PiiVault_new_def EngineState_new_def build_redaction_dfa_eq
        reference_build_def expect_def)
  moreover note sample_auth_source
  moreover have "trim ''key'' = ''key''" "from_utf8 ''key'' = Utf8_Ok" by code_simp+
  then have "build_upstream_client sample_machine sample_process = (sample_process, Ok ''Bearer key'')"
    by (simp add: build_upstream_client_def sample_machine_def LocalMockProvider_new_def expect_ok_def
        read_kind_ciphertext_def expect_def sample_enclave_def decrypt_upstream_api_key_def LocalMockProvider_decrypt_def
        secret_string_def authorization_def)
  moreover have "attestation_doc False (mc_platform sample_machine) (pr_vars sample_process) ''vk''
      (Some (replicate 32 (CHR ''n''))) = Ok ''doc''"
    by (simp add: attestation_doc_def validate_nonce_def ATTESTATION_NONCE_LEN_def sample_process_def sample_machine_def)
  ultimately show ?thesis
    by (auto simp: main_def sample_machine_def sample_process_def expect_ok_def boot_state_def Let_def)
qed


text \<open>Without the \<open>nitro\<close> feature the start needs \<open>MOCK_PCR0\<close>, whatever \<open>PCR0_HASH\<close> is.\<close>

lemma pcr0_hash_alone_does_not_start:
  assumes "\<not> mc_nitro mc" and "pr_vars pr ''MOCK_PCR0'' = None"
  shows "snd (main mc pr) = Panic"
proof (rule ccontr)
  have "attestation_doc (mc_nitro mc) (mc_platform mc) (pr_vars pr) k n \<noteq> Ok d" for k n d
    using assms by (simp add: attestation_doc_def)
  moreover assume "snd (main mc pr) \<noteq> Panic"
  ultimately show False
    by (auto simp: main_def expect_ok_Ok split: outcome.splits prod.splits option.splits if_splits)
qed

end
