(* ===== verification/StrTyping.thy ===== *)
theory StrTyping
  imports Config
begin

text \<open>
  Rust's type of strings: what the string functions of theory \<open>RustStr\<close> cut out of a valid UTF-8 string is valid
  UTF-8 again, so the rules parsed from a configuration are strings and the engine built from them
  is well-formed.
\<close>

section \<open>Cutting a string\<close>

lemma valid_utf8_before: "valid_utf8 (a @ b) \<Longrightarrow> valid_utf8 b \<Longrightarrow> valid_utf8 a"
proof (cases b)
  case (Cons c cs)
  assume v: "valid_utf8 (a @ b)" "valid_utf8 b"
  then have "\<not> is_cont c" using Cons valid_utf8_first by blast
  then show "valid_utf8 a" using valid_utf8_take_boundary [OF v(1), of "length a"] Cons by (simp add: nth_append)
qed simp

lemma valid_utf8_after: "valid_utf8 (a @ b) \<Longrightarrow> valid_utf8 a \<Longrightarrow> valid_utf8 b"
  by (simp add: valid_utf8_append)

text \<open>An ASCII character separates a string into strings.\<close>

lemma ascii_valid: "(of_char c :: nat) < 128 \<Longrightarrow> valid_utf8 [c]"
  by (simp add: valid_utf8_Cons utf8_next_def utf8_tail_def)

lemma ascii_not_cont: "(of_char c :: nat) < 128 \<Longrightarrow> \<not> is_cont c"
  by (simp add: is_cont_def)

lemma valid_utf8_ascii_cut:
  assumes "valid_utf8 (a @ c # b)" and "(of_char c :: nat) < 128"
  shows "valid_utf8 a" and "valid_utf8 b"
proof -
  show a: "valid_utf8 a"
    using valid_utf8_take_boundary [OF assms(1), of "length a"] ascii_not_cont [OF assms(2)] by (simp add: nth_append)
  have "valid_utf8 ([c] @ b)" using valid_utf8_after [OF assms(1) a] by simp
  then show "valid_utf8 b" using ascii_valid [OF assms(2)] by (rule valid_utf8_after)
qed

section \<open>Trimming and splitting\<close>

lemma whitespace_valid: "list_all valid_utf8 whitespace"
  by code_simp

lemma strip_front_valid: "\<forall>w \<in> set ws. valid_utf8 w \<Longrightarrow> valid_utf8 s \<Longrightarrow> valid_utf8 (strip_front ws s)"
proof (induction ws s rule: strip_front.induct)
  case (1 ws s)
  show ?case
  proof (cases "find (\<lambda>w. w \<noteq> [] \<and> prefix w s) ws")
    case None
    then show ?thesis using 1 by (simp add: strip_front.simps [of ws s])
  next
    case (Some w)
    then have "w \<in> set ws" "prefix w s" by (auto simp: find_Some_iff)
    then obtain t where t: "s = w @ t" "valid_utf8 w" using 1(2) by (auto simp: prefix_def)
    then have "valid_utf8 (drop (length w) s)" using valid_utf8_after [of w t] 1(3) by simp
    from 1(1) [OF Some 1(2) this] show ?thesis using Some by (simp add: strip_front.simps [of ws s])
  qed
qed

lemma strip_back_valid:
  "\<forall>w \<in> set ws. valid_utf8 w \<Longrightarrow> valid_utf8 (rev s) \<Longrightarrow> valid_utf8 (rev (strip_front (map rev ws) s))"
proof (induction "map rev ws" s rule: strip_front.induct)
  case (1 s)
  show ?case
  proof (cases "find (\<lambda>w. w \<noteq> [] \<and> prefix w s) (map rev ws)")
    case None
    then show ?thesis using 1 by (simp add: strip_front.simps [of "map rev ws" s])
  next
    case (Some r)
    then have "r \<in> set (map rev ws)" "prefix r s" by (auto simp: find_Some_iff)
    then obtain w t where t: "r = rev w" "s = rev w @ t" "valid_utf8 w" using 1(2) by (auto simp: prefix_def)
    then have "valid_utf8 (rev (drop (length r) s))" using valid_utf8_before [of "rev t" w] 1(3) by simp
    from 1(1) [OF Some 1(2) this] show ?thesis using Some by (simp add: strip_front.simps [of "map rev ws" s])
  qed
qed

lemma trim_valid: "valid_utf8 s \<Longrightarrow> valid_utf8 (trim s)"
proof -
  have w: "\<forall>w \<in> set whitespace. valid_utf8 w" using whitespace_valid by (simp add: list_all_iff)
  assume "valid_utf8 s"
  then have "valid_utf8 (trim_start s)" using strip_front_valid [OF w] by (simp add: trim_start_def)
  then show ?thesis using strip_back_valid [OF w, of "rev (trim_start s)"] by (simp add: trim_def trim_end_def)
qed

lemma split_on_valid:
  "\<forall>c. sep c \<longrightarrow> (of_char c :: nat) < 128 \<Longrightarrow> valid_utf8 s \<Longrightarrow> p \<in> set (split_on sep s) \<Longrightarrow> valid_utf8 p"
proof (induction s rule: length_induct)
  case (1 s)
  show ?case
  proof (cases "\<exists>c \<in> set s. sep c")
    case False
    then show ?thesis using 1 split_on_none [of s sep] by simp
  next
    case True
    then obtain a d b where s: "s = a @ d # b" "sep d" "\<forall>c \<in> set a. \<not> sep c" using split_list_first_prop by metis
    then have sp: "split_on sep s = a # split_on sep b" using split_on_append [of a sep d b] by simp
    from s have "valid_utf8 a" "valid_utf8 b" using valid_utf8_ascii_cut [of a d b] 1 by auto
    moreover have "length b < length s" by (simp add: s(1))
    then have "valid_utf8 p" if "p \<in> set (split_on sep b)" using 1(1,2) calculation(2) that by blast
    ultimately show ?thesis using 1(4) sp by auto
  qed
qed

lemma split_once_valid:
  assumes "split_once sep s = Some (a, b)" and "(of_char sep :: nat) < 128" and "valid_utf8 s"
  shows "valid_utf8 a" and "valid_utf8 b"
  using valid_utf8_ascii_cut [of a sep b] split_once_parts [OF assms(1)] assms(2,3) by auto

section \<open>Rules\<close>

lemma redacted_literal_valid: "valid_utf8 ''[REDACTED]''"
  by code_simp

lemma parse_entry_valid: "valid_utf8 raw \<Longrightarrow> (p, r) \<in> set (parse_entry raw) \<Longrightarrow> valid_utf8 p \<and> valid_utf8 r"
proof -
  assume raw: "valid_utf8 raw" and pr: "(p, r) \<in> set (parse_entry raw)"
  have "valid_utf8 (trim raw)" using raw by (rule trim_valid)
  then show ?thesis using pr split_once_valid [of "CHR 0x3A" "trim raw"] trim_valid redacted_literal_valid
    by (auto simp: parse_entry_def Let_def split: if_splits option.splits)
qed

lemma parse_pii_config_valid:
  assumes "valid_utf8 source"
  shows "\<forall>p \<in> set (fst (parse_pii_config source)). valid_utf8 p"
    and "\<forall>r \<in> set (snd (parse_pii_config source)). valid_utf8 r"
    and "length (snd (parse_pii_config source)) = length (fst (parse_pii_config source))"
proof -
  let ?sep = "\<lambda>c. c = CHR 0x0A \<or> c = CHR 0x2C"
  let ?es = "concat (map parse_entry (split_on ?sep source))"
  have ascii: "\<forall>c. ?sep c \<longrightarrow> (of_char c :: nat) < 128" by auto
  note raws = split_on_valid [OF ascii assms]
  have es: "valid_utf8 (fst e) \<and> valid_utf8 (snd e)" if e: "e \<in> set ?es" for e
  proof -
    from e obtain raw where raw: "raw \<in> set (split_on ?sep source)" "e \<in> set (parse_entry raw)"
      unfolding set_concat set_map by blast
    then show ?thesis using parse_entry_valid [OF raws [OF raw(1)], of "fst e" "snd e"] by simp
  qed
  have eq: "fst (parse_pii_config source) = map fst ?es" "snd (parse_pii_config source) = map snd ?es"
    by (simp_all only: parse_pii_config_eq Let_def fst_conv snd_conv)
  show "\<forall>p \<in> set (fst (parse_pii_config source)). valid_utf8 p" using es unfolding eq set_map by blast
  show "\<forall>r \<in> set (snd (parse_pii_config source)). valid_utf8 r" using es unfolding eq set_map by blast
  show "length (snd (parse_pii_config source)) = length (fst (parse_pii_config source))" unfolding eq length_map ..
qed

end
