(* ===== verification/Lifecycle.thy ===== *)
theory Lifecycle
  imports Startup Admission StrTyping
begin

text \<open>
  The running proxy: the state that \<open>main\<close> builds, shared by the router and the two watchers, and the
  steps that change it, in any interleaving: a notification for the token file or the rules file, a
  request, and the shutdown signal. Each step is the operation of the component that performs it.
\<close>

section \<open>States and events\<close>

record proxy =
  px_app :: AppState
  px_tokens_watched :: bool
  px_rules_watched :: bool

text \<open>A request comes with what its call finds in the environment.\<close>

datatype ('h, 'k) px_event =
    Tokens_changed file_event
  | Rules_changed file_event
  | Request http_request "('h, 'k) call_env"
  | Shutdown_signalled

text \<open>What stays the same while the proxy runs: the code of other crates the router and the watchers call.\<close>

record deployment =
  dp_lib :: http_lib
  dp_build :: ac_builder
  dp_to_string :: "bytes \<Rightarrow> bytes option"
  dp_attest :: "bytes \<Rightarrow> bytes + bytes"
  dp_route :: "bytes \<Rightarrow> bytes \<Rightarrow> endpoint"
  dp_propagate_id :: "http_request \<Rightarrow> stream_start http_response \<Rightarrow> stream_start http_response"

definition router :: "deployment \<Rightarrow> (http_request \<Rightarrow> http_request) \<Rightarrow> stream_start handler \<Rightarrow> stream_start handler" where
  "router dp set_id handler =
     make_router (dp_lib dp) (dp_build dp) (dp_attest dp) (dp_route dp) set_id (dp_propagate_id dp) handler"

text \<open>The router with the proxy handler of the code.\<close>

definition serve_request :: "deployment \<Rightarrow> ('h, 'k) call_env \<Rightarrow> stream_start handler" where
  "serve_request dp ce = router dp (ce_set_id ce) (proxy_handler (dp_lib dp) ce)"

definition config_of :: "proxy \<Rightarrow> config_state" where
  "config_of px = app_config (px_app px)"

definition with_config :: "proxy \<Rightarrow> config_state \<Rightarrow> proxy" where
  "with_config px c = px\<lparr>px_app := (px_app px)\<lparr>as_vault := cs_vault c, as_engine_state := cs_engine_state c,
     as_auth_keyring := cs_auth_keyring c, as_tenant_budgets := cs_tenant_budgets c\<rparr>\<rparr>"

definition from_boot :: "booted \<Rightarrow> proxy" where
  "from_boot b = \<lparr>px_app = bt_app b,
     px_tokens_watched = (bt_watched_tokens b \<noteq> None), px_rules_watched = (bt_watched_rules b \<noteq> None)\<rparr>"

section \<open>Steps\<close>

text \<open>A rule set that cannot be compiled ends the thread that watches the rules.\<close>

inductive px_step :: "deployment \<Rightarrow> proxy \<Rightarrow> ('h, 'k) px_event \<Rightarrow> proxy \<Rightarrow> bool" for dp :: deployment where
  tokens: "px_tokens_watched px \<Longrightarrow>
    px_step dp px (Tokens_changed ev) (with_config px (watch_auth_file (token_hash (dp_lib dp)) (config_of px) ev))"
| rules: "px_rules_watched px \<Longrightarrow>
    watch_pii_config (dp_build dp) (dp_to_string dp) (config_of px) ev = Ok c \<Longrightarrow>
    px_step dp px (Rules_changed ev) (with_config px c)"
| rules_panic: "px_rules_watched px \<Longrightarrow>
    watch_pii_config (dp_build dp) (dp_to_string dp) (config_of px) ev = Panic \<Longrightarrow>
    px_step dp px (Rules_changed ev) (px\<lparr>px_rules_watched := False\<rparr>)"
| request: "px_step dp px (Request req ce) (px\<lparr>px_app := fst (serve_request dp ce (px_app px) req)\<rparr>)"
| shutdown: "px_step dp px Shutdown_signalled (px\<lparr>px_app := (px_app px)\<lparr>as_shutdown := True\<rparr>\<rparr>)"

inductive px_run :: "deployment \<Rightarrow> proxy \<Rightarrow> ('h, 'k) px_event list \<Rightarrow> proxy \<Rightarrow> bool" for dp :: deployment where
  none: "px_run dp px [] px"
| more: "px_run dp px evs px1 \<Longrightarrow> px_step dp px1 ev px2 \<Longrightarrow> px_run dp px (evs @ [ev]) px2"

inductive_cases tokens_stepE: "px_step dp px (Tokens_changed ev) px'"
inductive_cases rules_stepE: "px_step dp px (Rules_changed ev) px'"
inductive_cases request_stepE: "px_step dp px (Request req ce) px'"

section \<open>What the steps keep\<close>

primrec token_events :: "('h, 'k) px_event \<Rightarrow> file_event list" where
  "token_events (Tokens_changed ev) = [ev]"
| "token_events (Rules_changed ev) = []"
| "token_events (Request req ce) = []"
| "token_events Shutdown_signalled = []"

text \<open>The token file in force: the last one read that names a token, else the one of the start.\<close>

definition tokens_in_force :: "(bytes \<Rightarrow> bytes) \<Rightarrow> bytes \<Rightarrow> ('h, 'k) px_event list \<Rightarrow> bytes" where
  "tokens_in_force hash initial evs =
     (let usable = filter (\<lambda>c. hash_keyring hash c \<noteq> []) (read_contents (concat (map token_events evs))) in
      if usable = [] then initial else last usable)"

lemma serve_changes:
  "\<exists>e tb. fst (serve_request dp ce st req) = st\<lparr>as_engine_state := e, as_tenant_budgets := tb\<rparr>"
proof (cases "fst (serve_request dp ce st req) = st")
  case True
  then have "fst (serve_request dp ce st req) = st\<lparr>as_engine_state := as_engine_state st, as_tenant_budgets := as_tenant_budgets st\<rparr>"
    by simp
  then show ?thesis by blast
next
  case False
  obtain e tb where "fst (serve_request dp ce st req) = st\<lparr>as_engine_state := e\<rparr> \<or> fst (serve_request dp ce st req) = st\<lparr>as_tenant_budgets := tb\<rparr>"
    using router_state_change [OF False [unfolded serve_request_def router_def]] unfolding serve_request_def router_def by blast
  then have "fst (serve_request dp ce st req) = st\<lparr>as_engine_state := e, as_tenant_budgets := as_tenant_budgets st\<rparr>
    \<or> fst (serve_request dp ce st req) = st\<lparr>as_engine_state := as_engine_state st, as_tenant_budgets := tb\<rparr>" by auto
  then show ?thesis by blast
qed

lemma watch_pii_config_keeps:
  "watch_pii_config build to_string c ev = Ok c' \<Longrightarrow> cs_auth_keyring c' = cs_auth_keyring c"
  by (auto simp: watch_pii_config_eq split: list.splits)

text \<open>The parts of the application's state that a step leaves alone.\<close>

lemma px_step_keeps:
  assumes "px_step dp px ev px'"
  shows "as_admin_bearer_token_hash (px_app px') = as_admin_bearer_token_hash (px_app px)"
    and "as_allowed_origins (px_app px') = as_allowed_origins (px_app px)"
    and "token_events ev = [] \<Longrightarrow> as_auth_keyring (px_app px') = as_auth_keyring (px_app px)"
proof -
  have "as_admin_bearer_token_hash (px_app px') = as_admin_bearer_token_hash (px_app px)
    \<and> as_allowed_origins (px_app px') = as_allowed_origins (px_app px)
    \<and> (token_events ev = [] \<longrightarrow> as_auth_keyring (px_app px') = as_auth_keyring (px_app px))"
    using assms
  proof cases
    case (rules fev c)
    then show ?thesis using watch_pii_config_keeps [OF rules(4)] by (simp add: with_config_def config_of_def app_config_def)
  next
    case (request req ce)
    obtain e tb where "fst (serve_request dp ce (px_app px) req) = (px_app px)\<lparr>as_engine_state := e, as_tenant_budgets := tb\<rparr>"
      using serve_changes by blast
    then show ?thesis using request by simp
  qed (simp_all add: with_config_def)
  then show "as_admin_bearer_token_hash (px_app px') = as_admin_bearer_token_hash (px_app px)"
    "as_allowed_origins (px_app px') = as_allowed_origins (px_app px)"
    "token_events ev = [] \<Longrightarrow> as_auth_keyring (px_app px') = as_auth_keyring (px_app px)"
    by blast+
qed

lemma tokens_step_keyring:
  assumes "px_step dp px (Tokens_changed ev) px'"
  shows "as_auth_keyring (px_app px') =
    (case event_contents ev of
       [] \<Rightarrow> as_auth_keyring (px_app px)
     | c # _ \<Rightarrow> if hash_keyring (token_hash (dp_lib dp)) c = [] then as_auth_keyring (px_app px)
         else hash_keyring (token_hash (dp_lib dp)) c)"
  using assms
  by (elim tokens_stepE) (simp add: watch_auth_file_eq with_config_def config_of_def app_config_def split: list.splits)

lemma tokens_in_force_snoc:
  "tokens_in_force hash t (evs @ [ev]) =
     (case concat (map event_contents (token_events ev)) of
        [] \<Rightarrow> tokens_in_force hash t evs
      | c # _ \<Rightarrow> if hash_keyring hash c = [] then tokens_in_force hash t evs else c)"
proof (cases ev)
  case (Tokens_changed fev)
  then show ?thesis using event_contents_cases [of fev] by (auto simp: tokens_in_force_def read_contents_def Let_def)
qed (simp_all add: tokens_in_force_def)

lemma run_keyring:
  assumes "px_run dp px evs px'"
    and "as_auth_keyring (px_app px) = hash_keyring (token_hash (dp_lib dp)) t"
  shows "as_auth_keyring (px_app px') = hash_keyring (token_hash (dp_lib dp)) (tokens_in_force (token_hash (dp_lib dp)) t evs)"
    and "as_admin_bearer_token_hash (px_app px') = as_admin_bearer_token_hash (px_app px)"
    and "as_allowed_origins (px_app px') = as_allowed_origins (px_app px)"
proof -
  from assms(1) show "as_admin_bearer_token_hash (px_app px') = as_admin_bearer_token_hash (px_app px)"
    by induction (simp_all add: px_step_keeps)
  from assms(1) show "as_allowed_origins (px_app px') = as_allowed_origins (px_app px)"
    by induction (simp_all add: px_step_keeps)
  from assms(1,2) show "as_auth_keyring (px_app px')
      = hash_keyring (token_hash (dp_lib dp)) (tokens_in_force (token_hash (dp_lib dp)) t evs)"
  proof induction
    case (none px)
    then show ?case by (simp add: tokens_in_force_def read_contents_def)
  next
    case (more px evs px1 ev px2)
    show ?case
    proof (cases "token_events ev")
      case Nil
      then show ?thesis using more px_step_keeps(3) [OF more(2)] by (simp add: tokens_in_force_snoc)
    next
      case (Cons fev rest)
      then have ev: "ev = Tokens_changed fev" "rest = []" by (cases ev; simp)+
      then show ?thesis
        using more tokens_step_keyring [of dp px1 fev px2] event_contents_cases [of fev]
        by (auto simp: tokens_in_force_snoc)
    qed
  qed
qed

section \<open>Where the rules come from\<close>

text \<open>The engine a rules file compiles to, and the one an administrator's patterns compile to.\<close>

definition file_engine :: "ac_builder \<Rightarrow> bytes \<Rightarrow> (EngineState, unit) outcome" where
  "file_engine build c = EngineState_new build (fst (parse_pii_config c)) (snd (parse_pii_config c))"

definition admin_engine :: "ac_builder \<Rightarrow> bytes list \<Rightarrow> (EngineState, unit) outcome" where
  "admin_engine build patterns = EngineState_new build patterns (map (\<lambda>_. ''[REDACTED]'') patterns)"

definition rules_origin :: "deployment \<Rightarrow> proxy \<Rightarrow> ('h, 'k) px_event \<Rightarrow> EngineState \<Rightarrow> bool" where
  "rules_origin dp px ev e \<longleftrightarrow>
     (case ev of
        Tokens_changed _ \<Rightarrow> False
      | Rules_changed fev \<Rightarrow> (\<exists>c \<in> set (event_contents fev). file_engine (dp_build dp) c = Ok e)
      | Request req ce \<Rightarrow> dp_route dp (rq_method (ce_set_id ce req)) (rq_path (ce_set_id ce req)) = Rules
          \<and> (\<exists>token patterns. bearer_token (dp_lib dp) (ce_set_id ce req) = Some token
              \<and> token_hash (dp_lib dp) token = as_admin_bearer_token_hash (px_app px)
              \<and> json_rules (dp_lib dp) (handled_request (ce_set_id ce) req) = Inr patterns \<and> patterns \<noteq> []
              \<and> admin_engine (dp_build dp) patterns = Ok e)
      | Shutdown_signalled \<Rightarrow> False)"

lemma serve_rules:
  "as_engine_state (fst (serve_request dp ce (px_app px) req)) = as_engine_state (px_app px)
   \<or> rules_origin dp px (Request req ce) (as_engine_state (fst (serve_request dp ce (px_app px) req)))"
proof (cases "fst (serve_request dp ce (px_app px) req) = px_app px")
  case False
  from router_state_change [OF this [unfolded serve_request_def router_def]] show ?thesis
    unfolding serve_request_def router_def rules_origin_def admin_engine_def by auto
qed simp

lemma px_step_rules:
  assumes "px_step dp px ev px'"
  shows "as_engine_state (px_app px') = as_engine_state (px_app px)
    \<or> rules_origin dp px ev (as_engine_state (px_app px'))"
  using assms
proof cases
  case (tokens fev)
  then show ?thesis by (simp add: watch_auth_file_eq with_config_def config_of_def app_config_def split: list.splits)
next
  case (rules fev c)
  then show ?thesis
    by (auto simp: watch_pii_config_eq with_config_def config_of_def app_config_def rules_origin_def file_engine_def
        split: list.splits)
next
  case (request req ce)
  then show ?thesis using serve_rules [of dp ce px req] by simp
qed simp_all

lemma run_rules:
  assumes "px_run dp px evs px'"
  shows "as_engine_state (px_app px') = as_engine_state (px_app px)
    \<or> (\<exists>ev \<in> set evs. rules_origin dp px ev (as_engine_state (px_app px')))"
  using assms
proof induction
  case (more px evs px1 ev px2)
  have "as_admin_bearer_token_hash (px_app px1) = as_admin_bearer_token_hash (px_app px)"
    using more(1) by induction (simp_all add: px_step_keeps)
  then have "rules_origin dp px1 ev e \<longleftrightarrow> rules_origin dp px ev e" for e
    by (auto simp: rules_origin_def split: px_event.splits)
  then show ?case using more px_step_rules [OF more(2)] by auto
qed simp

section \<open>Strings are strings\<close>

text \<open>
  What Rust's types guarantee of the inputs: environment variables and files that are read as strings,
  and the patterns in a JSON document, are valid UTF-8.
\<close>

primrec event_text :: "file_event \<Rightarrow> bool" where
  "event_text Watch_error \<longleftrightarrow> True"
| "event_text Other_file \<longleftrightarrow> True"
| "event_text (Changed reads) \<longleftrightarrow> (\<forall>c. Some c \<in> set reads \<longrightarrow> valid_utf8 c)"

primrec px_event_text :: "('h, 'k) px_event \<Rightarrow> bool" where
  "px_event_text (Tokens_changed ev) \<longleftrightarrow> event_text ev"
| "px_event_text (Rules_changed ev) \<longleftrightarrow> event_text ev"
| "px_event_text (Request req ce) \<longleftrightarrow> True"
| "px_event_text Shutdown_signalled \<longleftrightarrow> True"

definition machine_text :: "'key machine \<Rightarrow> process \<Rightarrow> bool" where
  "machine_text mc pr \<longleftrightarrow> (\<forall>path c. mc_files mc path = Some c \<longrightarrow> valid_utf8 c) \<and> (\<forall>x v. pr_vars pr x = Some v \<longrightarrow> valid_utf8 v)"

definition json_text :: "http_lib \<Rightarrow> bool" where
  "json_text lib \<longleftrightarrow> (\<forall>r patterns. json_rules lib r = Inr patterns \<longrightarrow> (\<forall>p \<in> set patterns. valid_utf8 p))"

lemma read_with_retries_member: "read_with_retries n reads = Some c \<Longrightarrow> Some c \<in> set reads"
  by (induction n reads rule: read_with_retries.induct) auto

lemma event_contents_text: "event_text ev \<Longrightarrow> c \<in> set (event_contents ev) \<Longrightarrow> valid_utf8 c"
  by (cases ev) (auto simp: event_contents_def split: option.splits dest!: read_with_retries_member [OF sym])

lemma pii_source_text:
  assumes "machine_text mc pr"
  shows "valid_utf8 (pii_source mc pr)"
proof -
  have "valid_utf8 ''password,secret,ssn''" by code_simp
  then show ?thesis using assms
    by (auto simp: pii_source_def machine_text_def split: option.splits Option.bind_splits)
qed

lemma file_engine_ok:
  assumes "builder_ok build" and "valid_utf8 c" and "file_engine build c = Ok e"
  shows "engine_ok e"
  using assms(3) unfolding file_engine_def
  by (rule EngineState_new_ok(1) [OF assms(1)]) (rule parse_pii_config_valid [OF assms(2)])+

lemma admin_engine_ok:
  assumes "builder_ok build" and "\<forall>p \<in> set patterns. valid_utf8 p" and "admin_engine build patterns = Ok e"
  shows "engine_ok e"
  using assms(3) unfolding admin_engine_def
  by (rule EngineState_new_ok(1) [OF assms(1)]) (simp_all add: assms(2))

lemma initial_engine_ok:
  assumes "builder_ok (mc_build mc)" and "machine_text mc pr" and "initial_vault mc pr = Ok vault"
  shows "engine_ok (pv_engine_state vault)"
proof -
  have "PiiVault_new (mc_build mc) (mc_to_string mc) (fst (parse_pii_config (pii_source mc pr)))
      (snd (parse_pii_config (pii_source mc pr))) = (Ok vault :: (PiiVault, unit) outcome)"
    using assms(3) by (simp add: initial_vault_def case_prod_beta)
  then show ?thesis
    by (rule PiiVault_new_ok(1) [OF assms(1)]) (rule parse_pii_config_valid(1) [OF pii_source_text [OF assms(2)]])
qed

lemma rules_origin_ok:
  assumes "rules_origin dp px ev e" and "builder_ok (dp_build dp)" and "json_text (dp_lib dp)" and "px_event_text ev"
  shows "engine_ok e"
proof (cases ev)
  case (Rules_changed fev)
  with assms obtain c where "c \<in> set (event_contents fev)" "file_engine (dp_build dp) c = Ok e" "event_text fev"
    by (auto simp: rules_origin_def)
  then show ?thesis using file_engine_ok [OF assms(2)] event_contents_text by blast
next
  case (Request req ce)
  with assms(1) obtain patterns r where "json_rules (dp_lib dp) r = Inr patterns" "admin_engine (dp_build dp) patterns = Ok e"
    by (auto simp: rules_origin_def)
  moreover from this(1) have "\<forall>p \<in> set patterns. valid_utf8 p" using assms(3) unfolding json_text_def by blast
  ultimately show ?thesis using admin_engine_ok [OF assms(2)] by blast
qed (use assms(1) in \<open>simp_all add: rules_origin_def\<close>)

end
