(* ===== verification/Shutdown.thy ===== *)
theory Shutdown
  imports Startup
begin

text \<open>
  The end of \<open>main\<close> in \<open>src/main.rs\<close>: the listeners are bound, the watchdog, the metrics server and the
  signal handler are spawned and the router is served until a signal asks the process to stop. The
  process is a state with a clock, and a step for everything that can happen next. Binding a port,
  building the TLS acceptor and the arrival of signals and connections are the environment's.
\<close>

section \<open>The process\<close>

text \<open>Times are milliseconds. A sleeping task knows its deadline.\<close>

datatype watchdog = Waiting | Sleeping nat | Expired nat | Cancelled

text \<open>
  The main task serves, drains its connections, and at the end, with its exit status, drops the runtime:
  that cancels the spawned tasks, and then waits for the threads of \<open>spawn_blocking\<close> that are running: the two
  watchers of \<open>Config\<close>, and the tasks that requests have started there, the compilation of new rules in \<open>update_rules\<close>
  and the request to NSM for an attestation document. Such a task runs on when its connection is closed.
\<close>

datatype main_task = Serving | Draining | Dropping nat

record server =
  sv_clock :: nat
  sv_sender :: bool
  sv_value :: bool
  sv_watchdog :: watchdog
  sv_main :: main_task
  sv_metrics :: bool
  sv_connections :: nat
  sv_tokens_watcher :: bool
  sv_rules_watcher :: bool
  sv_blocking :: nat
  sv_force_kills :: nat
  sv_exit :: "nat option"

datatype sv_event =
    Tick
  | Signal
  | Signal_handler_fails
  | Watchdog_wakes
  | Watchdog_expires
  | Watchdog_exits
  | Stop_accepting
  | Stop_metrics
  | Connection_opened
  | Connection_closed
  | Blocking_started
  | Blocking_ended
  | Main_returns
  | Tokens_watch_fails
  | Rules_watcher_panics
  | Runtime_dropped

definition from_secs :: "nat \<Rightarrow> nat" where
  "from_secs s = s * 1000"

text \<open>\<open>changed()\<close> returns when a value was sent, and also when the sender is gone.\<close>

definition changed :: "server \<Rightarrow> bool" where
  "changed sv \<longleftrightarrow> sv_value sv \<or> \<not> sv_sender sv"

definition watchers_running :: "server \<Rightarrow> bool" where
  "watchers_running sv \<longleftrightarrow> sv_tokens_watcher sv \<or> sv_rules_watcher sv"

text \<open>What the drop of the runtime waits for.\<close>

definition blocked :: "server \<Rightarrow> bool" where
  "blocked sv \<longleftrightarrow> watchers_running sv \<or> sv_blocking sv > 0"

section \<open>Steps\<close>

text \<open>A task that can run does so before the clock moves on.\<close>

definition urgent :: "server \<Rightarrow> bool" where
  "urgent sv \<longleftrightarrow>
     changed sv \<and> (sv_watchdog sv = Waiting \<or> sv_main sv = Serving \<or> sv_metrics sv)
     \<or> (case sv_watchdog sv of Sleeping d \<Rightarrow> d \<le> sv_clock sv | Expired d \<Rightarrow> d \<le> sv_clock sv | _ \<Rightarrow> False)
     \<or> (case sv_main sv of Serving \<Rightarrow> False | Draining \<Rightarrow> sv_connections sv = 0 | Dropping _ \<Rightarrow> \<not> blocked sv)"

definition guarded :: "bool \<Rightarrow> 'a \<Rightarrow> 'a option" where
  "guarded b x = (if b then Some x else None)"

text \<open>The task of \<open>shutdown_signal\<close>: it sends once and ends; without a handler it panics and drops the sender.\<close>

definition shutdown_signal :: "server \<Rightarrow> bool \<Rightarrow> server option" where
  "shutdown_signal sv installed =
     guarded (sv_sender sv) (if installed then sv\<lparr>sv_value := True, sv_sender := False\<rparr> else sv\<lparr>sv_sender := False\<rparr>)"

text \<open>The watchdog up to its first sleep, up to its second, and to the end.\<close>

definition watchdog_wakes :: "nat \<Rightarrow> server \<Rightarrow> server option" where
  "watchdog_wakes shutdown_timeout sv =
     guarded (changed sv \<and> sv_watchdog sv = Waiting)
       (sv\<lparr>sv_watchdog := Sleeping (sv_clock sv + from_secs shutdown_timeout)\<rparr>)"

definition watchdog_expires :: "server \<Rightarrow> server option" where
  "watchdog_expires sv =
     (case sv_watchdog sv of
        Sleeping d \<Rightarrow> guarded (d \<le> sv_clock sv)
          (sv\<lparr>sv_force_kills := sv_force_kills sv + 1, sv_watchdog := Expired (sv_clock sv + from_secs 3)\<rparr>)
      | _ \<Rightarrow> None)"

definition watchdog_exits :: "server \<Rightarrow> server option" where
  "watchdog_exits sv =
     (case sv_watchdog sv of
        Expired d \<Rightarrow> guarded (d \<le> sv_clock sv) (sv\<lparr>sv_exit := Some 0\<rparr>)
      | _ \<Rightarrow> None)"

text \<open>What leaving \<open>main\<close> does to the tasks of the runtime.\<close>

definition drop_runtime :: "nat \<Rightarrow> server \<Rightarrow> server" where
  "drop_runtime status sv =
     sv\<lparr>sv_main := Dropping status, sv_watchdog := Cancelled, sv_metrics := False, sv_sender := False\<rparr>"

primrec sv_move :: "nat \<Rightarrow> server \<Rightarrow> sv_event \<Rightarrow> server option" where
  "sv_move T sv Tick = guarded (\<not> urgent sv) (sv\<lparr>sv_clock := sv_clock sv + 1\<rparr>)"
| "sv_move T sv Signal = shutdown_signal sv True"
| "sv_move T sv Signal_handler_fails = shutdown_signal sv False"
| "sv_move T sv Watchdog_wakes = watchdog_wakes T sv"
| "sv_move T sv Watchdog_expires = watchdog_expires sv"
| "sv_move T sv Watchdog_exits = watchdog_exits sv"
| "sv_move T sv Stop_accepting = guarded (changed sv \<and> sv_main sv = Serving) (sv\<lparr>sv_main := Draining\<rparr>)"
| "sv_move T sv Stop_metrics = guarded (changed sv \<and> sv_metrics sv) (sv\<lparr>sv_metrics := False\<rparr>)"
| "sv_move T sv Connection_opened = guarded (sv_main sv = Serving) (sv\<lparr>sv_connections := sv_connections sv + 1\<rparr>)"
| "sv_move T sv Connection_closed = guarded (sv_connections sv > 0) (sv\<lparr>sv_connections := sv_connections sv - 1\<rparr>)"
| "sv_move T sv Blocking_started =
     guarded (sv_connections sv > 0 \<and> (\<forall>s. sv_main sv \<noteq> Dropping s)) (sv\<lparr>sv_blocking := sv_blocking sv + 1\<rparr>)"
| "sv_move T sv Blocking_ended = guarded (sv_blocking sv > 0) (sv\<lparr>sv_blocking := sv_blocking sv - 1\<rparr>)"
| "sv_move T sv Main_returns = guarded (sv_main sv = Draining \<and> sv_connections sv = 0) (drop_runtime 0 sv)"
| "sv_move T sv Tokens_watch_fails = guarded (sv_tokens_watcher sv) (sv\<lparr>sv_tokens_watcher := False\<rparr>)"
| "sv_move T sv Rules_watcher_panics = guarded (sv_rules_watcher sv) (sv\<lparr>sv_rules_watcher := False\<rparr>)"
| "sv_move T sv Runtime_dropped =
     (case sv_main sv of
        Dropping status \<Rightarrow> guarded (\<not> blocked sv) (sv\<lparr>sv_exit := Some status\<rparr>)
      | _ \<Rightarrow> None)"

definition sv_step :: "nat \<Rightarrow> server \<Rightarrow> sv_event \<Rightarrow> server option" where
  "sv_step T sv ev = (if sv_exit sv = None then sv_move T sv ev else None)"

primrec sv_run :: "nat \<Rightarrow> server \<Rightarrow> sv_event list \<Rightarrow> server option" where
  "sv_run T sv [] = Some sv"
| "sv_run T sv (ev # evs) = Option.bind (sv_step T sv ev) (\<lambda>sv'. sv_run T sv' evs)"

section \<open>The start\<close>

text \<open>
  The process when its watchers are running, and then behind the listeners: a port that cannot be bound and a
  failing \<open>build_tls_acceptor\<close> panic, which drops the runtime with the status of a panic.
\<close>

definition spawned :: "booted \<Rightarrow> server" where
  "spawned b = \<lparr>sv_clock = 0, sv_sender = True, sv_value = False, sv_watchdog = Waiting, sv_main = Serving,
     sv_metrics = True, sv_connections = 0, sv_tokens_watcher = (bt_watched_tokens b \<noteq> None),
     sv_rules_watcher = (bt_watched_rules b \<noteq> None), sv_blocking = 0, sv_force_kills = 0, sv_exit = None\<rparr>"

text \<open>
  \<open>build_tls_acceptor\<close> of \<open>src/tls.rs\<close>: a self-signed certificate for \<open>localhost\<close> and a server configuration that
  asks no certificate of the client. Both are made by other crates and may fail.
\<close>

record ('cert, 'key, 'config) tls_lib =
  generate_simple_self_signed :: "bytes list \<Rightarrow> ('cert \<times> 'key) option"
  with_single_cert :: "'cert list \<Rightarrow> 'key \<Rightarrow> 'config option"

definition build_tls_acceptor :: "('cert, 'key, 'config) tls_lib \<Rightarrow> ('config, unit) outcome" where
  "build_tls_acceptor tls =
     obind (expect (generate_simple_self_signed tls [''localhost''])) (\<lambda>(certificate, private_key).
     expect (with_single_cert tls [certificate] private_key))"

definition serve_router :: "(nat \<Rightarrow> bool) \<Rightarrow> ('cert, 'key, 'config) tls_lib \<Rightarrow> booted \<Rightarrow> server" where
  "serve_router bind tls b =
     (if \<not> bind (bt_proxy_port b) then drop_runtime 101 (spawned b)
      else if \<not> bind 9090 then drop_runtime 101 (spawned b)
      else if bt_tls b then
        (case build_tls_acceptor tls of Ok _ \<Rightarrow> spawned b | _ \<Rightarrow> drop_runtime 101 (spawned b))
      else spawned b)"

section \<open>The watchdog keeps its deadline\<close>

named_theorems moves

lemmas [moves] = sv_step_def guarded_def shutdown_signal_def watchdog_wakes_def watchdog_expires_def
  watchdog_exits_def drop_runtime_def changed_def watchers_running_def blocked_def

lemma sv_run_append: "sv_run T sv (xs @ ys) = Option.bind (sv_run T sv xs) (\<lambda>sv'. sv_run T sv' ys)"
  by (induction xs arbitrary: sv) (auto split: Option.bind_split)

text \<open>Before a signal: everybody waits.\<close>

definition quiet :: "server \<Rightarrow> bool" where
  "quiet sv \<longleftrightarrow> changed sv \<or> sv_watchdog sv = Waiting \<and> sv_main sv = Serving \<and> sv_exit sv = None"

lemma quiet_step: "quiet sv \<Longrightarrow> sv_step T sv ev = Some sv' \<Longrightarrow> quiet sv'"
  by (cases ev) (auto simp: moves quiet_def split: if_splits watchdog.splits main_task.splits)

lemma quiet_run: "quiet sv \<Longrightarrow> sv_run T sv evs = Some sv' \<Longrightarrow> quiet sv'"
  by (induction evs arbitrary: sv) (auto simp: bind_eq_Some_conv dest: quiet_step)

lemma quiet_start: "quiet (serve_router bind tls b)"
  by (simp add: serve_router_def quiet_def spawned_def drop_runtime_def changed_def split: outcome.splits)

lemma unwatched_step: "\<not> watchers_running sv \<Longrightarrow> sv_step T sv ev = Some sv' \<Longrightarrow> \<not> watchers_running sv'"
  by (cases ev) (auto simp: moves split: if_splits watchdog.splits main_task.splits)

lemma unwatched_run: "\<not> watchers_running sv \<Longrightarrow> sv_run T sv evs = Some sv' \<Longrightarrow> \<not> watchers_running sv'"
  by (induction evs arbitrary: sv) (auto simp: bind_eq_Some_conv dest: unwatched_step)

text \<open>After a signal at time \<open>t\<close>, in a process without watchers.\<close>

definition stopping :: "nat \<Rightarrow> nat \<Rightarrow> server \<Rightarrow> bool" where
  "stopping T t sv \<longleftrightarrow> changed sv \<and> \<not> watchers_running sv \<and>
     (case sv_watchdog sv of
        Waiting \<Rightarrow> sv_clock sv = t \<and> (\<forall>s. sv_main sv \<noteq> Dropping s)
      | Sleeping d \<Rightarrow> d = t + from_secs T \<and> sv_clock sv \<le> d \<and> (\<forall>s. sv_main sv \<noteq> Dropping s)
      | Expired d \<Rightarrow> d = t + from_secs (T + 3) \<and> sv_clock sv \<le> d \<and> (\<forall>s. sv_main sv \<noteq> Dropping s)
      | Cancelled \<Rightarrow> (\<exists>s. sv_main sv = Dropping s))"

text \<open>Before \<open>main\<close> has returned the deadline is kept.\<close>

lemma stopping_clock: "stopping T t sv \<Longrightarrow> (\<forall>s. sv_main sv \<noteq> Dropping s) \<Longrightarrow> sv_clock sv \<le> t + from_secs (T + 3)"
  by (auto simp: stopping_def from_secs_def split: watchdog.splits)

lemma stopping_step: "stopping T t sv \<Longrightarrow> sv_step T sv ev = Some sv' \<Longrightarrow> stopping T t sv'"
  by (cases ev; cases "sv_watchdog sv"; cases "sv_main sv")
    (auto simp: moves stopping_def urgent_def from_secs_def split: if_splits)

lemma stopping_run: "stopping T t sv \<Longrightarrow> sv_run T sv evs = Some sv' \<Longrightarrow> stopping T t sv'"
  by (induction evs arbitrary: sv) (auto simp: bind_eq_Some_conv dest: stopping_step)

text \<open>The clock passes the deadline only behind \<open>main\<close>, while a blocking task runs.\<close>

lemma overrun_step:
  assumes "stopping T t sv" and "sv_step T sv ev = Some sv'"
    and "sv_clock sv \<le> t + from_secs (T + 3)" and "sv_clock sv' > t + from_secs (T + 3)"
  shows "sv_clock sv = t + from_secs (T + 3) \<and> (\<exists>s. sv_main sv = Dropping s) \<and> sv_blocking sv > 0"
proof -
  have ev: "ev = Tick" using assms(2-4)
    by (cases ev) (auto simp: moves split: if_splits watchdog.splits main_task.splits)
  then have tick: "\<not> urgent sv" "sv' = sv\<lparr>sv_clock := sv_clock sv + 1\<rparr>" using assms(2) by (auto simp: moves split: if_splits)
  then have "\<exists>s. sv_main sv = Dropping s"
    using stopping_clock [OF stopping_step [OF assms(1,2)]] assms(4) by (cases "sv_main sv") auto
  then show ?thesis using tick assms(1,3,4) by (auto simp: urgent_def stopping_def blocked_def)
qed

lemma overrun_run:
  "\<lbrakk>stopping T t sv; sv_run T sv evs = Some sv'; sv_clock sv \<le> t + from_secs (T + 3); sv_clock sv' > t + from_secs (T + 3)\<rbrakk> \<Longrightarrow>
   \<exists>xs ys svx s. evs = xs @ ys \<and> sv_run T sv xs = Some svx \<and> sv_clock svx = t + from_secs (T + 3)
     \<and> sv_main svx = Dropping s \<and> sv_blocking svx > 0"
proof (induction evs arbitrary: sv)
  case (Cons ev evs)
  then obtain sv1 where s: "sv_step T sv ev = Some sv1" "sv_run T sv1 evs = Some sv'" by (auto simp: bind_eq_Some_conv)
  show ?case
  proof (cases "sv_clock sv1 \<le> t + from_secs (T + 3)")
    case True
    then obtain xs ys svx st where "evs = xs @ ys" "sv_run T sv1 xs = Some svx" "sv_clock svx = t + from_secs (T + 3)"
      "sv_main svx = Dropping st" "sv_blocking svx > 0"
      using Cons.IH [OF stopping_step [OF Cons.prems(1) s(1)] s(2)] Cons.prems(4) by blast
    then show ?thesis using s(1) by (intro exI [of _ "ev # xs"] exI [of _ ys] exI [of _ svx] exI [of _ st]) simp
  next
    case False
    then obtain st where "sv_clock sv = t + from_secs (T + 3)" "sv_main sv = Dropping st" "sv_blocking sv > 0"
      using overrun_step [OF Cons.prems(1) s(1) Cons.prems(3)] by auto
    then show ?thesis by (intro exI [of _ "[]"] exI [of _ "ev # evs"] exI [of _ sv] exI [of _ st]) simp
  qed
qed simp

lemma signal_starts_stopping:
  assumes "quiet sv" and "\<not> changed sv" and "\<not> watchers_running sv"
    and "sv_step T sv ev = Some sv'" and "changed sv'"
  shows "stopping T (sv_clock sv) sv'"
  using assms
  by (cases ev) (auto simp: moves stopping_def quiet_def split: if_splits watchdog.splits main_task.splits)

text \<open>The watchdog exits at its deadline and not before.\<close>

lemma watchdog_exit_time:
  assumes "stopping T t sv" and "sv_step T sv Watchdog_exits = Some sv'"
  shows "sv_clock sv' = t + from_secs (T + 3)" and "sv_exit sv' = Some 0"
  using assms by (auto simp: moves stopping_def split: if_splits watchdog.splits)

lemma watchdog_exit_ends:
  assumes "sv_run T sv evs = Some sv'" and "Watchdog_exits \<in> set evs"
  obtains evs' sv1 where "evs = evs' @ [Watchdog_exits]" "sv_run T sv evs' = Some sv1" "sv_step T sv1 Watchdog_exits = Some sv'"
proof -
  obtain xs ys where evs: "evs = xs @ Watchdog_exits # ys" using assms(2) by (meson split_list)
  then obtain sv1 sv2 where r: "sv_run T sv xs = Some sv1" "sv_step T sv1 Watchdog_exits = Some sv2" "sv_run T sv2 ys = Some sv'"
    using assms(1) by (auto simp: sv_run_append bind_eq_Some_conv)
  have "sv_exit sv2 \<noteq> None" using r(2) by (auto simp: moves split: if_splits watchdog.splits)
  then have "ys = []" using r(3) by (cases ys) (auto simp: sv_step_def)
  then show ?thesis using that evs r by auto
qed

section \<open>The process ends\<close>

text \<open>The steps that need neither a client nor a signal, and how many of them are left.\<close>

definition own_events :: "sv_event set" where
  "own_events = {Tick, Watchdog_wakes, Watchdog_expires, Watchdog_exits, Stop_accepting, Stop_metrics, Main_returns, Blocking_ended,
     Runtime_dropped}"

definition steps_left :: "nat \<Rightarrow> server \<Rightarrow> nat" where
  "steps_left deadline sv =
     (if sv_exit sv \<noteq> None then 0
      else (deadline - sv_clock sv) + sv_blocking sv + (if sv_metrics sv then 1 else 0)
         + (case sv_watchdog sv of Waiting \<Rightarrow> 3 | Sleeping _ \<Rightarrow> 2 | Expired _ \<Rightarrow> 1 | Cancelled \<Rightarrow> 0)
         + (case sv_main sv of Serving \<Rightarrow> 3 | Draining \<Rightarrow> 2 | Dropping _ \<Rightarrow> 1))"

lemma stopping_progress:
  assumes "stopping T t sv" and "sv_exit sv = None"
  obtains (next_step) ev sv' where "ev \<in> own_events" "sv_step T sv ev = Some sv'"
    "steps_left (t + from_secs (T + 3)) sv' < steps_left (t + from_secs (T + 3)) sv"
    "sv_clock sv' \<le> max (sv_clock sv) (t + from_secs (T + 3))"
proof -
  note d = moves urgent_def own_events_def steps_left_def stopping_def
  have step: thesis if "ev \<in> own_events" "sv_step T sv ev \<noteq> None"
    "\<And>sv'. sv_step T sv ev = Some sv' \<Longrightarrow> steps_left (t + from_secs (T + 3)) sv' < steps_left (t + from_secs (T + 3)) sv
       \<and> sv_clock sv' \<le> max (sv_clock sv) (t + from_secs (T + 3))" for ev
    using that next_step by blast
  let ?dropping = "\<exists>s. sv_main sv = Dropping s"
  have "sv_metrics sv \<or> sv_main sv = Serving \<or> sv_watchdog sv = Waiting \<and> sv_main sv \<noteq> Serving
    \<or> sv_main sv = Draining \<and> sv_connections sv = 0 \<or> ?dropping
    \<or> (\<exists>d. sv_watchdog sv = Sleeping d \<and> d \<le> sv_clock sv) \<and> \<not> ?dropping
    \<or> (\<exists>d. sv_watchdog sv = Expired d \<and> d \<le> sv_clock sv)
    \<or> \<not> urgent sv \<and> sv_main sv = Draining \<and> sv_watchdog sv \<noteq> Waiting"
    by (cases "sv_main sv"; cases "sv_watchdog sv") (auto simp: urgent_def)
  then consider "sv_metrics sv" | "sv_main sv = Serving" | "sv_watchdog sv = Waiting" "sv_main sv \<noteq> Serving"
    | "sv_main sv = Draining" "sv_connections sv = 0" | ?dropping
    | "\<exists>d. sv_watchdog sv = Sleeping d \<and> d \<le> sv_clock sv" "\<not> ?dropping"
    | "\<exists>d. sv_watchdog sv = Expired d \<and> d \<le> sv_clock sv"
    | "\<not> urgent sv" "sv_main sv = Draining" "sv_watchdog sv \<noteq> Waiting"
    by (elim disjE conjE) (assumption | fast)+
  then show thesis
  proof cases
    case 1 then show ?thesis using assms by (intro step [of Stop_metrics]) (auto simp: d split: if_splits)
  next
    case 2 then show ?thesis using assms by (intro step [of Stop_accepting]) (auto simp: d split: if_splits)
  next
    case 3 then show ?thesis using assms by (intro step [of Watchdog_wakes]) (auto simp: d split: if_splits main_task.splits)
  next
    case 4 then show ?thesis using assms by (intro step [of Main_returns]) (auto simp: d split: if_splits watchdog.splits)
  next
    case 5 then show ?thesis using assms
      by (cases "sv_blocking sv = 0"; intro step [of "if sv_blocking sv = 0 then Runtime_dropped else Blocking_ended"])
        (auto simp: d split: if_splits)
  next
    case 6 then show ?thesis using assms by (intro step [of Watchdog_expires]) (auto simp: d split: if_splits main_task.splits)
  next
    case 7 then show ?thesis using assms by (intro step [of Watchdog_exits]) (auto simp: d split: if_splits main_task.splits)
  next
    case 8 then show ?thesis using assms by (intro step [of Tick]) (auto simp: d from_secs_def split: if_splits watchdog.splits)
  qed
qed

lemma stopping_exits:
  assumes "stopping T t sv"
  shows "\<exists>evs sv'. set evs \<subseteq> own_events \<and> sv_run T sv evs = Some sv' \<and> sv_exit sv' \<noteq> None
    \<and> sv_clock sv' \<le> max (sv_clock sv) (t + from_secs (T + 3))"
  using assms
proof (induction "steps_left (t + from_secs (T + 3)) sv" arbitrary: sv rule: less_induct)
  case less
  show ?case
  proof (cases "sv_exit sv")
    case None
    obtain ev sv1 where s: "ev \<in> own_events" "sv_step T sv ev = Some sv1"
      "steps_left (t + from_secs (T + 3)) sv1 < steps_left (t + from_secs (T + 3)) sv"
      "sv_clock sv1 \<le> max (sv_clock sv) (t + from_secs (T + 3))"
      by (rule stopping_progress [OF less(2) None])
    obtain evs sv' where "set evs \<subseteq> own_events" "sv_run T sv1 evs = Some sv'" "sv_exit sv' \<noteq> None"
      "sv_clock sv' \<le> max (sv_clock sv1) (t + from_secs (T + 3))"
      using less(1) [OF s(3) stopping_step [OF less(2) s(2)]] by blast
    then show ?thesis using s by (intro exI [of _ "ev # evs"] exI [of _ sv']) simp
  qed (intro exI [of _ "[]"] exI [of _ sv], simp)
qed

section \<open>The watchers keep the process\<close>

definition hanging :: "server \<Rightarrow> bool" where
  "hanging sv \<longleftrightarrow> sv_tokens_watcher sv \<and> sv_exit sv = None \<and> sv_watchdog sv = Cancelled \<and> (\<exists>s. sv_main sv = Dropping s)"

lemma hanging_step:
  "hanging sv \<Longrightarrow> sv_step T sv ev = Some sv' \<Longrightarrow> ev \<noteq> Tokens_watch_fails \<Longrightarrow> hanging sv'"
  by (cases ev) (auto simp: moves hanging_def split: if_splits)

lemma hanging_run:
  "hanging sv \<Longrightarrow> sv_run T sv evs = Some sv' \<Longrightarrow> Tokens_watch_fails \<notin> set evs \<Longrightarrow> hanging sv'"
  by (induction evs arbitrary: sv) (auto simp: bind_eq_Some_conv dest: hanging_step)

text \<open>With the token watcher running, only the watchdog ends the process, and the return of \<open>main\<close> ends the watchdog.\<close>

lemma watched_step:
  assumes "sv_tokens_watcher sv" and "sv_step T sv ev = Some sv'" and "ev \<noteq> Tokens_watch_fails"
  shows "sv_tokens_watcher sv'" and "ev \<noteq> Watchdog_exits \<Longrightarrow> sv_exit sv' = None"
    and "ev = Main_returns \<Longrightarrow> hanging sv'"
  using assms by (cases ev; auto simp: moves hanging_def split: if_splits watchdog.splits main_task.splits)+

lemma watched_run:
  assumes "sv_tokens_watcher sv" and "sv_exit sv = None" and "sv_run T sv evs = Some sv'" and "Tokens_watch_fails \<notin> set evs"
  shows "sv_exit sv' \<noteq> None \<Longrightarrow> Watchdog_exits \<in> set evs" and "Main_returns \<in> set evs \<Longrightarrow> hanging sv'"
proof -
  have "(sv_exit sv' \<noteq> None \<longrightarrow> Watchdog_exits \<in> set evs) \<and> (Main_returns \<in> set evs \<longrightarrow> hanging sv')"
    using assms
  proof (induction evs arbitrary: sv)
    case (Cons ev evs)
    then obtain sv1 where s: "sv_step T sv ev = Some sv1" "sv_run T sv1 evs = Some sv'"
      by (auto simp: bind_eq_Some_conv)
    have ev: "ev \<noteq> Tokens_watch_fails" using Cons.prems by auto
    note w = watched_step [OF Cons.prems(1) s(1) ev]
    show ?case
    proof (cases "ev = Watchdog_exits")
      case True
      then have "sv_exit sv1 \<noteq> None" using s(1) by (auto simp: moves split: if_splits watchdog.splits)
      then have "evs = []" using s(2) by (cases evs) (auto simp: sv_step_def)
      then show ?thesis using True by simp
    next
      case False
      have "hanging sv'" if "ev = Main_returns"
        using hanging_run [OF w(3) [OF that] s(2)] Cons.prems(4) by simp
      then show ?thesis using Cons.IH [OF w(1) w(2) [OF False] s(2)] Cons.prems(4) by auto
    qed
  qed simp
  then show "sv_exit sv' \<noteq> None \<Longrightarrow> Watchdog_exits \<in> set evs" "Main_returns \<in> set evs \<Longrightarrow> hanging sv'" by blast+
qed

lemma local_start_watches_tokens:
  assumes "main mc pr = (pr', Ok b)" and "pr_vars pr ''NITRO_ENV'' = None"
  shows "bt_watched_tokens b \<noteq> None"
proof (rule main_Ok [OF assms(1)])
  fix vault document tokens token_file admin_token client
  assume "snd (auth_source mc pr) = Ok (tokens, token_file)"
    and b: "b = boot_state mc pr' vault document tokens token_file admin_token client"
  then have "token_file \<noteq> None" using assms(2) by (auto simp: auth_source_Ok start_tokens_def)
  then show ?thesis by (simp add: b boot_state_def)
qed

section \<open>Properties\<close>

text \<open>
  C19: The end of a process without watchers (an enclave whose rules are not in a file). Whatever the clients do
  once the signal has arrived, the process runs no longer than the shutdown timeout and three seconds, with one exception:
  if \<open>main\<close> has returned by then, which cancels the watchdog, and a blocking task of a request (the compilation of
  rules, or a request to NSM) is still running at that moment, the process waits for that task. When the
  watchdog ends the process, that is exactly at the deadline; and at any moment the process's own steps, with
  the end of its blocking tasks and without the help of a client, lead to its exit, by the deadline
  if that has not passed and without any further delay if it has.
\<close>
theorem shutdown_deadline:
  assumes "bt_watched_tokens b = None" and "bt_watched_rules b = None"
    and "sv_run (bt_shutdown_timeout b) (serve_router bind tls b) evs = Some sv" and "\<not> changed sv"
    and "sv_step (bt_shutdown_timeout b) sv signal = Some sv1" and "changed sv1"
    and "sv_run (bt_shutdown_timeout b) sv1 evs' = Some sv2"
  shows "let deadline = sv_clock sv + from_secs (bt_shutdown_timeout b + 3) in
    (sv_clock sv2 \<le> deadline
      \<or> (\<exists>xs ys svx status. evs' = xs @ ys \<and> sv_run (bt_shutdown_timeout b) sv1 xs = Some svx \<and> sv_clock svx = deadline
           \<and> sv_main svx = Dropping status \<and> sv_blocking svx > 0))
    \<and> (Watchdog_exits \<in> set evs' \<longrightarrow> sv_clock sv2 = deadline)
    \<and> (\<exists>evs'' sv3. set evs'' \<subseteq> own_events \<and> sv_run (bt_shutdown_timeout b) sv2 evs'' = Some sv3
         \<and> sv_exit sv3 \<noteq> None \<and> sv_clock sv3 \<le> max (sv_clock sv2) deadline)"
proof -
  let ?T = "bt_shutdown_timeout b" and ?t = "sv_clock sv"
  have "\<not> watchers_running (serve_router bind tls b)"
    using assms(1,2) by (simp add: serve_router_def spawned_def drop_runtime_def watchers_running_def split: outcome.splits)
  then have st: "stopping ?T ?t sv1"
    using signal_starts_stopping [OF quiet_run [OF quiet_start assms(3)] assms(4) _ assms(5,6)]
      unwatched_run assms(3) by blast
  then have st2: "stopping ?T ?t sv2" using stopping_run assms(7) by blast
  have "sv_clock sv1 = ?t" using assms(4-6) by (cases signal) (auto simp: moves split: if_splits watchdog.splits main_task.splits)
  then have over: "sv_clock sv2 \<le> ?t + from_secs (?T + 3) \<or> (\<exists>xs ys svx status. evs' = xs @ ys \<and> sv_run ?T sv1 xs = Some svx
      \<and> sv_clock svx = ?t + from_secs (?T + 3) \<and> sv_main svx = Dropping status \<and> sv_blocking svx > 0)"
    using overrun_run [OF st assms(7)] by (cases "sv_clock sv2 \<le> ?t + from_secs (?T + 3)") auto
  have "sv_clock sv2 = ?t + from_secs (?T + 3)" if w: "Watchdog_exits \<in> set evs'"
  proof (rule watchdog_exit_ends [OF assms(7) w])
    fix xs svx assume "sv_run ?T sv1 xs = Some svx" "sv_step ?T svx Watchdog_exits = Some sv2"
    then show ?thesis using watchdog_exit_time(1) stopping_run st by blast
  qed
  with over stopping_exits [OF st2] show ?thesis unfolding Let_def by blast
qed

text \<open>
  The exception is real: a request whose blocking task outlives its connection keeps the process alive for as
  long as the task runs, and no watchdog is left to end it.
\<close>

lemma ticks_while_blocked:
  "sv_main sv = Dropping s \<Longrightarrow> sv_watchdog sv = Cancelled \<Longrightarrow> \<not> sv_metrics sv \<Longrightarrow> blocked sv \<Longrightarrow> sv_exit sv = None \<Longrightarrow>
   sv_run T sv (replicate n Tick) = Some (sv\<lparr>sv_clock := sv_clock sv + n\<rparr>)"
proof (induction n arbitrary: sv)
  case (Suc n)
  then have "sv_step T sv Tick = Some (sv\<lparr>sv_clock := sv_clock sv + 1\<rparr>)"
    by (simp add: sv_step_def guarded_def urgent_def)
  moreover have "sv_run T (sv\<lparr>sv_clock := sv_clock sv + 1\<rparr>) (replicate n Tick)
      = Some (sv\<lparr>sv_clock := sv_clock sv + 1\<rparr>\<lparr>sv_clock := sv_clock sv + 1 + n\<rparr>)"
    using Suc.IH [of "sv\<lparr>sv_clock := sv_clock sv + 1\<rparr>"] Suc.prems by (simp add: blocked_def watchers_running_def)
  ultimately show ?case by simp
qed simp

lemma blocking_task_outlives_watchdog:
  "\<exists>sv. sv_run T (spawned b) ([Connection_opened, Blocking_started, Signal, Stop_accepting, Connection_closed, Main_returns]
      @ replicate n Tick) = Some sv \<and> sv_clock sv = n \<and> sv_exit sv = None"
proof -
  let ?evs = "[Connection_opened, Blocking_started, Signal, Stop_accepting, Connection_closed, Main_returns]"
  obtain sv where sv: "sv_run T (spawned b) ?evs = Some sv" "sv_main sv = Dropping 0" "sv_watchdog sv = Cancelled"
    "\<not> sv_metrics sv" "sv_blocking sv = 1" "sv_exit sv = None" "sv_clock sv = 0"
    by (simp add: moves spawned_def)
  then have "sv_run T sv (replicate n Tick) = Some (sv\<lparr>sv_clock := n\<rparr>)"
    using ticks_while_blocked [OF sv(2-4), of T n] by (simp add: blocked_def)
  then show ?thesis unfolding sv_run_append sv(1) using sv(6) by simp
qed

text \<open>
  C20: The end of a process outside an enclave, which always watches its token file. As long as the set-up of that
  watcher has not failed (when it panics, its thread ends), the process exits only when the
  watchdog forces it. Once its connections are drained and \<open>main\<close> has returned it does not exit, since the
  runtime waits for the watcher's thread and has already cancelled the watchdog; nor does it exit when a port
  cannot be bound.
\<close>
theorem local_proxy_exits_only_by_force:
  assumes "main mc pr = (pr', Ok b)" and "pr_vars pr ''NITRO_ENV'' = None"
    and "sv_run (bt_shutdown_timeout b) (serve_router bind tls b) evs = Some sv" and "Tokens_watch_fails \<notin> set evs"
  shows "(sv_exit sv \<noteq> None \<longrightarrow> Watchdog_exits \<in> set evs)
    \<and> (Main_returns \<in> set evs \<or> \<not> bind (bt_proxy_port b) \<or> \<not> bind 9090 \<longrightarrow> sv_exit sv = None)"
proof -
  have w: "sv_tokens_watcher (serve_router bind tls b)" "sv_exit (serve_router bind tls b) = None"
    using local_start_watches_tokens [OF assms(1,2)] by (simp_all add: serve_router_def spawned_def drop_runtime_def split: outcome.splits)
  have "hanging (serve_router bind tls b)" if "\<not> bind (bt_proxy_port b) \<or> \<not> bind 9090"
    using that w by (auto simp: hanging_def serve_router_def drop_runtime_def)
  then show ?thesis
    using watched_run [OF w assms(3,4)] hanging_run [OF _ assms(3,4)] by (auto simp: hanging_def)
qed

section \<open>Witnesses\<close>

text \<open>
  A process without watchers that has an open connection when the signal arrives, and the local start of
  \<open>sample_main\<close>, whose drained process hangs.
\<close>

definition sample_tls :: "(bytes, bytes, unit) tls_lib" where
  "sample_tls = \<lparr>generate_simple_self_signed = (\<lambda>names. Some (''cert'', ''key'')), with_single_cert = (\<lambda>certs key. Some ())\<rparr>"

lemma sample_acceptor: "build_tls_acceptor sample_tls = Ok ()"
  by (simp add: build_tls_acceptor_def sample_tls_def expect_def)

definition sample_enclave_boot :: "PiiVault \<Rightarrow> booted" where
  "sample_enclave_boot vault = boot_state sample_machine sample_process vault ''doc'' ''t'' None ''admin'' ''Bearer key''"

lemma sample_enclave_boot_simps:
  "bt_watched_tokens (sample_enclave_boot vault) = None" "bt_watched_rules (sample_enclave_boot vault) = None"
  "bt_shutdown_timeout (sample_enclave_boot vault) = 110"
  by (simp_all add: sample_enclave_boot_def boot_state_def parsed_var_def sample_process_def)

definition sample_connected :: "PiiVault \<Rightarrow> server" where
  "sample_connected vault = (spawned (sample_enclave_boot vault))\<lparr>sv_connections := 1\<rparr>"

definition sample_signalled :: "PiiVault \<Rightarrow> server" where
  "sample_signalled vault = (sample_connected vault)\<lparr>sv_value := True, sv_sender := False\<rparr>"

lemma sample_signalled_clock: "sv_clock ((sample_signalled vault)\<lparr>sv_main := m\<rparr>) = 0" "sv_clock (sample_connected vault) = 0"
  by (simp_all add: sample_signalled_def sample_connected_def spawned_def)

theorem shutdown_deadline_witness:
  "\<exists>vault evs sv. set evs \<subseteq> own_events
     \<and> sv_run 110 ((sample_signalled vault)\<lparr>sv_main := Draining\<rparr>) evs = Some sv
     \<and> sv_exit sv \<noteq> None \<and> sv_clock sv \<le> from_secs 113"
proof -
  fix vault
  let ?b = "sample_enclave_boot vault"
  have 1: "sv_run (bt_shutdown_timeout ?b) (serve_router (\<lambda>_. True) sample_tls ?b) [Connection_opened] = Some (sample_connected vault)"
    by (simp add: moves serve_router_def spawned_def sample_connected_def sample_acceptor)
  have 2: "\<not> changed (sample_connected vault)"
    by (simp add: changed_def sample_connected_def spawned_def)
  have 3: "sv_step (bt_shutdown_timeout ?b) (sample_connected vault) Signal = Some (sample_signalled vault)"
    by (simp add: moves sample_connected_def sample_signalled_def spawned_def)
  have 4: "changed (sample_signalled vault)"
    by (simp add: changed_def sample_signalled_def)
  have 5: "sv_run (bt_shutdown_timeout ?b) (sample_signalled vault) [Stop_accepting]
      = Some ((sample_signalled vault)\<lparr>sv_main := Draining\<rparr>)"
    by (simp add: moves sample_connected_def sample_signalled_def spawned_def)
  have "sv_clock (sample_connected vault) = 0" by (simp add: sample_connected_def spawned_def)
  then show ?thesis
    using shutdown_deadline [OF sample_enclave_boot_simps(1,2) 1 2 3 4 5, unfolded sample_enclave_boot_simps Let_def]
    by (auto simp: sample_signalled_clock)
qed

theorem local_proxy_exits_only_by_force_witness:
  "\<exists>b sv. main sample_machine sample_process = (sample_process, Ok b)
     \<and> sv_run (bt_shutdown_timeout b) (serve_router (\<lambda>_. True) sample_tls b) [Signal, Stop_accepting, Main_returns] = Some sv
     \<and> sv_exit sv = None"
proof -
  obtain b where b: "main sample_machine sample_process = (sample_process, Ok b)" using sample_main by blast
  have env: "pr_vars sample_process ''NITRO_ENV'' = None" by (simp add: sample_process_def)
  obtain sv where sv: "sv_run (bt_shutdown_timeout b) (serve_router (\<lambda>_. True) sample_tls b) [Signal, Stop_accepting, Main_returns] = Some sv"
    by (simp add: moves serve_router_def spawned_def sample_acceptor)
  from local_proxy_exits_only_by_force [OF b env sv] b sv show ?thesis by auto
qed

end
