(* ===== verification/HostRelay.thy ===== *)
theory HostRelay
  imports RustStr Utf8 "HOL-Library.Word"
begin

text \<open>
  The programs on the parent host: the relay that lets an enclave open \<open>CONNECT\<close> tunnels to AWS KMS
  (\<open>src/vsock_host_bridge.rs\<close>, started by \<open>src/bin/host_relay.rs\<close>), and the bridge that forwards the
  clients' TCP connections into the enclave (\<open>src/bin/vsock_host_bridge.rs\<close>). Sockets are the
  environment's: a connection comes with the bytes it will deliver and the results of the calls made
  on it, and a handler yields the actions it performs. Parsing IP addresses is a parameter.
\<close>

section \<open>Reading the request\<close>

datatype relay_error =
    Headers_exceed | Read_failed | Not_ascii | Request_empty | Method_missing | Authority_missing
  | Version_missing | Invalid_request_line | Port_missing | Not_approved
  | Connect_failed | Acknowledge_failed | Copy_failed | Handshake_timed_out | Accept_failed | Bind_failed

definition VMADDR_CID_ANY :: "32 word" where
  "VMADDR_CID_ANY = 0xffffffff"

definition MAX_CONNECT_HEADERS :: nat where
  "MAX_CONNECT_HEADERS = 4096"

abbreviation CR :: byte where
  "CR \<equiv> CHR 0x0D"

abbreviation LF :: byte where
  "LF \<equiv> CHR 0x0A"

definition next_state :: "nat \<Rightarrow> byte \<Rightarrow> nat" where
  "next_state state b =
     (if state = 0 \<and> b = CR then 1
      else if state = 1 \<and> b = LF then 2
      else if state = 2 \<and> b = CR then 3
      else if b = CR then 1
      else 0)"

text \<open>The loop; \<open>reader\<close> is what the peer still sends before it closes the connection.\<close>

fun read_headers :: "nat \<Rightarrow> bytes \<Rightarrow> bytes \<Rightarrow> (bytes \<times> bytes, relay_error) outcome" where
  "read_headers state handshake reader =
     (if length handshake = MAX_CONNECT_HEADERS then Err Headers_exceed
      else case reader of
        [] \<Rightarrow> Err Read_failed
      | b # reader' \<Rightarrow>
          if state = 3 \<and> b = LF then Ok (handshake @ [b], reader')
          else read_headers (next_state state b) (handshake @ [b]) reader')"

declare read_headers.simps [simp del]

text \<open>\<open>split("\\r\\n").next()\<close>: everything before the first line end.\<close>

definition first_line :: "bytes \<Rightarrow> bytes" where
  "first_line s = (case position_window [CR, LF] s of None \<Rightarrow> s | Some i \<Rightarrow> take i s)"

definition parse_request_line :: "bytes \<Rightarrow> (bytes, relay_error) outcome" where
  "parse_request_line request_line =
     (case split_whitespace [] request_line of
        [] \<Rightarrow> Err Method_missing
      | [_] \<Rightarrow> Err Authority_missing
      | [_, _] \<Rightarrow> Err Version_missing
      | m # authority # version # more \<Rightarrow>
          if m \<noteq> ''CONNECT'' \<or> version \<noteq> ''HTTP/1.1'' \<or> more \<noteq> [] then Err Invalid_request_line
          else Ok authority)"

text \<open>The target and what is left for the tunnel.\<close>

definition read_connect_target :: "bytes \<Rightarrow> (bytes \<times> bytes, relay_error) outcome" where
  "read_connect_target reader =
     obind (read_headers 0 [] reader) (\<lambda>(handshake, reader').
       if from_utf8 handshake \<noteq> Utf8_Ok then Err Not_ascii
       else obind (parse_request_line (first_line handshake)) (\<lambda>authority. Ok (authority, reader')))"

section \<open>The approved targets\<close>

definition region_char :: "byte \<Rightarrow> bool" where
  "region_char b \<longleftrightarrow> (let n = of_char b :: nat in (97 \<le> n \<and> n \<le> 122) \<or> (48 \<le> n \<and> n \<le> 57) \<or> b = CHR ''-'')"

text \<open>\<open>is_ip\<close> tells whether \<open>parse::<IpAddr>()\<close> succeeds.\<close>

definition validate_kms_host :: "(bytes \<Rightarrow> bool) \<Rightarrow> bytes \<Rightarrow> (unit, relay_error) outcome" where
  "validate_kms_host is_ip authority =
     (case rsplit_once (CHR '':'') authority of
        None \<Rightarrow> Err Port_missing
      | Some (host, port) \<Rightarrow>
          if port \<noteq> ''443'' \<or> host = [] \<or> is_ip host then Err Not_approved
          else
            let labels = split_on (\<lambda>c. c = CHR ''.'') host in
            if length labels \<noteq> 4
              \<or> \<not> (labels ! 0 = ''kms'' \<or> labels ! 0 = ''kms-fips'')
              \<or> labels ! 2 \<noteq> ''amazonaws''
              \<or> labels ! 3 \<noteq> ''com''
              \<or> labels ! 1 = []
              \<or> \<not> list_all region_char (labels ! 1)
            then Err Not_approved
            else Ok ())"

section \<open>The relay\<close>

datatype relay_action = Connect bytes nat | Acknowledge bytes | Copy bytes

text \<open>
  A connection of the enclave: the bytes it sends, the results of connecting to a host, of writing the
  answer and of the copying, and the number of actions after which the timer fires, if it does.
\<close>

record relay_conn =
  rc_stream :: bytes
  rc_connect :: "bytes \<Rightarrow> nat \<Rightarrow> bool"
  rc_write :: bool
  rc_copy :: bool
  rc_timer :: "nat option"

definition ESTABLISHED :: bytes where
  "ESTABLISHED = ''HTTP/1.1 200 Connection Established'' @ [CR, LF, CR, LF]"

definition relay_connect_connection ::
  "(bytes \<Rightarrow> bool) \<Rightarrow> relay_conn \<Rightarrow> bytes \<Rightarrow> relay_action list \<times> (unit, relay_error) outcome" where
  "relay_connect_connection is_ip conn fallback_host =
     (case obind (read_connect_target (rc_stream conn)) (\<lambda>(requested_host, rest).
             obind (validate_kms_host is_ip requested_host) (\<lambda>_. Ok (requested_host, rest))) of
        Panic \<Rightarrow> ([], Panic)
      | Err e \<Rightarrow> ([], Err e)
      | Ok (requested_host, rest) \<Rightarrow>
          let target_host = (if requested_host = [] then fallback_host else requested_host) in
          if \<not> rc_connect conn target_host 443 then ([Connect target_host 443], Err Connect_failed)
          else if \<not> rc_write conn then ([Connect target_host 443], Err Acknowledge_failed)
          else ([Connect target_host 443, Acknowledge ESTABLISHED, Copy rest],
                if rc_copy conn then Ok () else Err Copy_failed))"

text \<open>The spawned task, under the timer.\<close>

definition relay_task ::
  "(bytes \<Rightarrow> bool) \<Rightarrow> bytes \<Rightarrow> relay_conn \<Rightarrow> relay_action list \<times> (unit, relay_error) outcome" where
  "relay_task is_ip target_host conn =
     (case rc_timer conn of
        None \<Rightarrow> relay_connect_connection is_ip conn target_host
      | Some n \<Rightarrow> (take n (fst (relay_connect_connection is_ip conn target_host)), Err Handshake_timed_out))"

datatype relay_accept = Accept_error | Accepted "32 word" relay_conn

text \<open>The accept loop: the tasks it spawns, by the peer, and the error that ends it.\<close>

fun relay_loop ::
  "(bytes \<Rightarrow> bool) \<Rightarrow> bytes \<Rightarrow> relay_accept list
     \<Rightarrow> (32 word \<times> relay_action list \<times> (unit, relay_error) outcome) list \<times> relay_error option" where
  "relay_loop is_ip target_host [] = ([], None)"
| "relay_loop is_ip target_host (Accept_error # accepts) = ([], Some Accept_failed)"
| "relay_loop is_ip target_host (Accepted peer_cid conn # accepts) =
     (if peer_cid \<le> 2 \<or> peer_cid = VMADDR_CID_ANY then relay_loop is_ip target_host accepts
      else let (tasks, end) = relay_loop is_ip target_host accepts in
        ((peer_cid, relay_task is_ip target_host conn) # tasks, end))"

definition run_host_vsock_relay ::
  "(bytes \<Rightarrow> bool) \<Rightarrow> bool \<Rightarrow> bytes \<Rightarrow> relay_accept list
     \<Rightarrow> (32 word \<times> relay_action list \<times> (unit, relay_error) outcome) list \<times> relay_error option" where
  "run_host_vsock_relay is_ip bound target_host accepts =
     (if \<not> bound then ([], Some Bind_failed) else relay_loop is_ip target_host accepts)"

text \<open>\<open>bind\<close> gives the result of binding a VSOCK port.\<close>

definition start_host_daemon ::
  "(bytes \<Rightarrow> bool) \<Rightarrow> (nat \<Rightarrow> bool) \<Rightarrow> bytes option \<Rightarrow> relay_accept list
     \<Rightarrow> (32 word \<times> relay_action list \<times> (unit, relay_error) outcome) list \<times> relay_error option" where
  "start_host_daemon is_ip bind aws_region accepts =
     (let region = (case aws_region of Some r \<Rightarrow> r | None \<Rightarrow> ''us-east-1'') in
      run_host_vsock_relay is_ip (bind 8000) (''kms.'' @ region @ ''.amazonaws.com'') accepts)"

section \<open>The end of the headers\<close>

definition BLANK_LINE :: bytes where
  "BLANK_LINE = [CR, LF, CR, LF]"

lemma suffix_snoc_snoc: "suffix (xs @ [x]) (ys @ [y]) \<longleftrightarrow> x = y \<and> suffix xs ys"
  by (auto simp: suffix_def)

lemmas suffix_literal =
  suffix_snoc_snoc [of "[]", simplified] suffix_snoc_snoc [of "[a]" for a, simplified]
  suffix_snoc_snoc [of "[a, b]" for a b, simplified] suffix_snoc_snoc [of "[a, b, c]" for a b c, simplified]

text \<open>The states are the longest matches of the blank line at the end of what was read.\<close>

definition state_matches :: "nat \<Rightarrow> bytes \<Rightarrow> bool" where
  "state_matches state s \<longleftrightarrow>
     state \<le> 3
     \<and> (state = 3 \<longleftrightarrow> suffix [CR, LF, CR] s)
     \<and> (state = 2 \<longleftrightarrow> suffix [CR, LF] s)
     \<and> (state = 1 \<longleftrightarrow> suffix [CR] s \<and> \<not> suffix [CR, LF, CR] s)"

lemma state_matches_Nil: "state_matches 0 []"
  by (simp add: state_matches_def)

lemma state_matches_step:
  assumes "state_matches state s" and "\<not> (state = 3 \<and> b = LF)"
  shows "state_matches (next_state state b) (s @ [b])"
proof -
  have "suffix [CR, LF, CR] s \<Longrightarrow> suffix [CR] s" by (auto simp: suffix_def)
  then show ?thesis using assms by (auto simp: state_matches_def next_state_def suffix_literal)
qed

lemma state_matches_end: "state_matches state s \<Longrightarrow> suffix BLANK_LINE (s @ [b]) \<longleftrightarrow> state = 3 \<and> b = LF"
  by (auto simp: state_matches_def BLANK_LINE_def suffix_literal)

definition headers_result :: "bytes \<Rightarrow> (bytes \<times> bytes, relay_error) outcome" where
  "headers_result s =
     (case position_window BLANK_LINE (take MAX_CONNECT_HEADERS s) of
        Some i \<Rightarrow> Ok (take (i + 4) s, drop (i + 4) s)
      | None \<Rightarrow> Err (if length s < MAX_CONNECT_HEADERS then Read_failed else Headers_exceed))"

lemma read_headers_from:
  assumes "state_matches state hs" and "position_window BLANK_LINE hs = None" and "length hs \<le> MAX_CONNECT_HEADERS"
  shows "read_headers state hs s = headers_result (hs @ s)"
  using assms
proof (induction s arbitrary: state hs)
  case Nil
  then show ?case by (simp add: read_headers.simps [of state hs] headers_result_def)
next
  case (Cons b s)
  show ?case
  proof (cases "length hs = MAX_CONNECT_HEADERS")
    case True
    then show ?thesis using Cons.prems by (simp add: read_headers.simps [of state hs] headers_result_def)
  next
    case False
    then have len: "length (hs @ [b]) \<le> MAX_CONNECT_HEADERS" using Cons.prems(3) by simp
    have ne: "BLANK_LINE \<noteq> []" by (simp add: BLANK_LINE_def)
    show ?thesis
    proof (cases "state = 3 \<and> b = LF")
      case True
      then have suf: "suffix BLANK_LINE (hs @ [b])" using state_matches_end [OF Cons.prems(1)] by simp
      then have "4 \<le> Suc (length hs)" using suffix_length_le by (fastforce simp: BLANK_LINE_def)
      moreover have "take MAX_CONNECT_HEADERS (hs @ b # s) = hs @ b # take (MAX_CONNECT_HEADERS - Suc (length hs)) s"
        using len by (simp add: take_Cons')
      ultimately show ?thesis
        using True False position_window_snoc_Some [OF Cons.prems(2) ne suf]
        by (simp add: read_headers.simps [of _ hs] headers_result_def BLANK_LINE_def)
    next
      case no: False
      then have "position_window BLANK_LINE (hs @ [b]) = None"
        using position_window_snoc_None [OF Cons.prems(2) ne] state_matches_end [OF Cons.prems(1)] by blast
      from Cons.IH [OF state_matches_step [OF Cons.prems(1) no] this len]
      show ?thesis using False no by (auto simp: read_headers.simps [of state hs])
    qed
  qed
qed

lemma connect_headers_end: "read_headers 0 [] s = headers_result s"
proof -
  have "position_window BLANK_LINE [] = None" by (simp add: BLANK_LINE_def)
  from read_headers_from [OF state_matches_Nil this] show ?thesis by simp
qed

text \<open>
  C38: Reading the request ends on every input, and the four-state automaton ends it exactly where a
  search for the first blank line would: behind the first CR LF CR LF if that lies within the first
  4096 bytes, with an error when 4096 bytes came without one, and with a read error when the peer
  closes earlier. Not one byte of the tunnelled data behind the blank line is consumed.
\<close>
theorem connect_headers_end_at_first_blank_line:
  "read_headers 0 [] s =
     (case position_window BLANK_LINE (take MAX_CONNECT_HEADERS s) of
        Some i \<Rightarrow> Ok (take (i + 4) s, drop (i + 4) s)
      | None \<Rightarrow> Err (if length s < MAX_CONNECT_HEADERS then Read_failed else Headers_exceed))"
  by (simp add: connect_headers_end headers_result_def)

section \<open>What the relay reaches\<close>

text \<open>The authorities of the KMS endpoints.\<close>

definition kms_authority :: "bytes \<Rightarrow> bool" where
  "kms_authority a \<longleftrightarrow>
     (\<exists>service region. (service = ''kms'' \<or> service = ''kms-fips'') \<and> region \<noteq> [] \<and> list_all region_char region
        \<and> a = service @ ''.'' @ region @ ''.amazonaws.com:443'')"

text \<open>An IP address is written with hexadecimal digits, dots and colons, so not with a \<open>k\<close>.\<close>

definition ip_syntax :: "(bytes \<Rightarrow> bool) \<Rightarrow> bool" where
  "ip_syntax is_ip \<longleftrightarrow> (\<forall>h. CHR ''k'' \<in> set h \<longrightarrow> \<not> is_ip h)"

lemma region_char_plain: "region_char b \<Longrightarrow> b \<noteq> CHR ''.'' \<and> b \<noteq> CHR '':''"
  by (auto simp: region_char_def Let_def)

lemma validate_kms_host_sound:
  assumes "validate_kms_host is_ip a = Ok u"
  shows "kms_authority a"
proof -
  obtain host port where rs: "rsplit_once (CHR '':'') a = Some (host, port)"
    using assms by (auto simp: validate_kms_host_def split: option.splits)
  let ?ls = "split_on (\<lambda>c. c = CHR ''.'') host"
  have port: "port = ''443''" and len: "length ?ls = 4"
    and l: "let ls = ?ls in
        (ls ! 0 = ''kms'' \<or> ls ! 0 = ''kms-fips'') \<and> ls ! 2 = ''amazonaws'' \<and> ls ! 3 = ''com''
        \<and> ls ! 1 \<noteq> [] \<and> list_all region_char (ls ! 1)"
    using assms by (simp_all add: validate_kms_host_def rs Let_def split: if_splits)
  have a: "a = host @ '':443''" using rsplit_once_parts [OF rs] port by simp
  from len obtain l0 l1 l2 l3 where ls: "split_on (\<lambda>c. c = CHR ''.'') host = [l0, l1, l2, l3]"
    by (auto simp: numeral_eq_Suc length_Suc_conv)
  have host: "host = l0 @ CHR ''.'' # l1 @ CHR ''.'' # l2 @ CHR ''.'' # l3"
    using split_on_join [of host "CHR ''.''"] by (simp add: ls)
  show ?thesis unfolding kms_authority_def
    by (rule exI [of _ l0], rule exI [of _ l1]) (use l ls host a in \<open>auto simp: Let_def\<close>)
qed

lemma validate_kms_host_complete:
  assumes "ip_syntax is_ip" and "kms_authority a"
  shows "validate_kms_host is_ip a = Ok ()"
proof -
  from assms(2) obtain service region where s: "service = ''kms'' \<or> service = ''kms-fips''"
    and r: "region \<noteq> []" "list_all region_char region"
    and a: "a = service @ ''.'' @ region @ ''.amazonaws.com:443''"
    unfolding kms_authority_def by blast
  let ?host = "service @ ''.'' @ region @ ''.amazonaws.com''"
  have "rsplit_once (CHR '':'') (?host @ CHR '':'' # ''443'') = Some (?host, ''443'')"
    by (rule rsplit_once_append) simp
  then have rs: "rsplit_once (CHR '':'') a = Some (?host, ''443'')" by (simp add: a)
  have reg: "\<forall>c \<in> set region. c \<noteq> CHR ''.''" using r(2) region_char_plain by (auto simp: list_all_iff)
  have "split_on (\<lambda>c. c = CHR ''.'') (region @ CHR ''.'' # ''amazonaws.com'') = region # split_on (\<lambda>c. c = CHR ''.'') ''amazonaws.com''"
    by (rule split_on_append) (use reg in auto)
  then have "split_on (\<lambda>c. c = CHR ''.'') ?host = [service, region, ''amazonaws'', ''com'']"
    using s by auto
  moreover have "\<not> is_ip ?host" using assms(1) s by (auto simp: ip_syntax_def)
  ultimately show ?thesis using s r by (auto simp: validate_kms_host_def rs)
qed

section \<open>The outcome of a request\<close>

text \<open>The request an HTTP client sends to open a tunnel, and the data behind it.\<close>

definition request_line :: "bytes \<Rightarrow> bytes" where
  "request_line a = ''CONNECT '' @ a @ '' HTTP/1.1''"

definition connect_request :: "bytes \<Rightarrow> bytes \<Rightarrow> bytes" where
  "connect_request a rest = request_line a @ BLANK_LINE @ rest"

lemma graphic_literal: "list_all graphic ''CONNECT''" "list_all graphic ''HTTP/1.1''" "\<not> graphic CR"
  by code_simp+

lemma parse_request_line_connect:
  assumes "a \<noteq> []" and "list_all graphic a"
  shows "parse_request_line (request_line a) = Ok a"
proof -
  have "split_whitespace [] (''CONNECT'' @ CHR '' '' # a @ CHR '' '' # ''HTTP/1.1'' @ []) = [''CONNECT'', a, ''HTTP/1.1'']"
    by (simp only: split_whitespace_word graphic_literal assms(2) split_whitespace_space split_whitespace_end)
      (simp add: piece_def assms(1))
  then show ?thesis by (simp add: parse_request_line_def request_line_def)
qed

lemma read_connect_target_connect:
  assumes "a \<noteq> []" and "list_all graphic a" and "valid_utf8 a" and "length a \<le> 4075"
  shows "read_connect_target (connect_request a rest) = Ok (a, rest)"
proof -
  let ?l = "request_line a"
  have cr: "CR \<notin> set ?l" using assms(2) graphic_literal(3) by (auto simp: request_line_def list_all_iff)
  have len: "length ?l + 4 \<le> MAX_CONNECT_HEADERS" using assms(4) by (simp add: request_line_def MAX_CONNECT_HEADERS_def)
  have blank: "length BLANK_LINE = 4" by (simp add: BLANK_LINE_def)
  from len have "take MAX_CONNECT_HEADERS (connect_request a rest) = ?l @ BLANK_LINE @ take (MAX_CONNECT_HEADERS - length ?l - 4) rest"
    by (simp add: connect_request_def blank)
  then have "position_window BLANK_LINE (take MAX_CONNECT_HEADERS (connect_request a rest)) = Some (length ?l)"
    using position_window_first [OF cr, of "[LF, CR, LF]"] by (simp add: BLANK_LINE_def)
  then have rh: "read_headers 0 [] (connect_request a rest) = Ok (?l @ BLANK_LINE, rest)"
    by (simp add: connect_headers_end headers_result_def connect_request_def BLANK_LINE_def)
  have "valid_utf8 ''CONNECT ''" "valid_utf8 ('' HTTP/1.1'' @ BLANK_LINE)" by code_simp+
  then have "valid_utf8 (?l @ BLANK_LINE)" using assms(3) by (simp add: request_line_def valid_utf8_append del: append_Cons)
  moreover have "first_line (?l @ BLANK_LINE) = ?l"
    using position_window_first [OF cr, of "[LF]" "[CR, LF]"] by (simp add: first_line_def BLANK_LINE_def)
  ultimately show ?thesis
    by (simp add: read_connect_target_def rh valid_utf8_def parse_request_line_connect [OF assms(1,2)])
qed

lemma validate_kms_host_refuses:
  assumes "\<not> kms_authority a"
  shows "validate_kms_host is_ip a = Err (if CHR '':'' \<in> set a then Not_approved else Port_missing)"
proof -
  have "validate_kms_host is_ip a \<noteq> Ok ()" using validate_kms_host_sound assms by blast
  moreover have "rsplit_once (CHR '':'') a = None \<longleftrightarrow> CHR '':'' \<notin> set a"
    by (rule rsplit_once_None)
  ultimately show ?thesis by (auto simp: validate_kms_host_def Let_def split: option.splits if_splits)
qed

text \<open>
  What a tunnel request to the authority \<open>a\<close> does, for every \<open>a\<close> that fits into the request: if
  \<open>a\<close> is the authority of a KMS endpoint, the relay connects to it on port 443, acknowledges and
  copies exactly the data behind the request; for every other authority it does nothing at all.
\<close>
lemma connect_request_outcome:
  assumes "ip_syntax is_ip" and "a \<noteq> []" and "list_all graphic a" and "valid_utf8 a" and "length a \<le> 4075"
    and "rc_stream conn = connect_request a rest" and "rc_timer conn = None"
    and "rc_write conn" and "rc_copy conn"
  shows "relay_task is_ip fallback conn =
    (if kms_authority a then
       if rc_connect conn a 443 then ([Connect a 443, Acknowledge ESTABLISHED, Copy rest], Ok ())
       else ([Connect a 443], Err Connect_failed)
     else ([], Err (if CHR '':'' \<in> set a then Not_approved else Port_missing)))"
  using assms(2,6-9) read_connect_target_connect [OF assms(2-5), of rest]
    validate_kms_host_complete [OF assms(1), of a] validate_kms_host_refuses [of a is_ip]
  by (simp add: relay_task_def relay_connect_connection_def Let_def)

definition sample_conn :: "bytes \<Rightarrow> relay_conn" where
  "sample_conn a = \<lparr>rc_stream = connect_request a ''tls'', rc_connect = (\<lambda>h p. p = 443), rc_write = True,
     rc_copy = True, rc_timer = None\<rparr>"

lemma sample_kms_authority: "kms_authority ''kms.eu-west-1.amazonaws.com:443''"
  unfolding kms_authority_def
  by (rule exI [of _ "''kms''"], rule exI [of _ "''eu-west-1''"]) code_simp

lemma sample_request:
  "list_all graphic ''kms.eu-west-1.amazonaws.com:443''" "valid_utf8 ''kms.eu-west-1.amazonaws.com:443''"
  by code_simp+

lemma sample_task:
  assumes "rc_stream conn = connect_request ''kms.eu-west-1.amazonaws.com:443'' rest" and "rc_timer conn = None"
    and "\<not> rc_connect conn ''kms.eu-west-1.amazonaws.com:443'' 443"
  shows "relay_task (\<lambda>_. False) target conn = ([Connect ''kms.eu-west-1.amazonaws.com:443'' 443], Err Connect_failed)"
  using assms read_connect_target_connect [OF _ sample_request, of rest]
    validate_kms_host_complete [OF _ sample_kms_authority, of "\<lambda>_. False"]
  by (simp add: relay_task_def relay_connect_connection_def ip_syntax_def)

lemma connect_request_outcome_witness:
  "relay_task (\<lambda>_. False) [] (sample_conn ''kms.eu-west-1.amazonaws.com:443'')
     = ([Connect ''kms.eu-west-1.amazonaws.com:443'' 443, Acknowledge ESTABLISHED, Copy ''tls''], Ok ())"
proof -
  let ?a = "''kms.eu-west-1.amazonaws.com:443''"
  have "relay_task (\<lambda>_. False) [] (sample_conn ?a) =
    (if kms_authority ?a then
       if rc_connect (sample_conn ?a) ?a 443 then ([Connect ?a 443, Acknowledge ESTABLISHED, Copy ''tls''], Ok ())
       else ([Connect ?a 443], Err Connect_failed)
     else ([], Err (if CHR '':'' \<in> set ?a then Not_approved else Port_missing)))"
    by (intro connect_request_outcome sample_request) (simp_all add: ip_syntax_def sample_conn_def)
  then show ?thesis by (simp add: sample_kms_authority) (simp add: sample_conn_def)
qed

text \<open>The actions of a connection, whatever was sent on it.\<close>

lemma relay_connect_actions:
  "fst (relay_connect_connection is_ip conn fallback) = [] \<or>
   (\<exists>a rest. kms_authority a
     \<and> prefix (fst (relay_connect_connection is_ip conn fallback)) [Connect a 443, Acknowledge ESTABLISHED, Copy rest]
     \<and> (Acknowledge ESTABLISHED \<in> set (fst (relay_connect_connection is_ip conn fallback)) \<longrightarrow> rc_connect conn a 443))"
proof (cases "obind (read_connect_target (rc_stream conn)) (\<lambda>(requested_host, rest).
             obind (validate_kms_host is_ip requested_host) (\<lambda>_. Ok (requested_host, rest)))")
  case (Ok r)
  obtain a rest where r: "r = (a, rest)" by (cases r)
  with Ok have "kms_authority a" using validate_kms_host_sound by auto
  moreover have "a \<noteq> []" using calculation by (auto simp: kms_authority_def)
  ultimately show ?thesis using Ok r by (auto simp: relay_connect_connection_def Let_def)
qed (auto simp: relay_connect_connection_def)

lemma relay_task_actions:
  "fst (relay_task is_ip fallback conn) = [] \<or>
   (\<exists>a rest. kms_authority a
     \<and> prefix (fst (relay_task is_ip fallback conn)) [Connect a 443, Acknowledge ESTABLISHED, Copy rest]
     \<and> (Acknowledge ESTABLISHED \<in> set (fst (relay_task is_ip fallback conn)) \<longrightarrow> rc_connect conn a 443))"
proof (cases "rc_timer conn")
  case (Some n)
  have "prefix (take n xs) ys" if "prefix xs ys" for xs ys :: "relay_action list"
    using that take_is_prefix prefix_order.trans by blast
  with Some relay_connect_actions [of is_ip conn fallback] show ?thesis
    by (fastforce simp: relay_task_def dest: in_set_takeD)
qed (use relay_connect_actions [of is_ip conn fallback] in \<open>simp add: relay_task_def\<close>)

lemma relay_loop_tasks:
  "(cid, task) \<in> set (fst (relay_loop is_ip target accepts)) \<Longrightarrow>
   2 < cid \<and> cid \<noteq> VMADDR_CID_ANY \<and> (\<exists>conn. Accepted cid conn \<in> set accepts \<and> task = relay_task is_ip target conn)"
  by (induction is_ip target accepts rule: relay_loop.induct) (auto split: if_splits prod.splits simp: not_le)

lemma run_relay_tasks:
  "(cid, task) \<in> set (fst (run_host_vsock_relay is_ip bound target accepts)) \<Longrightarrow>
   2 < cid \<and> cid \<noteq> VMADDR_CID_ANY \<and> (\<exists>conn. Accepted cid conn \<in> set accepts \<and> task = relay_task is_ip target conn)"
  using relay_loop_tasks by (auto simp: run_host_vsock_relay_def split: if_splits)

text \<open>
  C11: Whatever the peers send and whenever the timers fire, the relay serves only peers with the
  identifier of a guest, and on behalf of each of them it does nothing, or it connects to one
  authority of the form \<open>kms.region.amazonaws.com:443\<close> or \<open>kms-fips.region.amazonaws.com:443\<close>, on port
  443, and acknowledges the request only after it connected and copies only after it acknowledged.
\<close>
theorem relay_reaches_only_kms:
  assumes "(cid, acts, result) \<in> set (fst (run_host_vsock_relay is_ip bound target accepts))"
  shows "2 < cid \<and> cid \<noteq> 0xffffffff
    \<and> (acts = [] \<or> (\<exists>a rest. kms_authority a \<and> prefix acts [Connect a 443, Acknowledge ESTABLISHED, Copy rest]))"
proof -
  from run_relay_tasks [OF assms] obtain conn where "2 < cid" "cid \<noteq> VMADDR_CID_ANY"
    "(acts, result) = relay_task is_ip target conn" by blast
  with relay_task_actions [of is_ip target conn] show ?thesis
    unfolding VMADDR_CID_ANY_def by (metis fst_conv)
qed

text \<open>A peer that asks for the endpoint of a region while no connection can be made.\<close>

definition offline_conn :: relay_conn where
  "offline_conn = (sample_conn ''kms.eu-west-1.amazonaws.com:443'')\<lparr>rc_connect := (\<lambda>h p. CHR '':'' \<notin> set h)\<rparr>"

lemma offline_run:
  "fst (run_host_vsock_relay (\<lambda>_. False) True target [Accepted 2 offline_conn, Accepted 16 offline_conn])
     = [(16, [Connect ''kms.eu-west-1.amazonaws.com:443'' 443], Err Connect_failed)]"
proof -
  have "relay_task (\<lambda>_. False) target offline_conn
      = ([Connect ''kms.eu-west-1.amazonaws.com:443'' 443], Err Connect_failed)"
    by (rule sample_task [of _ "''tls''"]) (simp_all add: offline_conn_def sample_conn_def)
  then show ?thesis by (simp add: run_host_vsock_relay_def VMADDR_CID_ANY_def)
qed

theorem relay_reaches_only_kms_witness:
  "(2::32 word) < 16
    \<and> (\<exists>a rest. kms_authority a \<and> prefix [Connect ''kms.eu-west-1.amazonaws.com:443'' 443]
         [Connect a 443, Acknowledge ESTABLISHED, Copy rest])"
  using relay_reaches_only_kms [of 16 "[Connect ''kms.eu-west-1.amazonaws.com:443'' 443]" "Err Connect_failed"
      "\<lambda>_. False" True target "[Accepted 2 offline_conn, Accepted 16 offline_conn]" for target]
  by (simp add: offline_run)

text \<open>
  \<open>TcpStream::connect((host, port))\<close> looks the host up as it is given; no host name contains a colon.
\<close>

definition resolver_contract :: "(bytes \<Rightarrow> bool) \<Rightarrow> relay_conn \<Rightarrow> bool" where
  "resolver_contract is_ip conn \<longleftrightarrow> (\<forall>h p. CHR '':'' \<in> set h \<and> \<not> is_ip h \<longrightarrow> \<not> rc_connect conn h p)"

text \<open>
  C39: No tunnel is ever established: the host name the relay connects to is the requested authority
  with its port, \<open>kms.region.amazonaws.com:443\<close>, which is no host name and no address, so connecting
  fails for every request that passes the check.
\<close>
theorem tunnel_never_established:
  assumes "ip_syntax is_ip" and "\<forall>cid conn. Accepted cid conn \<in> set accepts \<longrightarrow> resolver_contract is_ip conn"
    and "(cid, acts, result) \<in> set (fst (run_host_vsock_relay is_ip bound target accepts))"
  shows "Acknowledge ESTABLISHED \<notin> set acts \<and> result \<noteq> Ok ()"
proof -
  from run_relay_tasks [OF assms(3)] obtain conn where conn: "Accepted cid conn \<in> set accepts"
    "(acts, result) = relay_task is_ip target conn" by blast
  have no: "\<not> rc_connect conn a 443" if "kms_authority a" for a
  proof -
    have "CHR '':'' \<in> set a" "CHR ''k'' \<in> set a" using that by (auto simp: kms_authority_def)
    then show ?thesis using assms(1,2) conn(1) by (auto simp: ip_syntax_def resolver_contract_def)
  qed
  have "Acknowledge ESTABLISHED \<notin> set acts"
    using relay_task_actions [of is_ip target conn] conn(2) no by (metis empty_iff empty_set fst_conv)
  moreover have "result \<noteq> Ok ()"
  proof
    assume ok: "result = Ok ()"
    then have "relay_connect_connection is_ip conn target = (acts, Ok ())"
      using conn(2) by (auto simp: relay_task_def split: option.splits)
    then have "Acknowledge ESTABLISHED \<in> set acts"
      by (auto simp: relay_connect_connection_def Let_def split: outcome.splits prod.splits if_splits)
    with calculation show False by blast
  qed
  ultimately show ?thesis by blast
qed

theorem tunnel_never_established_witness:
  "Acknowledge ESTABLISHED \<notin> set [Connect ''kms.eu-west-1.amazonaws.com:443'' 443]
    \<and> Err Connect_failed \<noteq> Ok ()"
proof (rule tunnel_never_established)
  show "ip_syntax (\<lambda>_. False)" by (simp add: ip_syntax_def)
  show "\<forall>cid conn. Accepted cid conn \<in> set [Accepted 2 offline_conn, Accepted 16 offline_conn]
      \<longrightarrow> resolver_contract (\<lambda>_. False) conn"
    by (auto simp: resolver_contract_def offline_conn_def)
  show "(16, [Connect ''kms.eu-west-1.amazonaws.com:443'' 443], Err Connect_failed)
      \<in> set (fst (run_host_vsock_relay (\<lambda>_. False) True [] [Accepted 2 offline_conn, Accepted 16 offline_conn]))"
    by (simp add: offline_run)
qed

end
