(* ===== verification/HostBridge.thy ===== *)
theory HostBridge
  imports RustStr "HOL-Library.Word"
begin

text \<open>
  The bridge on the parent host that forwards the clients' TCP connections into the enclave,
  \<open>src/bin/vsock_host_bridge.rs\<close>: its command line, its accept loop and the handling of one
  connection. Socket addresses are opaque and their parser is a parameter; sockets are the
  environment's.
\<close>

section \<open>The command line\<close>

record 'addr BridgeConfig =
  enclave_cid :: "32 word"
  enclave_port :: "32 word"
  listen_addr :: 'addr

datatype bridge_error =
    Missing_value bytes | Bad_enclave_cid | Bad_enclave_port | Bad_listen_address | Unknown_argument bytes
  | Bind_listener_failed | Enclave_connect_failed | Relay_severed

text \<open>The arguments are a configuration, are refused, ask for the help text, or panic.\<close>

datatype 'c parsed = Parsed 'c | Refused bridge_error | Help_shown | Parse_panic

definition parse_u32 :: "bytes \<Rightarrow> 32 word option" where
  "parse_u32 s = map_option of_nat (parse_unsigned (2 ^ 32 - 1) s)"

fun parse_loop ::
  "(bytes \<Rightarrow> 'addr option) \<Rightarrow> 32 word option \<Rightarrow> 32 word option \<Rightarrow> 'addr option \<Rightarrow> bytes list
     \<Rightarrow> 'addr BridgeConfig parsed" where
  "parse_loop parse_addr cid port listen [] =
     (let config = (\<lambda>addr. Parsed \<lparr>enclave_cid = case_option 3 id cid, enclave_port = case_option 3000 id port,
                                  listen_addr = addr\<rparr>) in
      case listen of
        Some addr \<Rightarrow> config addr
      | None \<Rightarrow> (case parse_addr ''0.0.0.0:3000'' of Some addr \<Rightarrow> config addr | None \<Rightarrow> Parse_panic))"
| "parse_loop parse_addr cid port listen (arg # args) =
     (if arg = ''--enclave-cid'' then
        case args of
          [] \<Rightarrow> Refused (Missing_value ''--enclave-cid'')
        | v # args' \<Rightarrow>
            (case parse_u32 v of
               None \<Rightarrow> Refused Bad_enclave_cid
             | Some n \<Rightarrow> parse_loop parse_addr (Some n) port listen args')
      else if arg = ''--enclave-port'' then
        case args of
          [] \<Rightarrow> Refused (Missing_value ''--enclave-port'')
        | v # args' \<Rightarrow>
            (case parse_u32 v of
               None \<Rightarrow> Refused Bad_enclave_port
             | Some n \<Rightarrow> parse_loop parse_addr cid (Some n) listen args')
      else if arg = ''--listen'' then
        case args of
          [] \<Rightarrow> Refused (Missing_value ''--listen'')
        | v # args' \<Rightarrow>
            (case parse_addr v of
               None \<Rightarrow> Refused Bad_listen_address
             | Some a \<Rightarrow> parse_loop parse_addr cid port (Some a) args')
      else if arg = ''--help'' then Help_shown
      else Refused (Unknown_argument arg))"

definition parse_args :: "(bytes \<Rightarrow> 'addr option) \<Rightarrow> bytes list \<Rightarrow> 'addr BridgeConfig parsed" where
  "parse_args parse_addr args = parse_loop parse_addr None None None (drop 1 args)"

section \<open>Connections\<close>

text \<open>An accepted connection with the results of connecting to the enclave and of the copying.\<close>

record bridge_conn =
  bc_connect :: "32 word \<Rightarrow> 32 word \<Rightarrow> bool"
  bc_copy :: bool

definition bridge_connection :: "bridge_conn \<Rightarrow> 'addr BridgeConfig \<Rightarrow> (unit, bridge_error) outcome" where
  "bridge_connection conn config =
     (if \<not> bc_connect conn (enclave_cid config) (enclave_port config) then Err Enclave_connect_failed
      else if \<not> bc_copy conn then Err Relay_severed
      else Ok ())"

text \<open>The tasks spawned by the loop; a failing accept is logged and skipped.\<close>

definition bridge_loop ::
  "'addr BridgeConfig \<Rightarrow> bridge_conn option list \<Rightarrow> (unit, bridge_error) outcome list" where
  "bridge_loop config accepts =
     concat (map (\<lambda>a. case a of Some conn \<Rightarrow> [bridge_connection conn config] | None \<Rightarrow> []) accepts)"

text \<open>The program: \<open>bind\<close> gives the result of binding the listener; the result is the tasks spawned.\<close>

definition bridge_main ::
  "(bytes \<Rightarrow> 'addr option) \<Rightarrow> ('addr \<Rightarrow> bool) \<Rightarrow> bytes list \<Rightarrow> bridge_conn option list
     \<Rightarrow> (unit, bridge_error) outcome list parsed" where
  "bridge_main parse_addr bind args accepts =
     (case parse_args parse_addr args of
        Parsed config \<Rightarrow>
          if bind (listen_addr config) then Parsed (bridge_loop config accepts) else Refused Bind_listener_failed
      | Refused e \<Rightarrow> Refused e
      | Help_shown \<Rightarrow> Help_shown
      | Parse_panic \<Rightarrow> Parse_panic)"

section \<open>Reading back a command line\<close>

datatype 'addr setting = Cid "32 word" | Port "32 word" | Listen 'addr

primrec setting_args :: "('addr \<Rightarrow> bytes) \<Rightarrow> 'addr setting \<Rightarrow> bytes list" where
  "setting_args print_addr (Cid n) = [''--enclave-cid'', decimal (unat n)]"
| "setting_args print_addr (Port n) = [''--enclave-port'', decimal (unat n)]"
| "setting_args print_addr (Listen a) = [''--listen'', print_addr a]"

primrec apply_setting :: "'addr BridgeConfig \<Rightarrow> 'addr setting \<Rightarrow> 'addr BridgeConfig" where
  "apply_setting c (Cid n) = c\<lparr>enclave_cid := n\<rparr>"
| "apply_setting c (Port n) = c\<lparr>enclave_port := n\<rparr>"
| "apply_setting c (Listen a) = c\<lparr>listen_addr := a\<rparr>"

lemma parse_u32_decimal: "parse_u32 (decimal (unat n)) = Some n"
proof -
  have "unat n < 2 ^ 32" using unsigned_less [of n] by simp
  then have "unat n \<le> 2 ^ 32 - 1" by linarith
  then show ?thesis by (simp add: parse_u32_def parse_unsigned_decimal)
qed

text \<open>A number that is read was not wrapped around: its word has the value that was written.\<close>

lemma parse_u32_exact:
  assumes "parse_u32 s = Some n"
  shows "parse_unsigned (2 ^ 32 - 1) s = Some (unat n)"
proof -
  from assms obtain v where v: "parse_unsigned (2 ^ 32 - 1) s = Some v" "n = of_nat v"
    by (auto simp: parse_u32_def)
  have "v < 2 ^ 32" using parse_unsigned_bound [OF v(1)] by simp
  then have "unat n = v" by (simp add: v(2) unsigned_of_nat take_bit_nat_eq_self)
  with v(1) show ?thesis by simp
qed

lemma parse_loop_settings:
  assumes "\<forall>a. parse_addr (print_addr a) = Some a" and "parse_addr ''0.0.0.0:3000'' = Some default_addr"
  shows "parse_loop parse_addr cid port listen (concat (map (setting_args print_addr) settings)) =
    Parsed (foldl apply_setting
      \<lparr>enclave_cid = case_option 3 id cid, enclave_port = case_option 3000 id port,
       listen_addr = case_option default_addr id listen\<rparr> settings)"
proof (induction settings arbitrary: cid port listen)
  case Nil
  then show ?case using assms(2) by (simp add: Let_def split: option.splits)
next
  case (Cons s settings)
  show ?case using Cons [of "Some n" for n] Cons [of _ "Some n" for n] Cons [of _ _ "Some n" for n] assms(1)
    by (cases s) (simp_all add: parse_u32_decimal)
qed

text \<open>
  Every configuration can be given on the command line: options in any order and number are read
  back exactly, a later one overrides an earlier one, and what is not given is the enclave 3, port
  3000 and \<open>0.0.0.0:3000\<close>.
\<close>
lemma command_line_roundtrip:
  assumes "\<forall>a. parse_addr (print_addr a) = Some a" and "parse_addr ''0.0.0.0:3000'' = Some default_addr"
  shows "parse_args parse_addr (program # concat (map (setting_args print_addr) settings)) =
    Parsed (foldl apply_setting \<lparr>enclave_cid = 3, enclave_port = 3000, listen_addr = default_addr\<rparr> settings)"
  using parse_loop_settings [OF assms, of None None None settings] by (simp add: parse_args_def)

lemma command_line_roundtrip_witness:
  "parse_args Some [''bridge'', ''--enclave-cid'', ''42'', ''--enclave-cid'', ''16'']
     = Parsed \<lparr>enclave_cid = 16, enclave_port = 3000, listen_addr = ''0.0.0.0:3000''\<rparr>"
proof -
  have "decimal (unat (42 :: 32 word)) = ''42''" "decimal (unat (16 :: 32 word)) = ''16''"
    by (simp_all add: decimal.simps char_of_def bit_0)
  then show ?thesis
    using command_line_roundtrip [of Some id "''0.0.0.0:3000''" "''bridge''" "[Cid 42, Cid 16]"] by simp
qed

end
