(* ===== verification/Domain.thy ===== *)
theory Domain
  imports Prelude
begin

text \<open>
  The per-choice buffers of \<open>src/domain.rs\<close>: \<open>ChoiceState\<close> holds back text of one choice of a response
  and of its tool calls, \<open>StreamState\<close> the choices by index. The abstract machine is a map from the
  choice and the buffer to the text held back; the operations are shown to implement it.
\<close>

section \<open>The buffers of a choice\<close>

record ChoiceState =
  index :: nat
  content_tail :: bytes
  tool_tails :: "nat \<Rightarrow> bytes option"

definition ChoiceState_new :: "nat \<Rightarrow> ChoiceState" where
  "ChoiceState_new i = \<lparr>index = i, content_tail = [], tool_tails = (\<lambda>_. None)\<rparr>"

definition clear :: "ChoiceState \<Rightarrow> ChoiceState" where
  "clear self = self\<lparr>content_tail := [], tool_tails := (\<lambda>_. None)\<rparr>"

definition append_to_content_tail :: "ChoiceState \<Rightarrow> bytes \<Rightarrow> ChoiceState" where
  "append_to_content_tail self s = self\<lparr>content_tail := content_tail self @ s\<rparr>"

definition take_content_tail :: "ChoiceState \<Rightarrow> ChoiceState \<times> bytes" where
  "take_content_tail self = (self\<lparr>content_tail := []\<rparr>, content_tail self)"

definition append_to_tool_tail :: "ChoiceState \<Rightarrow> nat \<Rightarrow> bytes \<Rightarrow> ChoiceState" where
  "append_to_tool_tail self tool_index s =
     self\<lparr>tool_tails := (tool_tails self)(tool_index \<mapsto> case_option [] id (tool_tails self tool_index) @ s)\<rparr>"

definition take_tool_tail :: "ChoiceState \<Rightarrow> nat \<Rightarrow> ChoiceState \<times> bytes option" where
  "take_tool_tail self tool_index =
     (self\<lparr>tool_tails := (tool_tails self)(tool_index := None)\<rparr>, tool_tails self tool_index)"

section \<open>The choices of a stream\<close>

record StreamState =
  choices :: "ChoiceState list"

definition StreamState_new :: StreamState where
  "StreamState_new = \<lparr>choices = []\<rparr>"

definition USIZE_MAX :: nat where
  "USIZE_MAX = 2 ^ 64 - 1"

text \<open>
  \<open>room\<close> is the number of choices for which the allocator has memory: \<open>Vec::push\<close> panics when the capacity overflows and
  aborts when the allocation fails, so the push that would exceed the room does not return.
\<close>

primrec push_choices :: "nat \<Rightarrow> nat \<Rightarrow> ChoiceState list \<Rightarrow> (ChoiceState list, unit) outcome" where
  "push_choices room 0 cs = Ok cs"
| "push_choices room (Suc n) cs =
     (if length cs < room then push_choices room n (cs @ [ChoiceState_new (length cs)]) else Panic)"

text \<open>
  \<open>ensure_choice\<close> returns a reference into the vector: the new state and the position it refers to.
  For the largest index \<open>index + 1\<close> overflows.
\<close>

definition ensure_choice :: "nat \<Rightarrow> StreamState \<Rightarrow> nat \<Rightarrow> (StreamState \<times> nat, unit) outcome" where
  "ensure_choice room self i =
     (if i \<ge> length (choices self) then
        if i \<ge> USIZE_MAX then Panic
        else let additional = i + 1 - length (choices self) in
          obind (push_choices room additional (choices self)) (\<lambda>cs. Ok (self\<lparr>choices := cs\<rparr>, i))
      else Ok (self, i))"

definition reset :: "StreamState \<Rightarrow> StreamState" where
  "reset self = (let cleared = map clear (choices self) in self\<lparr>choices := drop (length cleared) cleared\<rparr>)"

text \<open>What a client does: an operation on the choice at an index, through \<open>ensure_choice\<close>.\<close>

datatype tail = Content | Tool nat

datatype stream_op = Append nat tail bytes | Take nat tail | Clear nat | Reset

definition on_choice ::
  "nat \<Rightarrow> StreamState \<Rightarrow> nat \<Rightarrow> (ChoiceState \<Rightarrow> ChoiceState \<times> bytes option list)
     \<Rightarrow> (StreamState \<times> bytes option list, unit) outcome" where
  "on_choice room self i f =
     obind (ensure_choice room self i) (\<lambda>(self', k).
     obind (nth_checked (choices self') k) (\<lambda>c.
       let (c', out) = f c in Ok (self'\<lparr>choices := (choices self')[k := c']\<rparr>, out)))"

primrec append_tail :: "tail \<Rightarrow> bytes \<Rightarrow> ChoiceState \<Rightarrow> ChoiceState" where
  "append_tail Content s c = append_to_content_tail c s"
| "append_tail (Tool j) s c = append_to_tool_tail c j s"

primrec take_tail :: "tail \<Rightarrow> ChoiceState \<Rightarrow> ChoiceState \<times> bytes option" where
  "take_tail Content c = (let (c', s) = take_content_tail c in (c', Some s))"
| "take_tail (Tool j) c = take_tool_tail c j"

fun stream_step :: "nat \<Rightarrow> StreamState \<Rightarrow> stream_op \<Rightarrow> (StreamState \<times> bytes option list, unit) outcome" where
  "stream_step room self (Append i t s) = on_choice room self i (\<lambda>c. (append_tail t s c, []))"
| "stream_step room self (Take i t) = on_choice room self i (\<lambda>c. let (c', r) = take_tail t c in (c', [r]))"
| "stream_step room self (Clear i) = on_choice room self i (\<lambda>c. (clear c, []))"
| "stream_step room self Reset = Ok (reset self, [])"

section \<open>The abstract buffers\<close>

primrec empty_tail :: "tail \<Rightarrow> bytes option" where
  "empty_tail Content = Some []"
| "empty_tail (Tool j) = None"

primrec tail_of :: "ChoiceState \<Rightarrow> tail \<Rightarrow> bytes option" where
  "tail_of c Content = Some (content_tail c)"
| "tail_of c (Tool j) = tool_tails c j"

definition view :: "StreamState \<Rightarrow> nat \<Rightarrow> tail \<Rightarrow> bytes option" where
  "view st i = (if i < length (choices st) then tail_of (choices st ! i) else empty_tail)"

fun abstract_step ::
  "(nat \<Rightarrow> tail \<Rightarrow> bytes option) \<Rightarrow> stream_op \<Rightarrow> (nat \<Rightarrow> tail \<Rightarrow> bytes option) \<times> bytes option list" where
  "abstract_step v (Append i t s) = (v(i := (v i)(t := Some (case_option [] id (v i t) @ s))), [])"
| "abstract_step v (Take i t) = (v(i := (v i)(t := empty_tail t)), [v i t])"
| "abstract_step v (Clear i) = (v(i := empty_tail), [])"
| "abstract_step v Reset = ((\<lambda>_. empty_tail), [])"

definition stream_ok :: "nat \<Rightarrow> StreamState \<Rightarrow> bool" where
  "stream_ok room st \<longleftrightarrow> map index (choices st) = [0..<length (choices st)] \<and> length (choices st) \<le> room"

fun op_ok :: "nat \<Rightarrow> stream_op \<Rightarrow> bool" where
  "op_ok room (Append i _ _) \<longleftrightarrow> i < room \<and> i < USIZE_MAX"
| "op_ok room (Take i _) \<longleftrightarrow> i < room \<and> i < USIZE_MAX"
| "op_ok room (Clear i) \<longleftrightarrow> i < room \<and> i < USIZE_MAX"
| "op_ok room Reset \<longleftrightarrow> True"

section \<open>Refinement\<close>

lemma push_choices_eq:
  "length cs \<le> room \<Longrightarrow> push_choices room n cs =
     (if length cs + n \<le> room then Ok (cs @ map ChoiceState_new [length cs..<length cs + n]) else Panic)"
proof (induction n arbitrary: cs)
  case (Suc n)
  have "[length cs..<length cs + Suc n] = length cs # [Suc (length cs)..<Suc (length cs) + n]"
    by (simp add: upt_conv_Cons)
  then show ?case using Suc by (simp only: push_choices.simps) (auto simp del: upt_Suc)
qed simp

lemma tail_of_new [simp]: "tail_of (ChoiceState_new i) = empty_tail"
proof
  fix t show "tail_of (ChoiceState_new i) t = empty_tail t" by (cases t) (simp_all add: ChoiceState_new_def)
qed

lemma ensure_choice_ok:
  assumes "stream_ok room st" and "i < room" and "i < USIZE_MAX"
  shows "\<exists>st'. ensure_choice room st i = Ok (st', i) \<and> stream_ok room st' \<and> view st' = view st \<and> i < length (choices st')"
proof (cases "i < length (choices st)")
  case True
  then show ?thesis using assms by (simp add: ensure_choice_def)
next
  case False
  let ?cs = "choices st @ map ChoiceState_new [length (choices st)..<Suc i]"
  have "map index ?cs = [0..<length ?cs]"
    using assms(1) False upt_add_eq_append [of 0 "length (choices st)" "Suc i - length (choices st)"]
    by (simp add: stream_ok_def comp_def ChoiceState_new_def)
  moreover have "view (st\<lparr>choices := ?cs\<rparr>) = view st"
    by (rule ext) (auto simp: view_def nth_append simp del: upt_Suc)
  moreover have "push_choices room (i + 1 - length (choices st)) (choices st) = Ok ?cs"
    using assms(1,2) False push_choices_eq [of "choices st" room "i + 1 - length (choices st)"] by (simp add: stream_ok_def)
  ultimately show ?thesis using assms False by (simp add: ensure_choice_def stream_ok_def Let_def del: upt_Suc)
qed

lemma ensure_choice_beyond:
  assumes "stream_ok room st" and "room \<le> i"
  shows "ensure_choice room st i = Panic"
  using assms push_choices_eq [of "choices st" room "i + 1 - length (choices st)"]
  by (auto simp: ensure_choice_def stream_ok_def Let_def)

lemma on_choice_ok:
  assumes "stream_ok room st" and "i < room" and "i < USIZE_MAX" and "\<And>c. index (fst (f c)) = index c"
  shows "\<exists>st' c. on_choice room st i f = Ok (st', snd (f c)) \<and> stream_ok room st' \<and> view st i = tail_of c
    \<and> view st' = (view st)(i := tail_of (fst (f c)))"
proof -
  from ensure_choice_ok [OF assms(1-3)] obtain s1 where
    s1: "ensure_choice room st i = Ok (s1, i)" "stream_ok room s1" "view s1 = view st" "i < length (choices s1)" by blast
  let ?c = "choices s1 ! i"
  let ?st' = "s1\<lparr>choices := (choices s1)[i := fst (f ?c)]\<rparr>"
  have "map index (choices ?st') = map index (choices s1)"
    using assms(4) [of ?c] by (simp add: map_update) (metis list_update_id map_update)
  then have "stream_ok room ?st'" using s1(2) by (simp add: stream_ok_def)
  moreover have "view ?st' = (view s1)(i := tail_of (fst (f ?c)))"
    using s1(4) by (intro ext) (auto simp: view_def nth_list_update)
  moreover have "view st i = tail_of ?c" using s1(3,4) by (simp add: view_def flip: s1(3))
  moreover have "on_choice room st i f = Ok (?st', snd (f ?c))"
    using s1(1,4) by (simp add: on_choice_def nth_checked_def case_prod_beta Let_def)
  ultimately show ?thesis using s1(3) by auto
qed

lemma index_ops [simp]: "index (append_tail t s c) = index c" "index (fst (take_tail t c)) = index c" "index (clear c) = index c"
  by (cases t; simp add: append_to_content_tail_def append_to_tool_tail_def take_content_tail_def
      take_tool_tail_def clear_def Let_def)+

lemma tail_of_ops:
  "tail_of (append_tail t s c) = (tail_of c)(t := Some (case_option [] id (tail_of c t) @ s))"
  "tail_of (fst (take_tail t c)) = (tail_of c)(t := empty_tail t)"
  "snd (take_tail t c) = tail_of c t"
  "tail_of (clear c) = empty_tail"
proof -
  show "tail_of (append_tail t s c) = (tail_of c)(t := Some (case_option [] id (tail_of c t) @ s))"
  proof
    fix u show "tail_of (append_tail t s c) u = ((tail_of c)(t := Some (case_option [] id (tail_of c t) @ s))) u"
      by (cases t; cases u) (auto simp: append_to_content_tail_def append_to_tool_tail_def)
  qed
  show "tail_of (fst (take_tail t c)) = (tail_of c)(t := empty_tail t)"
  proof
    fix u show "tail_of (fst (take_tail t c)) u = ((tail_of c)(t := empty_tail t)) u"
      by (cases t; cases u) (auto simp: take_content_tail_def take_tool_tail_def)
  qed
  show "snd (take_tail t c) = tail_of c t"
    by (cases t) (simp_all add: take_content_tail_def take_tool_tail_def)
  show "tail_of (clear c) = empty_tail"
  proof
    fix u show "tail_of (clear c) u = empty_tail u" by (cases u) (simp_all add: clear_def)
  qed
qed

interpretation stream: implements "stream_step room" "stream_ok room" "op_ok room" view abstract_step for room
proof
  fix st oper
  assume ok: "stream_ok room st" "op_ok room oper"
  show "\<exists>st' out. stream_step room st oper = Ok (st', out) \<and> stream_ok room st' \<and> abstract_step (view st) oper = (view st', out)"
  proof (cases oper)
    case (Append i t s)
    then show ?thesis
      using on_choice_ok [OF ok(1), of i "\<lambda>c. (append_tail t s c, [])"] ok(2) by (auto simp: tail_of_ops)
  next
    case (Take i t)
    then show ?thesis
      using on_choice_ok [OF ok(1), of i "\<lambda>c. (fst (take_tail t c), [snd (take_tail t c)])"] ok(2)
      by (auto simp: tail_of_ops case_prod_beta)
  next
    case (Clear i)
    then show ?thesis
      using on_choice_ok [OF ok(1), of i "\<lambda>c. (clear c, [])"] ok(2) by (auto simp: tail_of_ops)
  next
    case Reset
    then show ?thesis by (auto simp: reset_def stream_ok_def view_def Let_def)
  qed
qed
section \<open>Properties\<close>

text \<open>The fragments appended to one buffer since it was last emptied.\<close>

fun touches :: "nat \<Rightarrow> tail \<Rightarrow> stream_op \<Rightarrow> bool" where
  "touches i t (Append _ _ _) \<longleftrightarrow> False"
| "touches i t (Take i' t') \<longleftrightarrow> i' = i \<and> t' = t"
| "touches i t (Clear i') \<longleftrightarrow> i' = i"
| "touches i t Reset \<longleftrightarrow> True"

fun fragment :: "nat \<Rightarrow> tail \<Rightarrow> stream_op \<Rightarrow> bytes list" where
  "fragment i t (Append i' t' s) = (if i' = i \<and> t' = t then [s] else [])"
| "fragment i t _ = []"

definition fragments :: "nat \<Rightarrow> tail \<Rightarrow> stream_op list \<Rightarrow> bytes list" where
  "fragments i t ops = concat (map (fragment i t) ops)"

lemma abstract_fragments:
  "list_all (\<lambda>oper. \<not> touches i t oper) ops \<Longrightarrow>
   fst (run_abstract abstract_step v ops) i t =
     (if fragments i t ops = [] then v i t else Some (case_option [] id (v i t) @ concat (fragments i t ops)))"
proof (induction ops arbitrary: v)
  case (Cons oper ops)
  then show ?case by (cases oper) (auto simp: fragments_def case_prod_beta)
qed (simp add: fragments_def)

lemma stream_new: "stream_ok room StreamState_new" "view StreamState_new = (\<lambda>_. empty_tail)"
  by (auto simp: StreamState_new_def stream_ok_def view_def)



end
