(* ===== verification/TlsListener.thy ===== *)
theory TlsListener
  imports Prelude
begin

text \<open>
  The TLS listener of \<open>src/tls.rs\<close>. The events are the results of \<open>TcpListener::accept\<close> in order; a
  handshake completes, fails, or never ends because the peer neither sends nor closes. \<open>axum::serve\<close>
  calls \<open>accept\<close> again and again.
\<close>

datatype 'io handshake = Completed 'io | Failed | Stalled

text \<open>The inner loop: the first connection that is accepted, \<open>None\<close> while there is none yet.\<close>

fun tcp_accept :: "('stream \<times> 'addr) option list \<Rightarrow> (('stream \<times> 'addr) \<times> ('stream \<times> 'addr) option list) option" where
  "tcp_accept [] = None"
| "tcp_accept (None # events) = tcp_accept events"
| "tcp_accept (Some connection # events) = Some (connection, events)"

lemma tcp_accept_shorter: "tcp_accept events = Some (c, events') \<Longrightarrow> length events' < length events"
  by (induction events rule: tcp_accept.induct) auto

text \<open>The outer loop: \<open>None\<close> when it does not return on these events.\<close>

function accept ::
  "('stream \<Rightarrow> 'io handshake) \<Rightarrow> ('stream \<times> 'addr) option list
     \<Rightarrow> (('io \<times> 'addr) \<times> ('stream \<times> 'addr) option list) option" where
  "accept acceptor events =
     (case tcp_accept events of
        None \<Rightarrow> None
      | Some ((stream, address), events') \<Rightarrow>
          (case acceptor stream of
             Completed tls_stream \<Rightarrow> Some ((tls_stream, address), events')
           | Failed \<Rightarrow> accept acceptor events'
           | Stalled \<Rightarrow> None))"
  by auto
termination
  by (relation "measure (\<lambda>(acceptor, events). length events)") (auto dest: tcp_accept_shorter)

declare accept.simps [simp del]

lemma accept_shorter: "accept acceptor events = Some (c, events') \<Longrightarrow> length events' < length events"
proof (induction acceptor events rule: accept.induct)
  case (1 acceptor events)
  show ?case
  proof (cases "tcp_accept events")
    case (Some r)
    obtain s a es where r: "r = ((s, a), es)" by (metis prod.exhaust)
    then have len: "length es < length events" using Some tcp_accept_shorter by blast
    show ?thesis
    proof (cases "acceptor s")
      case Failed
      then have "length events' < length es" using 1 Some r by (simp add: accept.simps [of acceptor events])
      with len show ?thesis by simp
    qed (use 1 Some r len in \<open>simp_all add: accept.simps [of acceptor events]\<close>)
  qed (use 1 in \<open>simp add: accept.simps [of acceptor events]\<close>)
qed

text \<open>The connections handed to the application.\<close>

function serve :: "('stream \<Rightarrow> 'io handshake) \<Rightarrow> ('stream \<times> 'addr) option list \<Rightarrow> ('io \<times> 'addr) list" where
  "serve acceptor events =
     (case accept acceptor events of
        None \<Rightarrow> []
      | Some (c, events') \<Rightarrow> c # serve acceptor events')"
  by auto
termination
  by (relation "measure (\<lambda>(acceptor, events). length events)") (auto dest: accept_shorter)

declare serve.simps [simp del]

section \<open>Properties\<close>

text \<open>What one event contributes; a stalled handshake ends everything.\<close>

fun served :: "('stream \<Rightarrow> 'io handshake) \<Rightarrow> ('stream \<times> 'addr) option list \<Rightarrow> ('io \<times> 'addr) list" where
  "served acceptor [] = []"
| "served acceptor (None # events) = served acceptor events"
| "served acceptor (Some (s, a) # events) =
     (case acceptor s of
        Completed io \<Rightarrow> (io, a) # served acceptor events
      | Failed \<Rightarrow> served acceptor events
      | Stalled \<Rightarrow> [])"

lemma serve_step:
  "serve acceptor [] = []"
  "serve acceptor (None # events) = serve acceptor events"
  "serve acceptor (Some (s, a) # events) =
     (case acceptor s of
        Completed io \<Rightarrow> (io, a) # serve acceptor events
      | Failed \<Rightarrow> serve acceptor events
      | Stalled \<Rightarrow> [])"
proof -
  have None: "accept acceptor (None # events) = accept acceptor events"
    by (subst (1 2) accept.simps) simp
  then show "serve acceptor (None # events) = serve acceptor events"
    by (subst (1 2) serve.simps) simp
  show "serve acceptor [] = []" by (subst serve.simps, subst accept.simps) simp
  have "accept acceptor (Some (s, a) # events) =
      (case acceptor s of Completed io \<Rightarrow> Some ((io, a), events) | Failed \<Rightarrow> accept acceptor events | Stalled \<Rightarrow> None)"
    by (subst accept.simps) simp
  then show "serve acceptor (Some (s, a) # events) =
     (case acceptor s of Completed io \<Rightarrow> (io, a) # serve acceptor events | Failed \<Rightarrow> serve acceptor events | Stalled \<Rightarrow> [])"
    by (subst serve.simps) (auto simp: serve.simps [of acceptor events] split: handshake.splits)
qed

lemma serve_eq: "serve acceptor events = served acceptor events"
  by (induction acceptor events rule: served.induct) (simp_all add: serve_step split: handshake.splits)

text \<open>The connections whose handshake completes, and the events whose handshake never ends.\<close>

definition good_connections ::
  "('stream \<Rightarrow> 'io handshake) \<Rightarrow> ('stream \<times> 'addr) option list \<Rightarrow> ('io \<times> 'addr) list" where
  "good_connections acceptor events =
     concat (map (\<lambda>e. case e of None \<Rightarrow> [] | Some (s, a) \<Rightarrow> (case acceptor s of Completed io \<Rightarrow> [(io, a)] | _ \<Rightarrow> [])) events)"

definition stalls :: "('stream \<Rightarrow> 'io handshake) \<Rightarrow> ('stream \<times> 'addr) option \<Rightarrow> bool" where
  "stalls acceptor e \<longleftrightarrow> (case e of None \<Rightarrow> False | Some (s, a) \<Rightarrow> (case acceptor s of Stalled \<Rightarrow> True | _ \<Rightarrow> False))"

lemma served_good: "served acceptor events = good_connections acceptor (takeWhile (\<lambda>e. \<not> stalls acceptor e) events)"
  by (induction acceptor events rule: served.induct)
    (auto simp: good_connections_def stalls_def split: handshake.splits)

text \<open>
  C40: The TLS listener serves, in the order of arrival, exactly the connections whose handshake completes, up
  to the first handshake that never ends. So failing accepts and handshakes never stop it; but the
  handshakes run one after the other inside \<open>accept\<close>, without a limit on their time, and a single peer that
  opens a connection and stays silent stops the listener for everyone who arrives later.
\<close>
theorem tls_serves_until_stalled:
  "serve acceptor events = good_connections acceptor (takeWhile (\<lambda>e. \<not> stalls acceptor e) events)"
  by (simp add: serve_eq served_good)

end
