(* ===== verification/Conformance.thy ===== *)
theory Conformance
  imports Redaction Detection BudgetFlow
begin

text \<open>
  The fuzz target (\<open>fuzz/fuzz_targets/fuzz_target_1.rs\<close>), the property tests of \<open>lib.rs\<close> and unit
  tests of \<open>engine.rs\<close> and \<open>budget_queue.rs\<close>, run on the model. A test is a definition that returns \<open>Ok ()\<close> when it passes and
  panics when an assertion fails. The inputs a fuzzer or \<open>proptest\<close> draws are universally quantified.
\<close>

section \<open>Assertions\<close>

definition assert_that :: "bool \<Rightarrow> (unit, unit) outcome" where
  "assert_that b = (if b then Ok () else Panic)"

lemma assert_that_simps [simp]: "assert_that True = Ok ()" "assert_that False = Panic"
  by (simp_all add: assert_that_def)

text \<open>\<open>iter().position(..)\<close>\<close>

primrec position :: "('a \<Rightarrow> bool) \<Rightarrow> 'a list \<Rightarrow> nat option" where
  "position P [] = None"
| "position P (x # xs) = (if P x then Some 0 else map_option Suc (position P xs))"

lemma position_append:
  "position P (xs @ ys) = (case position P xs of Some i \<Rightarrow> Some i | None \<Rightarrow> map_option ((+) (length xs)) (position P ys))"
  by (induction xs; cases "position P ys") (auto split: option.splits)

lemma position_None: "(\<And>x. x \<in> set xs \<Longrightarrow> \<not> P x) \<Longrightarrow> position P xs = None"
  by (induction xs) auto

primrec is_audit :: "StreamEvent \<Rightarrow> bool" where
  "is_audit (Data b) = False" | "is_audit (AuditReceipt b) = True" | "is_audit (DoneMarker b) = False"

primrec is_done :: "StreamEvent \<Rightarrow> bool" where
  "is_done (Data b) = False" | "is_done (AuditReceipt b) = False" | "is_done (DoneMarker b) = True"

text \<open>The rules of a test: a vault with one replacement for all patterns.\<close>

definition test_vault :: "ac_builder \<Rightarrow> (bytes \<Rightarrow> bytes option) \<Rightarrow> bytes list \<Rightarrow> (PiiVault, unit) outcome" where
  "test_vault build to_string patterns =
     PiiVault_new build to_string patterns (map (\<lambda>_. ''[REDACTED]'') patterns)"

text \<open>\<open>DoneDetector::default()\<close>; its request hasher is the one at \<open>addr\<close>.\<close>

definition DoneDetector_default :: "nat \<Rightarrow> DoneDetector" where
  "DoneDetector_default addr = DoneDetector_new [] [] [] addr [] []"

section \<open>The fuzz target\<close>

definition outputs_nonempty :: "OutputSegment list \<Rightarrow> bool" where
  "outputs_nonempty outputs \<longleftrightarrow> list_all (\<lambda>output. segment_bytes output \<noteq> []) outputs"

fun fuzz_pushes :: "StreamRedactor \<Rightarrow> bytes \<Rightarrow> (StreamRedactor, unit) outcome" where
  "fuzz_pushes redactor [] = Ok redactor"
| "fuzz_pushes redactor (byte # data) =
     (case push redactor [byte] of
        (redactor', Ok outputs) \<Rightarrow> obind (assert_that (outputs_nonempty outputs)) (\<lambda>_. fuzz_pushes redactor' data)
      | (redactor', Err _) \<Rightarrow> fuzz_pushes redactor' data
      | (redactor', Panic) \<Rightarrow> Panic)"

definition fuzz_redactor :: "ac_builder \<Rightarrow> (bytes \<Rightarrow> bytes option) \<Rightarrow> bytes \<Rightarrow> (unit, unit) outcome" where
  "fuzz_redactor build to_string data =
     obind (test_vault build to_string [''password'', ''secret'', ''data: [DONE]'']) (\<lambda>vault.
     obind (with_max_capacity vault (64 * 1024)) (\<lambda>redactor.
     obind (fuzz_pushes redactor data) (\<lambda>redactor'.
     case snd (finish redactor') of
       Ok outputs \<Rightarrow> assert_that (outputs_nonempty outputs)
     | Err _ \<Rightarrow> Ok ()
     | Panic \<Rightarrow> Panic)))"

definition check_order :: "StreamEvent list \<Rightarrow> (unit, unit) outcome" where
  "check_order marker_events =
     (let audits = length (filter is_audit marker_events); dones = length (filter is_done marker_events) in
      obind (assert_that (audits \<le> 1)) (\<lambda>_.
      obind (assert_that (dones \<le> 1)) (\<lambda>_.
      if dones = 1
      then obind (assert_that (audits = 1)) (\<lambda>_.
           obind (expect (position is_audit marker_events)) (\<lambda>audit_index.
           obind (expect (position is_done marker_events)) (\<lambda>done_index.
           assert_that (audit_index < done_index))))
      else Ok ())))"

definition fuzz_detector :: "('h, 'k) receipt_env \<Rightarrow> nat \<Rightarrow> bytes \<Rightarrow> (unit, unit) outcome" where
  "fuzz_detector env addr data =
     obind (inspect env (DoneDetector_default addr) data (hasher_new (re_crypto env))) (\<lambda>(d1, h1, events1).
     obind (inspect env d1 SSE_DONE_MARKER h1) (\<lambda>(d2, h2, events2).
     case DoneDetector_finish env d2 h2 of (d3, h3, events3) \<Rightarrow> check_order (events1 @ events2 @ events3)))"

definition fuzz_target ::
  "ac_builder \<Rightarrow> (bytes \<Rightarrow> bytes option) \<Rightarrow> ('h, 'k) receipt_env \<Rightarrow> nat \<Rightarrow> bytes \<Rightarrow> (unit, unit) outcome" where
  "fuzz_target build to_string env addr data =
     obind (fuzz_redactor build to_string data) (\<lambda>_. fuzz_detector env addr data)"

section \<open>The property tests\<close>

text \<open>Inputs that are not UTF-8 and streams that fail are discarded.\<close>

definition arbitrary_fragments_preserve_valid_redacted_data ::
  "ac_builder \<Rightarrow> (bytes \<Rightarrow> bytes option) \<Rightarrow> bytes \<Rightarrow> (unit, unit) outcome" where
  "arbitrary_fragments_preserve_valid_redacted_data build to_string inp =
     (if from_utf8 inp \<noteq> Utf8_Ok then Ok ()
      else obind (test_vault build to_string [''password'', ''secret'']) (\<lambda>vault.
        obind (redact_text inp vault) (\<lambda>expected.
        obind (StreamRedactor_new vault) (\<lambda>redactor.
        case redact_stream redactor (map (\<lambda>byte. [byte]) inp) of
          Ok outs \<Rightarrow> assert_that (concat (map segment_bytes outs) = into_owned expected)
        | Err _ \<Rightarrow> Ok ()
        | Panic \<Rightarrow> Panic))))"

primrec payload_part :: "StreamEvent \<Rightarrow> bytes" where
  "payload_part (Data b) = b" | "payload_part (AuditReceipt b) = []" | "payload_part (DoneMarker b) = []"

primrec rebuilt_part :: "StreamEvent \<Rightarrow> bytes" where
  "rebuilt_part (Data b) = b" | "rebuilt_part (AuditReceipt b) = []" | "rebuilt_part (DoneMarker b) = b"

definition fragmented_done_marker_has_one_ordered_receipt ::
  "('h, 'k) receipt_env \<Rightarrow> nat \<Rightarrow> bytes \<Rightarrow> (unit, unit) outcome" where
  "fragmented_done_marker_has_one_ordered_receipt env addr inp =
     (if position_window SSE_DONE_MARKER inp \<noteq> None then Ok ()
      else obind (run_steps (inspect_step env) (DoneDetector_default addr, hasher_new (re_crypto env))
                    (map (\<lambda>byte. [byte]) (inp @ SSE_DONE_MARKER))) (\<lambda>(_, events).
        let audits = length (filter is_audit events); dones = length (filter is_done events);
            payload = concat (map payload_part events); rebuilt = concat (map rebuilt_part events);
            hash = blake3_hash (re_crypto env) in
        obind (assert_that (audits = 1)) (\<lambda>_.
        obind (assert_that (dones = 1)) (\<lambda>_.
        obind (expect (position is_audit events)) (\<lambda>audit_index.
        obind (expect (position is_done events)) (\<lambda>done_index.
        obind (assert_that (audit_index < done_index)) (\<lambda>_.
        obind (assert_that (suffix SSE_DONE_MARKER rebuilt)) (\<lambda>_.
        obind (assert_that (payload = inp)) (\<lambda>_.
        obind (slice_checked rebuilt 0 (length rebuilt - length SSE_DONE_MARKER)) (\<lambda>front.
        assert_that (hash payload = hash front)))))))))))"

section \<open>The detector's tests pass\<close>

lemma filter_Data [simp]: "filter is_audit (map Data ds) = []" "filter is_done (map Data ds) = []"
  by (induction ds) simp_all

lemma position_Data [simp]: "position is_audit (map Data ds) = None" "position is_done (map Data ds) = None"
  by (rule position_None, auto)+

lemma position_receipt:
  "position is_audit (map Data ds @ AuditReceipt a # DoneMarker m # rest) = Some (length ds)"
  "position is_done (map Data ds @ AuditReceipt a # DoneMarker m # rest) = Some (Suc (length ds))"
  by (simp_all add: position_append)

lemma check_order_receipt: "check_order (map Data ds @ AuditReceipt a # DoneMarker m # map Data ds') = Ok ()"
  by (simp add: check_order_def position_receipt expect_def)

lemma has_marker_marker: "has_marker (s @ SSE_DONE_MARKER)"
  by (rule has_marker_suffix) (simp add: has_marker_iff occurs_at_def exI [of _ 0])

lemma fuzz_detector_eq:
  "fuzz_detector env addr data =
     obind (detect_stream env (DoneDetector_default addr) [data, SSE_DONE_MARKER] (hasher_new (re_crypto env)))
       (\<lambda>(_, _, events). check_order events)"
  by (simp add: fuzz_detector_def detect_stream_def inspect_step_def obind_assoc case_prod_unfold)

lemma fuzz_detector_passes:
  assumes "receipts_ok env addr"
  shows "fuzz_detector env addr data = Ok ()"
proof -
  have "concat [data, SSE_DONE_MARKER] = data @ SSE_DONE_MARKER" by simp
  then obtain self h ds a m ds' where
    "detect_stream env (DoneDetector_default addr) [data, SSE_DONE_MARKER] (hasher_new (re_crypto env))
       = Ok (self, h, map Data ds @ AuditReceipt a # DoneMarker m # map Data ds')"
    using detect_stream_shape [OF assms, of "[]" "[]" "[]" "[]" "[]" "[data, SSE_DONE_MARKER]" "hasher_new (re_crypto env)"]
      has_marker_marker [of data] by (auto simp: DoneDetector_default_def has_marker_iff)
  then show ?thesis by (simp add: fuzz_detector_eq check_order_receipt)
qed

text \<open>The first byte of the marker is nowhere else in it, so behind a text without a marker it occurs only at the end.\<close>

lemma marker_first_byte: "0 < k \<Longrightarrow> k < 12 \<Longrightarrow> SSE_DONE_MARKER ! k \<noteq> SSE_DONE_MARKER ! 0"
  by (auto simp: SSE_DONE_MARKER_def eval_nat_numeral less_Suc_eq)

lemma marker_occurs_last:
  assumes "\<not> has_marker s" and "occurs_at SSE_DONE_MARKER (s @ SSE_DONE_MARKER) p"
  shows "p = length s"
proof (rule ccontr)
  assume "p \<noteq> length s"
  moreover have "p + 12 \<le> length s + 12" using occurs_at_length [OF assms(2)] by simp
  ultimately have p: "p < length s" by simp
  have "length s < p + 12"
    using assms occurs_at_append_left [of p SSE_DONE_MARKER s SSE_DONE_MARKER] by (force simp: has_marker_iff)
  then have k: "0 < length s - p" "length s - p < 12" using p by auto
  have "SSE_DONE_MARKER ! (length s - p) = take 12 (drop p (s @ SSE_DONE_MARKER)) ! (length s - p)"
    using assms(2) by (simp add: occurs_at_def)
  also have "\<dots> = SSE_DONE_MARKER ! 0" using k p by (simp add: nth_append)
  finally show False using marker_first_byte [OF k] by simp
qed

lemma marker_test_passes:
  assumes "receipts_ok env addr"
  shows "fragmented_done_marker_has_one_ordered_receipt env addr inp = Ok ()"
proof (cases "position_window SSE_DONE_MARKER inp")
  case None
  let ?ini = "DoneDetector_default addr" and ?h0 = "hasher_new (re_crypto env)" and ?M = SSE_DONE_MARKER
  let ?cs = "map (\<lambda>byte. [byte]) (inp @ ?M)"
  have cat: "concat ?cs = inp @ ?M" by (induction inp) (simp_all add: SSE_DONE_MARKER_def)
  have nm: "\<not> has_marker inp" using None by (simp add: has_marker_def)
  obtain self h evs where r: "run_steps (inspect_step env) (?ini, ?h0) ?cs = Ok ((self, h), evs)"
    and a: "attested env ?ini ?h0 (safe_chunks [] ?cs) (inp @ ?M) self evs"
    using detect_run [OF assms DoneDetector_default_def, of ?h0 ?cs] has_marker_marker [of inp]
    unfolding cat by auto
  from a obtain ds x m ds' p where evs: "evs = map Data ds @ AuditReceipt x # DoneMarker m # map Data ds'"
    and p: "occurs_at ?M (inp @ ?M) p" and m: "prefix ?M m"
    and c: "concat ds = take p (inp @ ?M)" "m @ concat ds' = drop p (inp @ ?M)"
    unfolding attested_def by blast
  have "p = length inp" using marker_occurs_last [OF nm p] .
  then have ds: "concat ds = inp" and "m @ concat ds' = ?M" using c by simp_all
  then have "m = ?M" "concat ds' = []" using m by (auto simp: prefix_def)
  then have parts: "concat (map payload_part evs) = inp" "concat (map rebuilt_part evs) = inp @ ?M"
    using ds by (simp_all add: evs comp_def)
  show ?thesis
    using None suffixI [of "inp @ ?M" inp ?M] unfolding fragmented_done_marker_has_one_ordered_receipt_def r
    by (simp add: Let_def parts) (simp add: evs position_receipt expect_def slice_checked_def)
qed (simp add: fragmented_done_marker_has_one_ordered_receipt_def)

section \<open>The redactor's tests\<close>

lemma slice_nonempty: "s < e \<Longrightarrow> e \<le> length xs \<Longrightarrow> Prelude.slice xs s e \<noteq> []"
  by (metis length_slice less_imp_le list.size(3) zero_less_diff less_numeral_extra(3))

lemma redact_loop_nonempty:
  "redact_loop reps source safe l ms = Ok segs \<Longrightarrow> [] \<notin> set reps \<Longrightarrow> outputs_nonempty segs"
proof (induction ms arbitrary: l segs)
  case (Cons m ms)
  then have "mpattern m < length reps \<Longrightarrow> reps ! mpattern m \<noteq> []" by (metis nth_mem)
  with Cons show ?case
    by (auto simp: outputs_nonempty_def slice_checked_def nth_checked_def slice_nonempty split: if_splits)
qed (auto simp: outputs_nonempty_def slice_checked_def slice_nonempty split: if_splits)

text \<open>With well-formed rules a call of the redactor never panics, whatever bytes it is given.\<close>

lemma process_source_total:
  assumes ok: "engine_ok (sr_state self)" and ne: "[] \<notin> set (es_replacements (sr_state self))"
    and p: "process_source self source fl = (self', r)"
  shows "sr_state self' = sr_state self \<and> r \<noteq> Panic \<and> (\<forall>segs. r = Ok segs \<longrightarrow> outputs_nonempty segs)"
proof -
  have st: "\<forall>p \<in> set (es_patterns (sr_state self)). valid_utf8 p"
    "es_max_pattern_len (sr_state self) = max_len (es_patterns (sr_state self))"
    using ok by (auto simp: engine_ok_def)
  define dec where "dec = (case from_utf8 source of Utf8_Ok \<Rightarrow> Some (length source)
      | Utf8_Err valid_up_to None \<Rightarrow> Some valid_up_to | Utf8_Err valid_up_to (Some _) \<Rightarrow> None)"
  note p = p [unfolded process_source_def, folded dec_def]
  consider (bad) "dec = None" | (cut) v where "dec = Some v" "fl \<and> v \<noteq> length source \<or> from_utf8 (take v source) \<noteq> Utf8_Ok"
    | (good) v where "dec = Some v" "\<not> (fl \<and> v \<noteq> length source)" "from_utf8 (take v source) = Utf8_Ok"
    by (cases dec) blast+
  then show ?thesis
  proof cases
    case (good v)
    let ?n = "if fl then length (take v source) else length (fst (determine_safe_boundary_state (take v source) (sr_state self)))"
    have "?n \<le> length source"
      using safe_boundary_split(1) [OF st, of "take v source"] good(3) by (auto simp: valid_utf8_def)
    then obtain segs where segs: "redact_source self source ?n = (Ok segs :: (_, StreamRedactionError) outcome)"
      using redact_source_ok [OF ok] by blast
    then have "outputs_nonempty segs" using ne redact_loop_nonempty by (fastforce simp: redact_source_def)
    then show ?thesis using p good segs by (auto simp: Let_def split: if_splits)
  qed (use p in \<open>auto simp: Let_def split: if_splits\<close>)
qed

lemma fuzz_pushes_pass:
  assumes "engine_ok (sr_state redactor)" and "[] \<notin> set (es_replacements (sr_state redactor))"
  shows "\<exists>redactor'. fuzz_pushes redactor data = Ok redactor' \<and> sr_state redactor' = sr_state redactor"
  using assms
proof (induction data arbitrary: redactor)
  case (Cons byte data)
  obtain redactor1 r where p: "push redactor [byte] = (redactor1, r)" by (cases "push redactor [byte]")
  then have "process_source (redactor\<lparr>sr_pending := []\<rparr>) (sr_pending redactor @ [byte]) False = (redactor1, r)"
    by (simp add: push_process)
  from process_source_total [OF _ _ this] Cons.prems have r: "sr_state redactor1 = sr_state redactor"
    "r \<noteq> Panic" "\<And>segs. r = Ok segs \<Longrightarrow> outputs_nonempty segs" by auto
  then show ?case using Cons.IH [of redactor1] Cons.prems p by (cases r) auto
qed simp

text \<open>What the builder makes of the rules of the fuzz target.\<close>

lemma test_vault_ok:
  assumes "builder_ok build" and "build pats \<noteq> None" and "\<forall>p \<in> set pats. valid_utf8 p"
  obtains vault where "test_vault build to_string pats = Ok vault" "engine_ok (pv_engine_state vault)"
    "es_patterns (pv_engine_state vault) = pats" "es_replacements (pv_engine_state vault) = map (\<lambda>_. ''[REDACTED]'') pats"
proof -
  obtain vault where v: "test_vault build to_string pats = Ok vault"
    using assms(2) by (auto simp: test_vault_def PiiVault_new_def EngineState_new_def build_redaction_dfa_eq expect_def)
  from that [OF v] PiiVault_new_ok [OF assms(1) v [unfolded test_vault_def] assms(3)] show ?thesis by blast
qed

lemma new_redactor:
  "StreamRedactor_new vault = Ok \<lparr>sr_state = pv_engine_state vault, sr_pending = [], sr_max_capacity = 64 * 1024\<rparr>"
  by (simp add: StreamRedactor_new_def from_state_def with_state_max_capacity_def DEFAULT_MAX_BUFFER_CAPACITY_def)

lemma fuzz_redactor_passes:
  assumes "builder_ok build" and "build [''password'', ''secret'', ''data: [DONE]''] \<noteq> None"
  shows "fuzz_redactor build to_string data = Ok ()"
proof -
  have utf8: "\<forall>p \<in> set [''password'', ''secret'', ''data: [DONE]'']. valid_utf8 p" by code_simp
  obtain vault where v: "test_vault build to_string [''password'', ''secret'', ''data: [DONE]''] = Ok vault"
    "engine_ok (pv_engine_state vault)" "[] \<notin> set (es_replacements (pv_engine_state vault))"
    by (rule test_vault_ok [OF assms utf8, where to_string = to_string]) auto
  obtain redactor where r: "with_max_capacity vault (64 * 1024) = (Ok redactor :: (_, unit) outcome)"
    "sr_state redactor = pv_engine_state vault" by (auto simp: with_max_capacity_Ok)
  obtain redactor' where f: "fuzz_pushes redactor data = Ok redactor'" "sr_state redactor' = pv_engine_state vault"
    using fuzz_pushes_pass [of redactor data] v r by auto
  have "snd (finish redactor') \<noteq> Panic \<and> (\<forall>segs. snd (finish redactor') = Ok segs \<longrightarrow> outputs_nonempty segs)"
  proof (cases "sr_pending redactor' = []")
    case False
    obtain s q where q: "process_source (redactor'\<lparr>sr_pending := []\<rparr>) (sr_pending redactor') True = (s, q)" by fastforce
    from process_source_total [OF _ _ q] v f have "q \<noteq> Panic \<and> (\<forall>segs. q = Ok segs \<longrightarrow> outputs_nonempty segs)" by simp
    then show ?thesis using False q by (simp add: finish_def)
  qed (simp add: finish_def outputs_nonempty_def)
  then show ?thesis
    using v r f by (auto simp: fuzz_redactor_def split: outcome.splits)
qed

section \<open>Fragments and capitals\<close>

text \<open>The property test on inputs that spell the two words in lower case.\<close>

lemma fragments_test_passes:
  assumes "builder_ok build" and "build [''password'', ''secret''] \<noteq> None"
    and "case_exact [''password'', ''secret''] inp"
  shows "arbitrary_fragments_preserve_valid_redacted_data build to_string inp = Ok ()"
proof (cases "from_utf8 inp = Utf8_Ok")
  case True
  let ?pats = "[''password'', ''secret'']" and ?chunks = "map (\<lambda>byte. [byte]) inp"
  have rules: "\<forall>p \<in> set ?pats. valid_utf8 p" "overlap_free ?pats" "max_len ?pats = 8" by code_simp+
  have ne: "[] \<notin> set ?pats" by simp
  have cat: "concat ?chunks = inp" by (induction inp) simp_all
  obtain vault where v: "test_vault build to_string ?pats = Ok vault" "engine_ok (pv_engine_state vault)"
    "es_patterns (pv_engine_state vault) = ?pats" by (rule test_vault_ok [OF assms(1,2) rules(1), where to_string = to_string]) auto
  note vn = PiiVault_new_ok [OF assms(1) v(1) [unfolded test_vault_def] rules(1)]
  define redactor where "redactor = \<lparr>sr_state = pv_engine_state vault, sr_pending = [], sr_max_capacity = 64 * 1024\<rparr>"
  then have r: "StreamRedactor_new vault = (Ok redactor :: (_, unit) outcome)" "sr_pending redactor = []"
    "sr_state redactor = pv_engine_state vault" "sr_max_capacity redactor = 64 * 1024"
    by (simp_all add: new_redactor)
  obtain segs where s: "redact_stream redactor ?chunks = Ok segs" "rendered segs = redacted (pv_engine_state vault) inp"
    using redact_stream_spec [of redactor ?chunks] assms(3) v r rules True unfolding cat by (auto simp: valid_utf8_def)
  obtain c where "redact_text inp vault = (Ok c :: (cow, unit) outcome)" "into_owned c = redacted (pv_engine_state vault) inp"
    using redact_text_spec [OF v(2) vn(5,6,7)] v(3) ne True by (auto simp: valid_utf8_def)
  then show ?thesis
    using True v(1) r(1) s by (simp add: arbitrary_fragments_preserve_valid_redacted_data_def rendered_def)
qed (simp add: arbitrary_fragments_preserve_valid_redacted_data_def)

text \<open>A larger buffer never changes a stream that succeeds.\<close>

lemma redact_source_cap: "redact_source (self\<lparr>sr_max_capacity := cap\<rparr>) source n = redact_source self source n"
  by (simp add: redact_source_def)

lemma process_source_cap:
  assumes "process_source self source fl = (self', Ok out)" and "sr_max_capacity self \<le> cap"
  shows "process_source (self\<lparr>sr_max_capacity := cap\<rparr>) source fl = (self'\<lparr>sr_max_capacity := cap\<rparr>, Ok out)"
proof -
  define dec where "dec = (case from_utf8 source of Utf8_Ok \<Rightarrow> Some (length source)
      | Utf8_Err valid_up_to None \<Rightarrow> Some valid_up_to | Utf8_Err valid_up_to (Some _) \<Rightarrow> None)"
  show ?thesis
    using assms unfolding process_source_def Let_def dec_def [symmetric] redact_source_cap
    by (cases dec; simp) (auto split: if_splits outcome.splits)
qed

lemma cap_pending: "self\<lparr>sr_max_capacity := cap, sr_pending := p\<rparr> = self\<lparr>sr_pending := p, sr_max_capacity := cap\<rparr>"
  by simp

lemma process_source_keeps_cap: "process_source self source fl = (self', r) \<Longrightarrow> sr_max_capacity self' = sr_max_capacity self"
  unfolding process_source_def Let_def by (auto split: option.splits if_splits outcome.splits)

lemma push_cap:
  assumes "push self c = (self', Ok out)" and "sr_max_capacity self \<le> cap"
  shows "push (self\<lparr>sr_max_capacity := cap\<rparr>) c = (self'\<lparr>sr_max_capacity := cap\<rparr>, Ok out)"
    and "sr_max_capacity self' = sr_max_capacity self"
  using assms process_source_cap [of "self\<lparr>sr_pending := []\<rparr>" "sr_pending self @ c" False self' out cap]
    process_source_keeps_cap [of "self\<lparr>sr_pending := []\<rparr>" "sr_pending self @ c" False self' "Ok out"]
  by (auto simp: push_process cap_pending split: if_splits)

lemma push_all_cap:
  "push_all self cs = (self', Ok out) \<Longrightarrow> sr_max_capacity self \<le> cap \<Longrightarrow>
     push_all (self\<lparr>sr_max_capacity := cap\<rparr>) cs = (self'\<lparr>sr_max_capacity := cap\<rparr>, Ok out) \<and> sr_max_capacity self' \<le> cap"
proof (induction cs arbitrary: self out)
  case (Cons c cs)
  obtain self1 r where p: "push self c = (self1, r)" by fastforce
  with Cons.prems obtain out1 where r: "r = Ok out1" by (cases r) auto
  with Cons.prems p obtain out2 where 2: "push_all self1 cs = (self', Ok out2)" "out = out1 @ out2"
    by (auto split: prod.splits)
  have "sr_max_capacity self1 \<le> cap" using push_cap(2) [OF p [unfolded r] Cons.prems(2)] Cons.prems(2) by simp
  from Cons.IH [OF 2(1) this] push_cap(1) [OF p [unfolded r] Cons.prems(2)] 2 show ?case by simp
qed simp

lemma redact_stream_cap:
  assumes "redact_stream self cs = Ok out" and "sr_max_capacity self \<le> cap"
  shows "redact_stream (self\<lparr>sr_max_capacity := cap\<rparr>) cs = Ok out"
proof -
  obtain self1 r where p: "push_all self cs = (self1, r)" by fastforce
  with assms obtain out1 where r: "r = Ok out1" by (cases r) (auto simp: redact_stream_def)
  with assms p obtain out2 where 2: "snd (finish self1) = Ok out2" "out = out1 @ out2" by (auto simp: redact_stream_def)
  note p1 = push_all_cap [OF p [unfolded r] assms(2)]
  have "snd (finish (self1\<lparr>sr_max_capacity := cap\<rparr>)) = Ok out2"
  proof (cases "sr_pending self1 = []")
    case False
    obtain s q where q: "process_source (self1\<lparr>sr_pending := []\<rparr>) (sr_pending self1) True = (s, q)" by fastforce
    then have "q = Ok out2" using 2 False by (simp add: finish_process)
    then show ?thesis using process_source_cap [of "self1\<lparr>sr_pending := []\<rparr>" "sr_pending self1" True s out2 cap] q p1 False
      by (simp add: finish_process cap_pending)
  qed (use 2 in \<open>simp add: finish_process\<close>)
  then show ?thesis using p1 2 by (simp add: redact_stream_def)
qed

section \<open>The unit tests of the engine\<close>

definition test_basic_redaction :: "ac_builder \<Rightarrow> (bytes \<Rightarrow> bytes option) \<Rightarrow> (unit, unit) outcome" where
  "test_basic_redaction build to_string =
     obind (test_vault build to_string [''password'', ''secret'']) (\<lambda>vault.
     obind (redact_text ''my password is secret'' vault) (\<lambda>c.
     assert_that (into_owned c = ''my [REDACTED] is [REDACTED]'')))"

definition redaction_matches_ascii_case_insensitively ::
  "ac_builder \<Rightarrow> (bytes \<Rightarrow> bytes option) \<Rightarrow> (unit, unit) outcome" where
  "redaction_matches_ascii_case_insensitively build to_string =
     obind (test_vault build to_string [''password'', ''secret'']) (\<lambda>vault.
     obind (redact_text ''My PASSWORD is SECRET'' vault) (\<lambda>c.
     assert_that (into_owned c = ''My [REDACTED] is [REDACTED]'')))"

definition passing_frame_is_sliced_without_copying ::
  "ac_builder \<Rightarrow> (bytes \<Rightarrow> bytes option) \<Rightarrow> (unit, unit) outcome" where
  "passing_frame_is_sliced_without_copying build to_string =
     obind (test_vault build to_string [''password'', ''secret'']) (\<lambda>configured.
     obind (StreamRedactor_new configured) (\<lambda>redactor.
     assert_that (snd (push redactor ''prefix suffix'') = Ok [Input ''prefix suffix''])))"

definition test_boundary_hold_partial_pii :: "ac_builder \<Rightarrow> (bytes \<Rightarrow> bytes option) \<Rightarrow> (unit, unit) outcome" where
  "test_boundary_hold_partial_pii build to_string =
     obind (test_vault build to_string [''xxxxx'', ''pass'']) (\<lambda>configured.
     assert_that (determine_safe_boundary ''my pass'' configured = (''my pass'', [])))"

definition rocket :: bytes where
  "rocket = [CHR 0xF0, CHR 0x9F, CHR 0x9A, CHR 0x80]"

definition test_utf8_char_boundary_panic_trap ::
  "ac_builder \<Rightarrow> (bytes \<Rightarrow> bytes option) \<Rightarrow> (unit, unit) outcome" where
  "test_utf8_char_boundary_panic_trap build to_string =
     obind (test_vault build to_string [rocket @ ''abc'']) (\<lambda>configured.
     assert_that (determine_safe_boundary (''Hello '' @ rocket) configured = (''Hello '', rocket)))"

definition split_utf8_and_pii_are_redacted :: "ac_builder \<Rightarrow> (bytes \<Rightarrow> bytes option) \<Rightarrow> (unit, unit) outcome" where
  "split_utf8_and_pii_are_redacted build to_string =
     obind (test_vault build to_string [''password'', ''email@example.com'']) (\<lambda>configured.
     obind (StreamRedactor_new configured) (\<lambda>redactor.
     case redact_stream redactor [''hello '' @ take 2 rocket, drop 2 rocket @ '' password e'', ''mail@example.com''] of
       Ok outs \<Rightarrow> assert_that (concat (map segment_bytes outs) = ''hello '' @ rocket @ '' [REDACTED] [REDACTED]'')
     | _ \<Rightarrow> Panic))"

definition pending_state_has_a_hard_bound :: "ac_builder \<Rightarrow> (bytes \<Rightarrow> bytes option) \<Rightarrow> (unit, unit) outcome" where
  "pending_state_has_a_hard_bound build to_string =
     obind (test_vault build to_string [''sensitive'']) (\<lambda>configured.
     obind (with_max_capacity configured 8) (\<lambda>redactor.
     assert_that (snd (push redactor ''123456789'') = Err BufferLimitExceeded)))"

definition redacted_stream_has_expected_blake3_receipt ::
  "ac_builder \<Rightarrow> (bytes \<Rightarrow> bytes option) \<Rightarrow> ('h, 'k) crypto \<Rightarrow> (unit, unit) outcome" where
  "redacted_stream_has_expected_blake3_receipt build to_string cr =
     obind (test_vault build to_string [''password'']) (\<lambda>configured.
     obind (StreamRedactor_new configured) (\<lambda>redactor.
     case redact_stream redactor [''password stays private''] of
       Ok outs \<Rightarrow> assert_that (hasher_finalize cr (foldl (\<lambda>hasher out. hasher_update cr hasher (segment_bytes out)) (hasher_new cr) outs)
                    = blake3_hash cr ''[REDACTED] stays private'')
     | _ \<Rightarrow> Panic))"

definition unit_test_rules :: "bytes list list" where
  "unit_test_rules = [[''password'', ''secret''], [''xxxxx'', ''pass''], [rocket @ ''abc''],
     [''password'', ''email@example.com''], [''sensitive''], [''password'']]"

text \<open>The engine of a test, for a builder that keeps its contract.\<close>

definition reference_engine :: "bytes list \<Rightarrow> EngineState" where
  "reference_engine pats =
     (let reps = map (\<lambda>_. ''[REDACTED]'') pats in
      \<lparr>es_ac = the (reference_build pats), es_max_pattern_len = max_len pats, es_patterns = pats,
       es_replacements = reps, es_replacement_strings = reps\<rparr>)"

lemma test_vault_reference:
  assumes "builder_ok build" and "build pats \<noteq> None" and "overlap_free pats"
  obtains vault where "test_vault build to_string pats = Ok vault" "pv_engine_state vault = reference_engine pats"
    "pv_searcher vault = es_ac (reference_engine pats)" "pv_replacement_strings vault = es_replacements (reference_engine pats)"
proof -
  obtain a where a: "build pats = Some a" using assms(2) by blast
  then have "reference_build pats = Some a" using build_eq_reference [OF assms(1) a assms(3)] by simp
  then have "\<exists>vault. test_vault build to_string pats = Ok vault \<and> pv_engine_state vault = reference_engine pats
      \<and> pv_searcher vault = es_ac (reference_engine pats) \<and> pv_replacement_strings vault = es_replacements (reference_engine pats)"
    using a by (simp add: test_vault_def PiiVault_new_def EngineState_new_def build_redaction_dfa_eq expect_def
        reference_engine_def Let_def)
  then show ?thesis using that by blast
qed

lemma boundary_reference:
  assumes "test_vault build to_string pats = Ok vault"
  shows "determine_safe_boundary tx vault = determine_safe_boundary_state tx (reference_engine pats)"
  using assms
  by (auto simp: test_vault_def PiiVault_new_def EngineState_new_def determine_safe_boundary_def
      determine_safe_boundary_state_def reference_engine_def Let_def)

lemma redact_text_reference:
  assumes "pv_searcher vault = es_ac (reference_engine pats)"
    and "pv_replacement_strings vault = es_replacements (reference_engine pats)"
  shows "redact_text tx vault = (redact_text tx (sample_vault\<lparr>pv_searcher := es_ac (reference_engine pats),
     pv_replacement_strings := es_replacements (reference_engine pats)\<rparr>) :: (cow, unit) outcome)"
  using assms by (simp add: redact_text_def)

text \<open>The evaluations: streams in a small buffer, which the buffer of the tests does not change.\<close>

abbreviation small_redactor :: "bytes list \<Rightarrow> StreamRedactor" where
  "small_redactor pats \<equiv> \<lparr>sr_state = reference_engine pats, sr_pending = [], sr_max_capacity = 64\<rparr>"

lemma redact_stream_small:
  assumes "redact_stream (small_redactor pats) cs = Ok out"
  shows "redact_stream \<lparr>sr_state = reference_engine pats, sr_pending = [], sr_max_capacity = 64 * 1024\<rparr> cs = Ok out"
  using redact_stream_cap [OF assms, of "64 * 1024"] by simp

lemma push_small:
  assumes "snd (push (small_redactor pats) c) = Ok out"
  shows "snd (push \<lparr>sr_state = reference_engine pats, sr_pending = [], sr_max_capacity = 64 * 1024\<rparr> c) = Ok out"
proof -
  obtain self' where "push (small_redactor pats) c = (self', Ok out)" using assms by (metis prod.collapse)
  from push_cap(1) [OF this, of "64 * 1024"] show ?thesis by simp
qed

lemma unit_test_rules_overlap_free:
  "overlap_free [''password'', ''secret'']" "overlap_free [''password'', ''email@example.com'']"
  "overlap_free [''sensitive'']" "overlap_free [''password'']"
  by code_simp+

lemma eval_basic:
  "redact_text ''my password is secret'' (sample_vault\<lparr>pv_searcher := es_ac (reference_engine [''password'', ''secret'']),
     pv_replacement_strings := es_replacements (reference_engine [''password'', ''secret''])\<rparr>)
   = (Ok (Owned ''my [REDACTED] is [REDACTED]'') :: (cow, unit) outcome)"
  by code_simp

lemma eval_capitals:
  "redact_text ''My PASSWORD is SECRET'' (sample_vault\<lparr>pv_searcher := es_ac (reference_engine [''password'', ''secret'']),
     pv_replacement_strings := es_replacements (reference_engine [''password'', ''secret''])\<rparr>)
   = (Ok (Owned ''My [REDACTED] is [REDACTED]'') :: (cow, unit) outcome)"
  by code_simp

lemma eval_fragments_text:
  "redact_text ''xxPASSWORD'' (sample_vault\<lparr>pv_searcher := es_ac (reference_engine [''password'', ''secret'']),
     pv_replacement_strings := es_replacements (reference_engine [''password'', ''secret''])\<rparr>)
   = (Ok (Owned ''xx[REDACTED]'') :: (cow, unit) outcome)"
  by code_simp

lemma eval_passing_frame:
  "snd (push (small_redactor [''password'', ''secret'']) ''prefix suffix'') = Ok [Input ''prefix suffix'']"
  by code_simp

lemma eval_fragments_stream:
  "redact_stream (small_redactor [''password'', ''secret'']) (map (\<lambda>byte. [byte]) ''xxPASSWORD'')
     = Ok [Input ''xxPASSWOR'', Input ''D'']"
  by code_simp

lemma eval_boundary:
  "determine_safe_boundary_state ''my pass'' (reference_engine [''xxxxx'', ''pass'']) = (''my pass'', [])"
  by code_simp

lemma eval_rocket:
  "determine_safe_boundary_state (''Hello '' @ rocket) (reference_engine [rocket @ ''abc'']) = (''Hello '', rocket)"
  by code_simp

lemma eval_split_utf8:
  "redact_stream (small_redactor [''password'', ''email@example.com''])
     [''hello '' @ take 2 rocket, drop 2 rocket @ '' password e'', ''mail@example.com'']
     = Ok [Input (''hello '' @ rocket @ '' ''), Replacement ''[REDACTED]'', Input '' '', Replacement ''[REDACTED]'']"
  by code_simp

lemma eval_hard_bound:
  "snd (push \<lparr>sr_state = reference_engine [''sensitive''], sr_pending = [], sr_max_capacity = 8\<rparr> ''123456789'')
     = Err BufferLimitExceeded"
  by code_simp

lemma eval_receipt:
  "redact_stream (small_redactor [''password'']) [''password stays private'']
     = Ok [Replacement ''[REDACTED]'', Input '' stays private'']"
  by code_simp

section \<open>The unit tests of the budgets\<close>

text \<open>
  A channel whose receiver is gone returns the segment in the error, and dropping the error drops the
  segment. The world is what was allocated before.
\<close>

definition dropped_receiver_releases_unsent_permit :: "'s sem_ops \<Rightarrow> 's world \<Rightarrow> (unit, unit) outcome" where
  "dropped_receiver_releases_unsent_permit ops w =
     obind (ByteBudget_new ops w 8) (\<lambda>(w1, budget).
     obind (channel_checked 1) (\<lambda>_.
     case BudgetedSegment_reserve ops w1 budget ''1234'' of
       (w2, Ok segment) \<Rightarrow> assert_that (available ops (drop_segment ops w2 segment) budget = 8)
     | _ \<Rightarrow> Panic))"

definition dropped_body_releases_in_flight_permit :: "'s sem_ops \<Rightarrow> 's world \<Rightarrow> (unit, unit) outcome" where
  "dropped_body_releases_in_flight_permit ops w =
     obind (ByteBudget_new ops w 8) (\<lambda>(w1, budget).
     obind (channel_checked 1) (\<lambda>_.
     case BudgetedSegment_reserve ops w1 budget ''1234'' of
       (w2, Ok segment) \<Rightarrow>
         (case poll_frame ops w2 BudgetedBody_new (Ready (Some segment)) of
            (w3, body, Ready (Some _)) \<Rightarrow>
              obind (assert_that (available ops w3 budget = 4)) (\<lambda>_.
              assert_that (available ops (drop_segment_opt ops w3 (body_in_flight body)) budget = 8))
          | _ \<Rightarrow> Panic)
     | _ \<Rightarrow> Panic))"

definition oversized_reservation_returns_without_waiting ::
  "'s sem_ops \<Rightarrow> 's world \<Rightarrow> (nat \<Rightarrow> nat \<Rightarrow> permit option) \<Rightarrow> (unit, unit) outcome" where
  "oversized_reservation_returns_without_waiting ops w acquired =
     obind (ByteBudget_new ops w 4) (\<lambda>(_, budget). assert_that (ByteBudget_reserve acquired budget 5 = None))"

context semaphore
begin

lemma new_budget:
  obtains w1 budget where "ByteBudget_new ops w cap = (if cap > 0 then Ok (w1, budget) else Panic)"
    "bb_capacity budget = cap" "bb_semaphore budget \<noteq> bb_global_memory budget"
    "sem_available ops (w_sems w1 (bb_semaphore budget)) = cap"
    "sem_available ops (w_sems w1 (bb_global_memory budget)) = DEFAULT_GLOBAL_MEMORY_BUDGET"
  by (rule that [of "fst (alloc_sem ops (fst (alloc_sem ops w DEFAULT_GLOBAL_MEMORY_BUDGET)) cap)"
        "\<lparr>bb_semaphore = Suc (w_next w), bb_global_memory = w_next w, bb_capacity = cap\<rparr>"])
     (simp_all add: ByteBudget_new_def from_global_shared_def alloc_sem_def)

lemma budget_tests:
  "dropped_receiver_releases_unsent_permit ops w = Ok ()"
  "dropped_body_releases_in_flight_permit ops w = Ok ()"
  "oversized_reservation_returns_without_waiting ops w acquired = Ok ()"
proof -
  obtain w1 budget where b: "ByteBudget_new ops w 8 = (Ok (w1, budget) :: (_, unit) outcome)" "bb_capacity budget = 8"
    "bb_semaphore budget \<noteq> bb_global_memory budget" "sem_available ops (w_sems w1 (bb_semaphore budget)) = 8"
    "sem_available ops (w_sems w1 (bb_global_memory budget)) = DEFAULT_GLOBAL_MEMORY_BUDGET"
    by (rule new_budget [where w = w and cap = 8]) (simp add: if_P)
  have "\<exists>w2 s. BudgetedSegment_reserve ops w1 budget ''1234'' = (w2, Ok s)"
    using reserve_succeeds_iff [OF b(3), of w1 "''1234''"] b by (simp add: DEFAULT_GLOBAL_MEMORY_BUDGET_def)
  then obtain w2 s where s: "BudgetedSegment_reserve ops w1 budget ''1234'' = (w2, Ok s)" by blast
  have a: "available ops w2 budget = 4" "available ops (drop_segment ops w2 s) budget = 8"
    using reserve_Ok [OF s] b(3,4) by (auto simp: available_def drop_segment_available seg_held_def dest!: spec [of _ "bb_semaphore budget"])
  show "dropped_receiver_releases_unsent_permit ops w = Ok ()"
    using b(1) s a by (simp add: dropped_receiver_releases_unsent_permit_def channel_checked_def)
  show "dropped_body_releases_in_flight_permit ops w = Ok ()"
    using b(1) s a by (simp add: dropped_body_releases_in_flight_permit_def channel_checked_def poll_frame_def BudgetedBody_new_def)
  obtain w4 b4 where "ByteBudget_new ops w 4 = (Ok (w4, b4) :: (_, unit) outcome)" "bb_capacity b4 = 4"
    by (rule new_budget [where w = w and cap = 4]) (simp add: if_P)
  then show "oversized_reservation_returns_without_waiting ops w acquired = Ok ()"
    by (simp add: oversized_reservation_returns_without_waiting_def ByteBudget_reserve_def)
qed

end

section \<open>Results\<close>

definition unit_tests :: "ac_builder \<Rightarrow> (bytes \<Rightarrow> bytes option) \<Rightarrow> ('h, 'k) crypto \<Rightarrow> (unit, unit) outcome list" where
  "unit_tests build to_string cr =
     [test_basic_redaction build to_string, redaction_matches_ascii_case_insensitively build to_string,
      passing_frame_is_sliced_without_copying build to_string, test_boundary_hold_partial_pii build to_string,
      test_utf8_char_boundary_panic_trap build to_string, split_utf8_and_pii_are_redacted build to_string,
      pending_state_has_a_hard_bound build to_string, redacted_stream_has_expected_blake3_receipt build to_string cr]"

lemma password_tests_pass:
  assumes "builder_ok build" and "build [''password'', ''secret''] \<noteq> None"
  shows "test_basic_redaction build to_string = Ok ()"
    and "redaction_matches_ascii_case_insensitively build to_string = Ok ()"
    and "passing_frame_is_sliced_without_copying build to_string = Ok ()"
    and "arbitrary_fragments_preserve_valid_redacted_data build to_string ''xxPASSWORD'' = Panic"
proof -
  obtain vault where v: "test_vault build to_string [''password'', ''secret''] = Ok vault"
    "pv_engine_state vault = reference_engine [''password'', ''secret'']"
    and "pv_searcher vault = es_ac (reference_engine [''password'', ''secret''])"
    "pv_replacement_strings vault = es_replacements (reference_engine [''password'', ''secret''])"
    by (rule test_vault_reference [OF assms unit_test_rules_overlap_free(1), where to_string = to_string])
  note r = redact_text_reference [OF this(3,4)]
  show "test_basic_redaction build to_string = Ok ()"
    by (simp add: test_basic_redaction_def v(1) r eval_basic)
  show "redaction_matches_ascii_case_insensitively build to_string = Ok ()"
    by (simp add: redaction_matches_ascii_case_insensitively_def v(1) r eval_capitals)
  show "passing_frame_is_sliced_without_copying build to_string = Ok ()"
    using push_small [OF eval_passing_frame]
    by (simp add: passing_frame_is_sliced_without_copying_def v new_redactor)
  have "from_utf8 ''xxPASSWORD'' = Utf8_Ok" by code_simp
  then show "arbitrary_fragments_preserve_valid_redacted_data build to_string ''xxPASSWORD'' = Panic"
    unfolding arbitrary_fragments_preserve_valid_redacted_data_def
    using redact_stream_small [OF eval_fragments_stream]
    by (simp add: v new_redactor r eval_fragments_text)
qed

lemma stream_tests_pass:
  assumes "builder_ok build"
  shows "build [''password'', ''email@example.com''] \<noteq> None \<Longrightarrow> split_utf8_and_pii_are_redacted build to_string = Ok ()"
    and "build [''sensitive''] \<noteq> None \<Longrightarrow> pending_state_has_a_hard_bound build to_string = Ok ()"
    and "build [''password''] \<noteq> None \<Longrightarrow> incremental cr \<Longrightarrow>
      redacted_stream_has_expected_blake3_receipt build to_string cr = Ok ()"
proof -
  note tv = test_vault_reference [OF assms _ _, where to_string = to_string]
  show "split_utf8_and_pii_are_redacted build to_string = Ok ()" if "build [''password'', ''email@example.com''] \<noteq> None"
    by (rule tv [OF that unit_test_rules_overlap_free(2)])
       (use redact_stream_small [OF eval_split_utf8] in \<open>simp add: split_utf8_and_pii_are_redacted_def new_redactor\<close>)
  show "pending_state_has_a_hard_bound build to_string = Ok ()" if "build [''sensitive''] \<noteq> None"
    by (rule tv [OF that unit_test_rules_overlap_free(3)])
       (simp add: pending_state_has_a_hard_bound_def with_max_capacity_def with_state_max_capacity_def eval_hard_bound)
  show "redacted_stream_has_expected_blake3_receipt build to_string cr = Ok ()"
    if "build [''password''] \<noteq> None" "incremental cr"
  proof (rule tv [OF that(1) unit_test_rules_overlap_free(4)])
    fix vault assume v: "test_vault build to_string [''password''] = Ok vault" "pv_engine_state vault = reference_engine [''password'']"
    have "hasher_finalize cr (foldl (hasher_update cr) (hasher_new cr) [''[REDACTED]'', '' stays private''])
        = blake3_hash cr (concat [''[REDACTED]'', '' stays private''])"
      using that(2) unfolding incremental_def by blast
    then show ?thesis using v redact_stream_small [OF eval_receipt]
      by (simp add: redacted_stream_has_expected_blake3_receipt_def new_redactor)
  qed
qed

lemma boundary_tests_pass:
  assumes "\<forall>pats \<in> set [[''xxxxx'', ''pass''], [rocket @ ''abc'']]. build pats \<noteq> None"
  shows "test_boundary_hold_partial_pii build to_string = Ok ()" "test_utf8_char_boundary_panic_trap build to_string = Ok ()"
proof -
  have tv: "\<exists>vault. test_vault build to_string pats = Ok vault" if "build pats \<noteq> None" for pats
    using that by (auto simp: test_vault_def PiiVault_new_def EngineState_new_def build_redaction_dfa_eq expect_def)
  show "test_boundary_hold_partial_pii build to_string = Ok ()"
    using tv [of "[''xxxxx'', ''pass'']"] assms boundary_reference eval_boundary
    by (auto simp: test_boundary_hold_partial_pii_def)
  show "test_utf8_char_boundary_panic_trap build to_string = Ok ()"
    using tv [of "[rocket @ ''abc'']"] assms boundary_reference eval_rocket
    by (auto simp: test_utf8_char_boundary_panic_trap_def)
qed

text \<open>All unit tests of the engine pass, with every automaton builder that keeps its contract and accepts their rules.\<close>

lemma unit_tests_pass:
  assumes "builder_ok build" and rules: "\<forall>pats \<in> set unit_test_rules. build pats \<noteq> None" and "incremental cr"
  shows "unit_tests build to_string cr = replicate 8 (Ok ())"
proof -
  have b: "build [''password'', ''secret''] \<noteq> None" "build [''password'', ''email@example.com''] \<noteq> None"
    "build [''sensitive''] \<noteq> None" "build [''password''] \<noteq> None"
    "\<forall>pats \<in> set [[''xxxxx'', ''pass''], [rocket @ ''abc'']]. build pats \<noteq> None"
    using rules by (simp_all add: unit_test_rules_def)
  show ?thesis
    by (simp add: unit_tests_def password_tests_pass [OF assms(1) b(1)] stream_tests_pass(1) [OF assms(1) b(2)]
        stream_tests_pass(2) [OF assms(1) b(3)] stream_tests_pass(3) [OF assms(1) b(4) assms(3)]
        boundary_tests_pass [OF b(5)] eval_nat_numeral)
qed

text \<open>
  C34: The generated tests. On every input the fuzz target and the property test of the detector pass. The
  property test of the redactor, that bytewise fragments do not change the result, passes on the inputs that
  spell the two words as configured and fails on others, such as a capital word behind two bytes.
\<close>
theorem generated_tests_decided:
  assumes "builder_ok build" and "build [''password'', ''secret'', ''data: [DONE]''] \<noteq> None"
    and "build [''password'', ''secret''] \<noteq> None" and "receipts_ok env addr"
  shows "fuzz_target build to_string env addr data = Ok ()
    \<and> fragmented_done_marker_has_one_ordered_receipt env addr inp = Ok ()
    \<and> (case_exact [''password'', ''secret''] inp \<longrightarrow> arbitrary_fragments_preserve_valid_redacted_data build to_string inp = Ok ())
    \<and> arbitrary_fragments_preserve_valid_redacted_data build to_string ''xxPASSWORD'' = Panic"
  using fuzz_redactor_passes [OF assms(1,2)] fuzz_detector_passes [OF assms(4)] marker_test_passes [OF assms(4)]
    fragments_test_passes [OF assms(1,3)] password_tests_pass(4) [OF assms(1,3)]
  by (simp add: fuzz_target_def)

theorem generated_tests_decided_witness:
  "fuzz_target reference_build Some sample_renv 0 ''my password: '' = Ok ()
    \<and> fragmented_done_marker_has_one_ordered_receipt sample_renv 0 ''data: [DO'' = Ok ()
    \<and> arbitrary_fragments_preserve_valid_redacted_data reference_build Some ''a secret'' = Ok ()"
proof -
  have "overlap_free [''password'', ''secret'']" by (rule unit_test_rules_overlap_free)
  then have "case_exact [''password'', ''secret''] ''a secret''" by (simp add: case_exact_reference) code_simp
  moreover have "reference_build pats \<noteq> None" for pats by (simp add: reference_build_def)
  ultimately show ?thesis
    using generated_tests_decided [OF builder_ok_reference _ _ sample_receipts_ok, of Some 0 "''my password: ''" "''data: [DO''"]
      generated_tests_decided [OF builder_ok_reference _ _ sample_receipts_ok, of Some 0 "''my password: ''" "''a secret''"]
    by blast
qed

end
