(* ===== verification/Watchers.thy ===== *)
theory Watchers
  imports Config
begin

text \<open>
  The threads of the two file watchers of \<open>src/main.rs\<close>: the directory they have watched, the panics
  when the watcher cannot be set up, and the test by which they pick the events that concern their
  file out of all events of the directory. The steps of theory \<open>Config\<close> do the rest. The paths are
  those of \<open>std::path\<close> on Unix; the crate \<open>notify\<close> is a parameter.
\<close>

section \<open>Paths\<close>

text \<open>
  A \<open>Path\<close> is compared, and taken apart, by its components: empty pieces and the pieces \<open>.\<close> are
  skipped, except for a \<open>.\<close> at the very beginning.
\<close>

datatype component = RootDir | CurDir | ParentDir | Normal bytes

definition piece_component :: "bytes \<Rightarrow> component list" where
  "piece_component p =
     (if p = [] \<or> p = ''.'' then [] else if p = ''..'' then [ParentDir] else [Normal p])"

definition components :: "bytes \<Rightarrow> component list" where
  "components s =
     (let ps = split_on (\<lambda>c. c = CHR 0x2F) s in
      (if prefix ''/'' s then [RootDir] else if hd ps = ''.'' then [CurDir] else [])
        @ concat (map piece_component ps))"

definition file_name :: "component list \<Rightarrow> bytes option" where
  "file_name p = (if p = [] then None else case last p of Normal n \<Rightarrow> Some n | _ \<Rightarrow> None)"

definition parent :: "component list \<Rightarrow> component list option" where
  "parent p = (if p = [] \<or> last p = RootDir then None else Some (butlast p))"

definition has_root :: "component list \<Rightarrow> bool" where
  "has_root p \<longleftrightarrow> p \<noteq> [] \<and> hd p = RootDir"

text \<open>\<open>Path::join\<close>: an absolute path replaces the first one; a leading \<open>.\<close> vanishes inside a path.\<close>

definition join :: "component list \<Rightarrow> component list \<Rightarrow> component list" where
  "join p q = (if has_root q then q else if p \<noteq> [] \<and> q \<noteq> [] \<and> hd q = CurDir then p @ tl q else p @ q)"

section \<open>The threads\<close>

text \<open>
  What the channel delivers: an error, or an event with its paths; beside the event, what reading
  the watched file gives at once and after each delay.
\<close>

datatype notify_event = Notify_error | Event "component list list" "bytes option list"

text \<open>The crate: whether a watcher can be created, and whether it can watch a directory.\<close>

record notify =
  nt_recommended_watcher :: bool
  nt_watch :: "component list \<Rightarrow> bool"

definition watch_directory :: "component list \<Rightarrow> component list" where
  "watch_directory path = (case parent path of Some d \<Rightarrow> d | None \<Rightarrow> components ''.'')"

definition should_reload :: "component list \<Rightarrow> component list list \<Rightarrow> bool" where
  "should_reload path paths \<longleftrightarrow>
     list_ex (\<lambda>event_path. event_path = path
        \<or> (case file_name event_path of Some name \<Rightarrow> name = ''..data'' | None \<Rightarrow> False)) paths"

definition file_event_of :: "component list \<Rightarrow> notify_event \<Rightarrow> file_event" where
  "file_event_of path ev =
     (case ev of
        Notify_error \<Rightarrow> Watch_error
      | Event paths reads \<Rightarrow> if should_reload path paths then Changed reads else Other_file)"

definition start_watcher :: "notify \<Rightarrow> component list \<Rightarrow> (unit, unit) outcome" where
  "start_watcher nt path =
     obind (if nt_recommended_watcher nt then Ok () else Panic) (\<lambda>_.
     if nt_watch nt (watch_directory path) then Ok () else Panic)"

definition auth_watcher ::
  "notify \<Rightarrow> (bytes \<Rightarrow> bytes) \<Rightarrow> bytes \<Rightarrow> config_state \<Rightarrow> notify_event list \<Rightarrow> (config_state, unit) outcome" where
  "auth_watcher nt hash path st evs =
     obind (start_watcher nt (components path)) (\<lambda>_.
     Ok (watch_auth_loop hash st (map (file_event_of (components path)) evs)))"

definition pii_watcher ::
  "notify \<Rightarrow> ac_builder \<Rightarrow> (bytes \<Rightarrow> bytes option) \<Rightarrow> bytes \<Rightarrow> config_state \<Rightarrow> notify_event list
     \<Rightarrow> (config_state, unit) outcome" where
  "pii_watcher nt build to_string config_path st evs =
     obind (start_watcher nt (components config_path)) (\<lambda>_.
     watch_pii_loop build to_string st (map (file_event_of (components config_path)) evs))"

section \<open>Facts about paths\<close>

lemma concat_piece_component: "RootDir \<notin> set (concat (map piece_component ps))"
  by (auto simp: piece_component_def split: if_splits)

lemma has_root_components [simp]: "has_root (components s) \<longleftrightarrow> prefix ''/'' s"
proof -
  have "hd (concat (map piece_component ps)) \<noteq> RootDir" if "concat (map piece_component ps) \<noteq> []" for ps
    using hd_in_set [OF that] concat_piece_component [of ps] by metis
  then show ?thesis by (auto simp: has_root_def components_def Let_def hd_append)
qed

lemma file_name_Some: "file_name p = Some n \<longleftrightarrow> p \<noteq> [] \<and> last p = Normal n"
  by (auto simp: file_name_def split: component.splits)

lemma file_name_snoc [simp]: "file_name (p @ [Normal n]) = Some n"
  by (simp add: file_name_Some)

lemma parent_of_file: "file_name p = Some n \<Longrightarrow> parent p = Some (butlast p)"
  by (auto simp: file_name_Some parent_def)

lemma path_of_file: "file_name p = Some n \<Longrightarrow> p = butlast p @ [Normal n]"
  by (metis append_butlast_last_id file_name_Some)

lemma has_root_join: "has_root p \<Longrightarrow> has_root (join p q)"
  by (auto simp: join_def has_root_def)

text \<open>The parent of an absolute file is absolute, so joining it to the working directory gives it back.\<close>

lemma join_absolute_parent:
  assumes "file_name p = Some n" and "has_root p"
  shows "join cwd (butlast p) @ [Normal n] = p"
proof -
  have p: "p = butlast p @ [Normal n]" by (rule path_of_file [OF assms(1)])
  then have "has_root (butlast p)" using assms(2)
    by (cases "butlast p") (auto simp: has_root_def hd_append dest: arg_cong [of _ _ hd])
  then show ?thesis using p by (simp add: join_def)
qed

section \<open>Which changes are seen\<close>

text \<open>
  \<open>notify\<close> reports the entries of the watched directory by absolute paths; a relative directory is
  taken below the working directory.
\<close>

definition reports_in :: "component list \<Rightarrow> notify_event \<Rightarrow> bool" where
  "reports_in dir ev \<longleftrightarrow>
     (case ev of Notify_error \<Rightarrow> True | Event paths reads \<Rightarrow> \<forall>p \<in> set paths. \<exists>n. p = dir @ [Normal n])"

text \<open>The event for a file of that name, had the watcher looked at the names alone.\<close>

definition named_event :: "bytes list \<Rightarrow> notify_event \<Rightarrow> file_event" where
  "named_event names ev =
     (case ev of
        Notify_error \<Rightarrow> Watch_error
      | Event paths reads \<Rightarrow>
          if list_ex (\<lambda>p. last p \<in> Normal ` set names) paths then Changed reads else Other_file)"

lemma should_reload_in_directory:
  assumes "file_name path = Some name" and "has_root cwd"
    and "\<forall>p \<in> set paths. \<exists>n. p = join cwd (watch_directory path) @ [Normal n]"
  shows "should_reload path paths
    \<longleftrightarrow> list_ex (\<lambda>p. last p \<in> Normal ` set (if has_root path then [name, ''..data''] else [''..data''])) paths"
proof -
  let ?dir = "join cwd (watch_directory path)"
  have dir: "?dir = join cwd (butlast path)" by (simp add: watch_directory_def parent_of_file [OF assms(1)])
  have same: "?dir @ [Normal n] = path \<longleftrightarrow> has_root path \<and> n = name" for n
  proof (cases "has_root path")
    case True
    then show ?thesis using join_absolute_parent [OF assms(1) True, of cwd] dir
      by (metis append1_eq_conv component.inject)
  next
    case False
    moreover have "has_root (?dir @ [Normal n])" using has_root_join [OF assms(2)]
      by (auto simp: has_root_def hd_append)
    ultimately show ?thesis by metis
  qed
  show ?thesis unfolding should_reload_def list_ex_iff
  proof (intro bex_cong refl)
    fix p assume "p \<in> set paths"
    then obtain n where "p = ?dir @ [Normal n]" using assms(3) by blast
    then show "(p = path \<or> (case file_name p of Some name \<Rightarrow> name = ''..data'' | None \<Rightarrow> False))
        = (last p \<in> Normal ` set (if has_root path then [name, ''..data''] else [''..data'']))"
      using same [of n] by auto
  qed
qed

lemma file_event_in_directory:
  assumes "file_name path = Some name" and "has_root cwd"
    and "reports_in (join cwd (watch_directory path)) ev"
  shows "file_event_of path ev = named_event (if has_root path then [name, ''..data''] else [''..data'']) ev"
  using assms(3) should_reload_in_directory [OF assms(1,2)]
  by (cases ev) (simp_all add: file_event_of_def named_event_def reports_in_def)

lemma unconcerned_loops:
  assumes "\<forall>ev \<in> set evs. event_contents ev = []"
  shows "watch_auth_loop hash st evs = st" and "watch_pii_loop build to_string st evs = Ok st"
  using assms unfolding watch_auth_loop_def
  by (induction evs) (simp_all add: watch_auth_file_eq watch_pii_config_eq)

lemma unnamed_event:
  "(case ev of Notify_error \<Rightarrow> True | Event paths reads \<Rightarrow> \<forall>p \<in> set paths. last p \<noteq> Normal ''..data'')
     \<Longrightarrow> event_contents (named_event [''..data''] ev) = []"
  by (cases ev) (auto simp: named_event_def event_contents_def list_ex_iff)

text \<open>
  C31: What a watcher sees. \<open>notify\<close> reports the entries of the directory by absolute paths. So a watcher
  whose file is configured by an absolute path reloads it on every event for that name or for the
  \<open>..data\<close> link of a mounted volume, and on no other one; but a watcher whose file is configured by a
  relative path takes no notice of events for the file, and as long as there is no \<open>..data\<close> link, the
  tokens and the rules the proxy started with stay in force, whatever the file holds.
\<close>
theorem reload_needs_absolute_path:
  assumes "file_name (components path) = Some name" and "has_root cwd"
    and "nt_recommended_watcher nt" and "nt_watch nt (watch_directory (components path))"
    and "\<forall>ev \<in> set evs. reports_in (join cwd (watch_directory (components path))) ev"
  shows "auth_watcher nt hash path st evs
      = Ok (watch_auth_loop hash st
          (map (named_event (if prefix ''/'' path then [name, ''..data''] else [''..data''])) evs))
    \<and> pii_watcher nt build to_string path st evs
      = watch_pii_loop build to_string st
          (map (named_event (if prefix ''/'' path then [name, ''..data''] else [''..data''])) evs)
    \<and> (\<not> prefix ''/'' path
         \<and> (\<forall>ev \<in> set evs. case ev of Notify_error \<Rightarrow> True
              | Event paths reads \<Rightarrow> \<forall>p \<in> set paths. last p \<noteq> Normal ''..data'')
       \<longrightarrow> auth_watcher nt hash path st evs = Ok st \<and> pii_watcher nt build to_string path st evs = Ok st)"
proof -
  let ?names = "if prefix ''/'' path then [name, ''..data''] else [''..data'']"
  have seen: "map (file_event_of (components path)) evs = map (named_event ?names) evs"
    using file_event_in_directory [OF assms(1,2)] assms(5) by auto
  have eqs: "auth_watcher nt hash path st evs = Ok (watch_auth_loop hash st (map (named_event ?names) evs))"
    "pii_watcher nt build to_string path st evs = watch_pii_loop build to_string st (map (named_event ?names) evs)"
    using assms(3,4) by (simp_all add: auth_watcher_def pii_watcher_def start_watcher_def seen del: map_eq_conv)
  have "auth_watcher nt hash path st evs = Ok st \<and> pii_watcher nt build to_string path st evs = Ok st"
    if rel: "\<not> prefix ''/'' path" and
      "\<forall>ev \<in> set evs. case ev of Notify_error \<Rightarrow> True
          | Event paths reads \<Rightarrow> \<forall>p \<in> set paths. last p \<noteq> Normal ''..data''"
  proof -
    have "\<forall>ev \<in> set (map (named_event [''..data'']) evs). event_contents ev = []"
      using that(2) unnamed_event by auto
    from unconcerned_loops [OF this] show ?thesis using eqs rel by simp
  qed
  then show ?thesis using eqs by blast
qed

theorem reload_needs_absolute_path_witness:
  "auth_watcher \<lparr>nt_recommended_watcher = True, nt_watch = (\<lambda>_. True)\<rparr> id ''conf/tokens''
      \<lparr>cs_auth_keyring = [''revoked''], cs_tenant_budgets = (\<lambda>_. None), cs_vault = sample_vault,
       cs_engine_state = pv_engine_state sample_vault\<rparr>
      [Event [[RootDir, Normal ''app'', Normal ''conf'', Normal ''tokens'']] [Some ''fresh'']]
    = Ok \<lparr>cs_auth_keyring = [''revoked''], cs_tenant_budgets = (\<lambda>_. None), cs_vault = sample_vault,
       cs_engine_state = pv_engine_state sample_vault\<rparr>"
proof -
  have c: "components ''conf/tokens'' = [Normal ''conf'', Normal ''tokens'']" by code_simp
  have "file_name (components ''conf/tokens'') = Some ''tokens''" "has_root [RootDir, Normal ''app'']"
    by (simp_all add: c file_name_Some has_root_def)
  moreover have "\<forall>ev \<in> set [Event [[RootDir, Normal ''app'', Normal ''conf'', Normal ''tokens'']] [Some ''fresh'']].
      reports_in (join [RootDir, Normal ''app''] (watch_directory (components ''conf/tokens''))) ev"
    by (simp add: c reports_in_def join_def watch_directory_def parent_def has_root_def)
  ultimately show ?thesis
    using reload_needs_absolute_path [of "''conf/tokens''" "''tokens''" "[RootDir, Normal ''app'']"
        "\<lparr>nt_recommended_watcher = True, nt_watch = (\<lambda>_. True)\<rparr>"
        "[Event [[RootDir, Normal ''app'', Normal ''conf'', Normal ''tokens'']] [Some ''fresh'']]" id _ reference_build Some,
        THEN conjunct2, THEN conjunct2, THEN mp, THEN conjunct1]
    by simp
qed

text \<open>An event in the directory of a file with a relative path gives the watcher nothing to read.\<close>

lemma relative_event_contents:
  assumes "file_name (components path) = Some name" and "has_root cwd" and "\<not> prefix ''/'' path"
    and "reports_in (join cwd (watch_directory (components path))) ev"
    and "case ev of Notify_error \<Rightarrow> True | Event paths reads \<Rightarrow> \<forall>p \<in> set paths. last p \<noteq> Normal ''..data''"
  shows "event_contents (file_event_of (components path) ev) = []"
  using file_event_in_directory [OF assms(1,2,4)] unnamed_event [OF assms(5)] assms(3) by simp

section \<open>Rules files without a rule\<close>

lemma parse_blank:
  assumes "\<forall>raw \<in> set (split_on (\<lambda>c. c = CHR 0x0A \<or> c = CHR 0x2C) source). trim raw = []"
  shows "parse_pii_config source = ([], [])"
proof -
  have "concat (map parse_entry (split_on (\<lambda>c. c = CHR 0x0A \<or> c = CHR 0x2C) source)) = []"
    using assms by (auto simp: parse_entry_def Let_def)
  then show ?thesis by (simp only: parse_pii_config_eq Let_def list.map)
qed

lemma no_rules_redacted:
  assumes "engine_ok st" and "es_patterns st = []"
  shows "redacted st h = h"
proof -
  have "searcher [] (ac_find_iter (es_ac st))" using assms by (simp add: engine_ok_def)
  from searcher.fi_Nil [OF this] have "ac_find_iter (es_ac st) h = []" by (simp add: is_match_def)
  then show ?thesis by (simp add: redacted_def)
qed

lemma no_rules_stream:
  assumes "engine_ok st" and "es_patterns st = []" and "from_state st = (Ok r :: (_, unit) outcome)"
    and "valid_utf8 (concat chunks)"
  shows "\<exists>segs. redact_stream r chunks = Ok segs \<and> rendered segs = concat chunks"
proof -
  have r: "sr_state r = st" "sr_pending r = []" "sr_max_capacity r = DEFAULT_MAX_BUFFER_CAPACITY"
    using assms(3) by (auto simp: from_state_def with_state_max_capacity_def split: if_splits)
  have "3 \<le> DEFAULT_MAX_BUFFER_CAPACITY" by (simp add: DEFAULT_MAX_BUFFER_CAPACITY_def)
  moreover have "overlap_free []" by (simp add: overlap_free_def)
  ultimately show ?thesis
    using redact_stream_spec [of r chunks] no_rules_redacted [OF assms(1,2)] assms r
    by (simp add: max_len_def case_exact_def is_match_def)
qed

text \<open>
  C15: A blank rules file turns the redaction off. When the watcher reads a file all of whose entries
  are blank, it swaps in rules that redact nothing: every stream started with them that is valid UTF-8 is forwarded
  unchanged, however it is cut into chunks; the others are still refused as invalid. (A blank token file is
  refused, and so is an empty rule list sent to the admin endpoint.)
\<close>
theorem blank_rules_file_forwards_everything:
  assumes "builder_ok build"
    and "read_with_retries 4 reads = Some contents"
    and "\<forall>raw \<in> set (split_on (\<lambda>c. c = CHR 0x0A \<or> c = CHR 0x2C) contents). trim raw = []"
    and "watch_pii_config build to_string st (Changed reads) = Ok st'"
    and "from_state (cs_engine_state st') = (Ok r :: (_, unit) outcome)"
  shows "es_patterns (cs_engine_state st') = []
    \<and> (if valid_utf8 (concat chunks) then \<exists>segs. redact_stream r chunks = Ok segs \<and> rendered segs = concat chunks
       else redact_stream r chunks = Err InvalidUtf8)"
proof -
  obtain e where e: "EngineState_new build [] [] = (Ok e :: (_, unit) outcome)" "cs_engine_state st' = e"
    using assms(2,4) parse_blank [OF assms(3)] by (auto simp: watch_pii_config_def)
  have ok: "engine_ok e" "es_patterns e = []" by (rule EngineState_new_ok [OF assms(1) e(1)]; simp)+
  have "redact_stream r chunks = Err InvalidUtf8" if "\<not> valid_utf8 (concat chunks)"
    using redact_stream_outcome [OF ok(1) _ assms(5) [unfolded e(2) from_state_def], of chunks] that
    by (simp add: ok(2) DEFAULT_MAX_BUFFER_CAPACITY_def max_len_def)
  then show ?thesis using ok no_rules_stream [of e r chunks] assms(5) e(2) by simp
qed

theorem blank_rules_file_forwards_everything_witness:
  "\<exists>st' r segs. watch_pii_config reference_build Some
      \<lparr>cs_auth_keyring = [], cs_tenant_budgets = (\<lambda>_. None), cs_vault = sample_vault,
       cs_engine_state = pv_engine_state sample_vault\<rparr> (Changed [None, Some '' , '']) = Ok st'
    \<and> from_state (cs_engine_state st') = (Ok r :: (_, unit) outcome)
    \<and> redact_stream r [''my pass'', ''word''] = Ok segs \<and> rendered segs = ''my password''"
proof -
  let ?st = "\<lparr>cs_auth_keyring = [], cs_tenant_budgets = (\<lambda>_. None), cs_vault = sample_vault,
       cs_engine_state = pv_engine_state sample_vault\<rparr>"
  have read: "read_with_retries 4 [None, Some '' , ''] = Some '' , ''" by code_simp
  have pieces: "split_on (\<lambda>c. c = CHR 0x0A \<or> c = CHR 0x2C) '' , '' = ['' '', '' '']" by code_simp
  have "trim '' '' = []" by code_simp
  with pieces have blank: "\<forall>raw \<in> set (split_on (\<lambda>c. c = CHR 0x0A \<or> c = CHR 0x2C) '' , ''). trim raw = []"
    by simp
  obtain st' where st': "watch_pii_config reference_build Some ?st (Changed [None, Some '' , '']) = Ok st'"
    by (simp add: watch_pii_config_def read parse_blank [OF blank] PiiVault_new_def EngineState_new_def
        build_redaction_dfa_eq reference_build_def expect_def)
  obtain r where r: "from_state (cs_engine_state st') = (Ok r :: (_, unit) outcome)"
    by (simp add: from_state_def with_state_max_capacity_def DEFAULT_MAX_BUFFER_CAPACITY_def)
  have "valid_utf8 (concat [''my pass'', ''word''])" by code_simp
  with blank_rules_file_forwards_everything [OF builder_ok_reference read blank st' r, of "[''my pass'', ''word'']"]
  show ?thesis using st' r by auto
qed

end
