(* ===== verification/StreamLimit.thy ===== *)
theory StreamLimit
  imports BudgetFlow StreamTask Admission
begin

text \<open>
  The process-wide limits of \<open>src/lib.rs\<close>: the semaphore \<open>UPSTREAM_STREAM_LIMIT\<close>, one permit of which
  a request holds from its admission to the end of its stream task, the counter
  \<open>ACTIVE_SSE_STREAMS\<close>, which is raised by the handler and lowered by the guard of the task, and the
  gauge that publishes it (the source sets two gauges to the same values; they are one here). All
  requests run concurrently, so the state has the place every request has reached, and a step of the
  relation is what one of them does between two points where others may run.
\<close>

section \<open>The requests\<close>

definition MAX_ACTIVE_UPSTREAM_STREAMS :: nat where
  "MAX_ACTIVE_UPSTREAM_STREAMS = 1000"

text \<open>
  Where a request is: waiting for a stream permit; waiting for its memory permit; waiting for the
  upstream; in \<open>increment_active_sse_streams\<close>, behind the addition and with the loaded value; its
  task spawned; its task running; the task ended and its permits returned, the guard not yet
  dropped; in \<open>decrement_active_sse_streams\<close> with the value to publish; gone; its task dropped
  by the runtime before it was ever polled.
\<close>

datatype phase =
    Awaiting_stream
  | Awaiting_memory
  | Awaiting_upstream
  | Raised
  | Publishing_raised "64 word"
  | Spawned bool
  | Running bool
  | Ended bool
  | Publishing_lowered "64 word"
  | Gone
  | Lost bool

record 's limiter =
  lm_limit :: 's
  lm_active :: "64 word"
  lm_gauge :: "64 word"
  lm_runtime :: bool
  lm_requests :: "phase list"

definition active_sse_streams :: "'s limiter \<Rightarrow> 64 word" where
  "active_sse_streams lm = lm_active lm"

definition limiter_start :: "'s sem_ops \<Rightarrow> 's limiter" where
  "limiter_start ops =
     \<lparr>lm_limit = sem_new ops MAX_ACTIVE_UPSTREAM_STREAMS, lm_active = 0, lm_gauge = 0, lm_runtime = True,
      lm_requests = []\<rparr>"

definition goes :: "'s limiter \<Rightarrow> nat \<Rightarrow> phase \<Rightarrow> 's limiter" where
  "goes lm i ph = lm\<lparr>lm_requests := (lm_requests lm)[i := ph]\<rparr>"

text \<open>The permit is dropped with the handler's future, or with the task it was moved into.\<close>

definition release_stream :: "'s sem_ops \<Rightarrow> 's limiter \<Rightarrow> 's limiter" where
  "release_stream ops lm = lm\<lparr>lm_limit := sem_add_permits ops (lm_limit lm) 1\<rparr>"

text \<open>
  What the handler does with the upstream's answer: an event stream is counted, every stream gets a
  task, and any other answer is given at once, which drops the permit.
\<close>

definition upstream_answers :: "'s sem_ops \<Rightarrow> http_lib \<Rightarrow> send_result \<Rightarrow> 's limiter \<Rightarrow> nat \<Rightarrow> 's limiter" where
  "upstream_answers ops lib r lm i =
     (case r of
        Send_ok up \<Rightarrow>
          if \<not> is_success (up_status up) then goes (release_stream ops lm) i Gone
          else if is_event_stream lib (up_headers up)
          then goes (lm\<lparr>lm_active := increment_active_sse_streams (lm_active lm)\<rparr>) i Raised
          else goes lm i (Spawned False)
      | _ \<Rightarrow> goes (release_stream ops lm) i Gone)"

text \<open>\<open>ActiveStreamGuard::drop\<close>, up to the value that is left to publish.\<close>

definition guard_drop :: "bool \<Rightarrow> 's limiter \<Rightarrow> nat \<Rightarrow> 's limiter" where
  "guard_drop active_sse lm i =
     (if active_sse
      then let current = decrement_active_sse_streams (lm_active lm) in
        goes (lm\<lparr>lm_active := current\<rparr>) i (Publishing_lowered current)
      else goes lm i Gone)"

text \<open>
  The steps. A client that disconnects, or a panic, drops the handler's future where it waits. Once
  the runtime is dropped nothing new starts; tasks that never ran have no guard yet.
\<close>

inductive lm_step :: "'s sem_ops \<Rightarrow> http_lib \<Rightarrow> 's limiter \<Rightarrow> 's limiter \<Rightarrow> bool" for ops lib where
  arrives:
    "lm_runtime lm \<Longrightarrow> lm_step ops lib lm (lm\<lparr>lm_requests := lm_requests lm @ [Awaiting_stream]\<rparr>)"
| admitted:
    "\<lbrakk> lm_runtime lm; i < length (lm_requests lm); lm_requests lm ! i = Awaiting_stream;
       sem_try_acquire_many ops (lm_limit lm) 1 = Some s \<rbrakk>
     \<Longrightarrow> lm_step ops lib lm (goes (lm\<lparr>lm_limit := s\<rparr>) i Awaiting_memory)"
| memory_granted:
    "\<lbrakk> lm_runtime lm; i < length (lm_requests lm); lm_requests lm ! i = Awaiting_memory \<rbrakk>
     \<Longrightarrow> lm_step ops lib lm (goes lm i Awaiting_upstream)"
| memory_refused:
    "\<lbrakk> lm_runtime lm; i < length (lm_requests lm); lm_requests lm ! i = Awaiting_memory \<rbrakk>
     \<Longrightarrow> lm_step ops lib lm (goes (release_stream ops lm) i Gone)"
| answered:
    "\<lbrakk> lm_runtime lm; i < length (lm_requests lm); lm_requests lm ! i = Awaiting_upstream \<rbrakk>
     \<Longrightarrow> lm_step ops lib lm (upstream_answers ops lib r lm i)"
| raise_loaded:
    "\<lbrakk> i < length (lm_requests lm); lm_requests lm ! i = Raised \<rbrakk>
     \<Longrightarrow> lm_step ops lib lm (goes lm i (Publishing_raised (active_sse_streams lm)))"
| raise_published:
    "\<lbrakk> i < length (lm_requests lm); lm_requests lm ! i = Publishing_raised n \<rbrakk>
     \<Longrightarrow> lm_step ops lib lm (goes (lm\<lparr>lm_gauge := n\<rparr>) i (Spawned True))"
| polled:
    "\<lbrakk> lm_runtime lm; i < length (lm_requests lm); lm_requests lm ! i = Spawned is_sse \<rbrakk>
     \<Longrightarrow> lm_step ops lib lm (goes lm i (Running is_sse))"
| task_ended:
    "\<lbrakk> i < length (lm_requests lm); lm_requests lm ! i = Running is_sse \<rbrakk>
     \<Longrightarrow> lm_step ops lib lm (goes (release_stream ops lm) i (Ended is_sse))"
| guard_dropped:
    "\<lbrakk> i < length (lm_requests lm); lm_requests lm ! i = Ended is_sse \<rbrakk>
     \<Longrightarrow> lm_step ops lib lm (guard_drop is_sse lm i)"
| lower_published:
    "\<lbrakk> i < length (lm_requests lm); lm_requests lm ! i = Publishing_lowered n \<rbrakk>
     \<Longrightarrow> lm_step ops lib lm (goes (lm\<lparr>lm_gauge := n\<rparr>) i Gone)"
| cancelled_waiting:
    "\<lbrakk> i < length (lm_requests lm); lm_requests lm ! i = Awaiting_stream \<rbrakk>
     \<Longrightarrow> lm_step ops lib lm (goes lm i Gone)"
| cancelled_admitted:
    "\<lbrakk> i < length (lm_requests lm); lm_requests lm ! i \<in> {Awaiting_memory, Awaiting_upstream} \<rbrakk>
     \<Longrightarrow> lm_step ops lib lm (goes (release_stream ops lm) i Gone)"
| runtime_dropped:
    "lm_step ops lib lm (lm\<lparr>lm_runtime := False\<rparr>)"
| never_polled:
    "\<lbrakk> \<not> lm_runtime lm; i < length (lm_requests lm); lm_requests lm ! i = Spawned is_sse \<rbrakk>
     \<Longrightarrow> lm_step ops lib lm (goes (release_stream ops lm) i (Lost is_sse))"

inductive lm_reachable :: "'s sem_ops \<Rightarrow> http_lib \<Rightarrow> 's limiter \<Rightarrow> bool" for ops lib where
  start: "lm_reachable ops lib (limiter_start ops)"
| more: "lm_reachable ops lib lm \<Longrightarrow> lm_step ops lib lm lm' \<Longrightarrow> lm_reachable ops lib lm'"

section \<open>Who holds what\<close>

fun holds_permit :: "phase \<Rightarrow> bool" where
  "holds_permit Awaiting_memory = True"
| "holds_permit Awaiting_upstream = True"
| "holds_permit Raised = True"
| "holds_permit (Publishing_raised n) = True"
| "holds_permit (Spawned is_sse) = True"
| "holds_permit (Running is_sse) = True"
| "holds_permit _ = False"

fun counted :: "phase \<Rightarrow> bool" where
  "counted Raised = True"
| "counted (Publishing_raised n) = True"
| "counted (Spawned is_sse) = is_sse"
| "counted (Running is_sse) = is_sse"
| "counted (Ended is_sse) = is_sse"
| "counted (Lost is_sse) = is_sse"
| "counted _ = False"

definition number :: "('a \<Rightarrow> bool) \<Rightarrow> 'a list \<Rightarrow> nat" where
  "number P xs = sum_list (map (\<lambda>x. if P x then 1 else 0) xs)"

lemma number_snoc [simp]: "number P (xs @ [x]) = number P xs + (if P x then 1 else 0)"
  by (simp add: number_def)

lemma number_Nil [simp]: "number P [] = 0"
  by (simp add: number_def)

lemma number_le: "number P xs \<le> length xs"
  by (induction xs) (auto simp: number_def)

lemma number_update:
  assumes "i < length xs"
  shows "number P (xs[i := y]) + (if P (xs ! i) then 1 else 0) = number P xs + (if P y then 1 else 0)"
  using sum_list_at [OF assms, of "\<lambda>x. if P x then 1 else (0::nat)"] by (auto simp: number_def)

lemma number_pos: "i < length xs \<Longrightarrow> P (xs ! i) \<Longrightarrow> 0 < number P xs"
  using number_update [of i xs P "xs ! i"] sum_list_at [of i xs "\<lambda>x. if P x then 1 else (0::nat)"]
  by (auto simp: number_def)

text \<open>The invariant: the semaphore's permits are free or held, the counter counts the event streams.\<close>

definition lm_inv :: "'s sem_ops \<Rightarrow> 's limiter \<Rightarrow> bool" where
  "lm_inv ops lm \<longleftrightarrow>
     sem_available ops (lm_limit lm) + number holds_permit (lm_requests lm) = MAX_ACTIVE_UPSTREAM_STREAMS
     \<and> lm_active lm = of_nat (number counted (lm_requests lm))
     \<and> (lm_runtime lm \<longrightarrow> (\<forall>is_sse. Lost is_sse \<notin> set (lm_requests lm)))"

lemma goes_simps [simp]:
  "lm_limit (goes lm i ph) = lm_limit lm" "lm_active (goes lm i ph) = lm_active lm"
  "lm_gauge (goes lm i ph) = lm_gauge lm" "lm_runtime (goes lm i ph) = lm_runtime lm"
  "lm_requests (goes lm i ph) = (lm_requests lm)[i := ph]"
  by (simp_all add: goes_def)

lemma release_simps [simp]:
  "lm_limit (release_stream ops lm) = sem_add_permits ops (lm_limit lm) 1"
  "lm_active (release_stream ops lm) = lm_active lm" "lm_gauge (release_stream ops lm) = lm_gauge lm"
  "lm_runtime (release_stream ops lm) = lm_runtime lm" "lm_requests (release_stream ops lm) = lm_requests lm"
  by (simp_all add: release_stream_def)

section \<open>The invariant holds\<close>

text \<open>
  A request moves on: the permits change by what it takes or returns, the counter by one, and the
  invariant is kept.
\<close>

lemma lm_inv_moves:
  assumes "lm_inv ops lm" and "i < length (lm_requests lm)"
    and "sem_available ops (lm_limit lm') + (if holds_permit ph then 1 else 0)
           = sem_available ops (lm_limit lm) + (if holds_permit (lm_requests lm ! i) then 1 else 0)"
    and "lm_active lm' + (if counted (lm_requests lm ! i) then 1 else 0)
           = lm_active lm + (if counted ph then 1 else 0)"
    and "lm_runtime lm' = lm_runtime lm" and "lm_requests lm' = lm_requests lm"
    and "\<And>is_sse. ph = Lost is_sse \<Longrightarrow> \<not> lm_runtime lm"
  shows "lm_inv ops (goes lm' i ph)"
proof -
  let ?rs = "lm_requests lm"
  have "sem_available ops (lm_limit lm') + number holds_permit (?rs[i := ph]) = MAX_ACTIVE_UPSTREAM_STREAMS"
    using assms(1,3) number_update [OF assms(2), of holds_permit ph] by (auto simp: lm_inv_def split: if_splits)
  moreover have "lm_active lm' = of_nat (number counted (?rs[i := ph]))"
  proof -
    have "(of_nat (number counted (?rs[i := ph])) :: 64 word) + (if counted (?rs ! i) then 1 else 0)
        = of_nat (number counted ?rs) + (if counted ph then 1 else 0)"
      using arg_cong [OF number_update [OF assms(2), of counted ph], of "of_nat :: nat \<Rightarrow> 64 word"]
      by (simp split: if_splits)
    then have "lm_active lm' + (if counted (?rs ! i) then 1 else 0)
        = of_nat (number counted (?rs[i := ph])) + (if counted (?rs ! i) then 1 else 0)"
      using assms(1,4) by (simp add: lm_inv_def)
    then show ?thesis by (rule add_right_imp_eq)
  qed
  moreover have "Lost is_sse \<notin> set (?rs[i := ph])" if "lm_runtime lm" for is_sse
    using that assms(1,7) set_update_subset_insert [of ?rs i ph] by (auto simp: lm_inv_def)
  ultimately show ?thesis using assms(5,6) by (simp add: lm_inv_def)
qed

context semaphore
begin

lemma lm_inv_start: "lm_inv ops (limiter_start ops)"
  by (simp add: lm_inv_def limiter_start_def)

lemma lm_inv_answer:
  assumes "lm_inv ops lm" "i < length (lm_requests lm)" "lm_requests lm ! i = Awaiting_upstream"
  shows "lm_inv ops (upstream_answers ops lib r lm i)"
proof (cases r)
  case (Send_ok up)
  then show ?thesis using assms
    by (cases "is_success (up_status up)"; cases "is_event_stream lib (up_headers up)")
       (auto simp: upstream_answers_def increment_active_sse_streams_def intro!: lm_inv_moves [OF assms(1,2)])
qed (use assms in \<open>auto simp: upstream_answers_def intro!: lm_inv_moves [OF assms(1,2)]\<close>)

lemma lm_inv_step: "lm_step ops lib lm lm' \<Longrightarrow> lm_inv ops lm \<Longrightarrow> lm_inv ops lm'"
proof (induction rule: lm_step.induct)
  case (arrives lm)
  then show ?case by (simp add: lm_inv_def)
next
  case (admitted lm i s)
  show ?case using admitted acquire_Some [OF admitted(4)] by (auto intro!: lm_inv_moves [OF admitted(5,2)])
next
  case (answered lm i r)
  then show ?case by (intro lm_inv_answer)
next
  case (guard_dropped i lm is_sse)
  then show ?case
    by (cases is_sse)
       (auto simp: guard_drop_def decrement_active_sse_streams_def Let_def intro!: lm_inv_moves [OF guard_dropped(3,1)])
next
  case (runtime_dropped lm)
  then show ?case by (simp add: lm_inv_def)
qed (erule (1) lm_inv_moves; auto)+

end

section \<open>Moves\<close>

text \<open>A reachable state with that many free permits, that counter, that gauge and those requests.\<close>

definition lm_at :: "'s sem_ops \<Rightarrow> http_lib \<Rightarrow> nat \<Rightarrow> 64 word \<Rightarrow> 64 word \<Rightarrow> phase list \<Rightarrow> bool" where
  "lm_at ops lib n active gauge rs \<longleftrightarrow>
     (\<exists>s. sem_available ops s = n
        \<and> lm_reachable ops lib \<lparr>lm_limit = s, lm_active = active, lm_gauge = gauge, lm_runtime = True, lm_requests = rs\<rparr>)"

context semaphore
begin

lemma lm_inv_reachable: "lm_reachable ops lib lm \<Longrightarrow> lm_inv ops lm"
  by (induction rule: lm_reachable.induct) (auto intro: lm_inv_start lm_inv_step)

lemma lm_at_start: "lm_at ops lib MAX_ACTIVE_UPSTREAM_STREAMS 0 0 []"
  using lm_reachable.start [of ops lib] new_available [of MAX_ACTIVE_UPSTREAM_STREAMS]
  unfolding lm_at_def limiter_start_def by blast

lemma lm_at_arrives:
  assumes "lm_at ops lib n a g rs"
  shows "lm_at ops lib n a g (rs @ [Awaiting_stream])"
proof -
  from assms obtain s where s: "sem_available ops s = n"
    "lm_reachable ops lib \<lparr>lm_limit = s, lm_active = a, lm_gauge = g, lm_runtime = True, lm_requests = rs\<rparr>"
    by (auto simp: lm_at_def)
  from lm_reachable.more [OF s(2) lm_step.arrives] s(1) show ?thesis by (auto simp: lm_at_def)
qed

lemma lm_at_admitted:
  assumes "lm_at ops lib (Suc n) a g rs" "i < length rs" "rs ! i = Awaiting_stream"
  shows "lm_at ops lib n a g (rs[i := Awaiting_memory])"
proof -
  from assms(1) obtain s where s: "sem_available ops s = Suc n"
    "lm_reachable ops lib \<lparr>lm_limit = s, lm_active = a, lm_gauge = g, lm_runtime = True, lm_requests = rs\<rparr>"
    by (auto simp: lm_at_def)
  then obtain s' where s': "sem_try_acquire_many ops s 1 = Some s'"
    using acquire_None [of s 1] by fastforce
  have "sem_available ops s' = n" using acquire_Some [OF s'] s(1) by simp
  then show ?thesis
    using lm_reachable.more [OF s(2) lm_step.admitted [of _ i ops s']] s' assms(2,3)
    by (auto simp: lm_at_def goes_def)
qed

lemma lm_at_moves:
  fixes up :: upstream_response
  assumes "lm_at ops lib n a g rs" "i < length rs"
  shows "rs ! i = Awaiting_memory \<Longrightarrow> lm_at ops lib n a g (rs[i := Awaiting_upstream])"
    and "rs ! i = Awaiting_upstream \<Longrightarrow> is_success (up_status up) \<Longrightarrow> is_event_stream lib (up_headers up)
      \<Longrightarrow> lm_at ops lib n (a + 1) g (rs[i := Raised])"
    and "rs ! i = Raised \<Longrightarrow> lm_at ops lib n a g (rs[i := Publishing_raised a])"
    and "rs ! i = Publishing_raised m \<Longrightarrow> lm_at ops lib n a m (rs[i := Spawned True])"
    and "rs ! i = Spawned is_sse \<Longrightarrow> lm_at ops lib n a g (rs[i := Running is_sse])"
    and "rs ! i = Running is_sse \<Longrightarrow> lm_at ops lib (Suc n) a g (rs[i := Ended is_sse])"
    and "rs ! i = Ended True \<Longrightarrow> lm_at ops lib n (a - 1) g (rs[i := Publishing_lowered (a - 1)])"
    and "rs ! i = Publishing_lowered m \<Longrightarrow> lm_at ops lib n a m (rs[i := Gone])"
proof -
  from assms(1) obtain s where s: "sem_available ops s = n"
    "lm_reachable ops lib \<lparr>lm_limit = s, lm_active = a, lm_gauge = g, lm_runtime = True, lm_requests = rs\<rparr>"
    by (auto simp: lm_at_def)
  note go = lm_reachable.more [OF s(2)]
  show "rs ! i = Awaiting_memory \<Longrightarrow> lm_at ops lib n a g (rs[i := Awaiting_upstream])"
    using go [OF lm_step.memory_granted [of _ i]] s(1) assms(2) by (auto simp: lm_at_def goes_def)
  show "rs ! i = Awaiting_upstream \<Longrightarrow> is_success (up_status up) \<Longrightarrow> is_event_stream lib (up_headers up)
      \<Longrightarrow> lm_at ops lib n (a + 1) g (rs[i := Raised])"
    using go [OF lm_step.answered [of _ i ops lib "Send_ok up"]] s(1) assms(2)
    by (auto simp: lm_at_def goes_def upstream_answers_def increment_active_sse_streams_def)
  show "rs ! i = Raised \<Longrightarrow> lm_at ops lib n a g (rs[i := Publishing_raised a])"
    using go [OF lm_step.raise_loaded [of i]] s(1) assms(2) by (auto simp: lm_at_def goes_def active_sse_streams_def)
  show "rs ! i = Publishing_raised m \<Longrightarrow> lm_at ops lib n a m (rs[i := Spawned True])"
    using go [OF lm_step.raise_published [of i]] s(1) assms(2) by (auto simp: lm_at_def goes_def)
  show "rs ! i = Spawned is_sse \<Longrightarrow> lm_at ops lib n a g (rs[i := Running is_sse])"
    using go [OF lm_step.polled [of _ i]] s(1) assms(2) by (auto simp: lm_at_def goes_def)
  show "rs ! i = Running is_sse \<Longrightarrow> lm_at ops lib (Suc n) a g (rs[i := Ended is_sse])"
    using go [OF lm_step.task_ended [of i]] s(1) assms(2)
    by (auto simp: lm_at_def goes_def release_stream_def intro!: exI [of _ "sem_add_permits ops s (Suc 0)"])
  show "rs ! i = Ended True \<Longrightarrow> lm_at ops lib n (a - 1) g (rs[i := Publishing_lowered (a - 1)])"
    using go [OF lm_step.guard_dropped [of i]] s(1) assms(2)
    by (auto simp: lm_at_def goes_def guard_drop_def decrement_active_sse_streams_def Let_def)
  show "rs ! i = Publishing_lowered m \<Longrightarrow> lm_at ops lib n a m (rs[i := Gone])"
    using go [OF lm_step.lower_published [of i]] s(1) assms(2) by (auto simp: lm_at_def goes_def)
qed

end

section \<open>Properties\<close>

text \<open>Only the semaphore lets a waiting request in.\<close>

lemma admitted_by_permit:
  assumes "lm_step ops lib lm lm'" and "i < length (lm_requests lm)"
    and "lm_requests lm ! i = Awaiting_stream" and "lm_requests lm' ! i = Awaiting_memory"
  shows "\<exists>s. sem_try_acquire_many ops (lm_limit lm) 1 = Some s"
  using assms
proof cases
  case (answered j r)
  then show ?thesis using assms(2-4)
    by (auto simp: upstream_answers_def nth_list_update split: send_result.splits if_splits)
next
  case (guard_dropped j is_sse)
  then show ?thesis using assms(2-4)
    by (auto simp: guard_drop_def nth_list_update Let_def split: if_splits)
qed (auto simp: nth_append nth_list_update split: if_splits)

text \<open>
  C14: The limit on streams. In every reachable state the permits that are free and those the requests
  hold add up to the limit of 1000, so at most 1000 requests are between admission and the end
  of their stream, whatever they are cancelled by; a waiting request gets in only when fewer than 1000
  are (for that it waits without a time limit). The counter of event streams is the number of those
  that were counted and whose guard has not run, so lowering it never underflows, and when all
  requests are gone every permit is back and the counter is zero.
\<close>
theorem stream_limit_respected:
  assumes "semaphore ops" and "lm_reachable ops lib lm" and "length (lm_requests lm) < 2 ^ 64"
  shows "sem_available ops (lm_limit lm) + number holds_permit (lm_requests lm) = MAX_ACTIVE_UPSTREAM_STREAMS
    \<and> number holds_permit (lm_requests lm) \<le> 1000
    \<and> unat (lm_active lm) = number counted (lm_requests lm)
    \<and> (Ended True \<in> set (lm_requests lm) \<longrightarrow> lm_active lm \<noteq> 0)
    \<and> (\<forall>i lm'. i < length (lm_requests lm) \<and> lm_requests lm ! i = Awaiting_stream \<and> lm_step ops lib lm lm'
         \<and> lm_requests lm' ! i = Awaiting_memory \<longrightarrow> number holds_permit (lm_requests lm) < 1000)
    \<and> (set (lm_requests lm) \<subseteq> {Gone}
         \<longrightarrow> sem_available ops (lm_limit lm) = MAX_ACTIVE_UPSTREAM_STREAMS \<and> lm_active lm = 0)"
proof -
  let ?rs = "lm_requests lm"
  from semaphore.lm_inv_reachable [OF assms(1,2)] have
    perms: "sem_available ops (lm_limit lm) + number holds_permit ?rs = MAX_ACTIVE_UPSTREAM_STREAMS" and
    act: "lm_active lm = of_nat (number counted ?rs)" by (simp_all add: lm_inv_def)
  have max: "MAX_ACTIVE_UPSTREAM_STREAMS = 1000" by (simp add: MAX_ACTIVE_UPSTREAM_STREAMS_def)
  have "number counted ?rs < 2 ^ 64" using number_le [of counted ?rs] assms(3) by linarith
  then have cnt: "unat (lm_active lm) = number counted ?rs" by (simp add: act unsigned_of_nat take_bit_nat_eq_self)
  moreover have "lm_active lm \<noteq> 0" if "Ended True \<in> set ?rs"
  proof -
    from that obtain i where "i < length ?rs" "?rs ! i = Ended True" by (auto simp: in_set_conv_nth)
    then have "0 < number counted ?rs" by (intro number_pos) auto
    then show ?thesis using cnt by auto
  qed
  moreover have "number holds_permit ?rs < 1000"
    if "i < length ?rs" "?rs ! i = Awaiting_stream" "lm_step ops lib lm lm'" "lm_requests lm' ! i = Awaiting_memory"
    for i lm'
    using admitted_by_permit [OF that(3,1,2,4)] semaphore.acquire_Some [OF assms(1)] perms max by fastforce
  moreover have "number holds_permit ?rs = 0 \<and> number counted ?rs = 0" if "set ?rs \<subseteq> {Gone}"
    using that by (induction ?rs arbitrary: lm) (auto simp: number_def sum_list_eq_0_iff)
  ultimately show ?thesis using perms max act by auto
qed

context semaphore
begin

text \<open>Two event streams up to the end of both tasks, and then the race of the two guards.\<close>

lemma gauge_race:
  fixes up :: upstream_response
  assumes up: "is_success (up_status up)" "is_event_stream lib (up_headers up)"
  shows "lm_at ops lib MAX_ACTIVE_UPSTREAM_STREAMS 0 1 [Gone, Gone]"
proof -
  note start = lm_at_start [of lib, unfolded MAX_ACTIVE_UPSTREAM_STREAMS_def]
  have waiting: "lm_at ops lib (Suc (Suc 998)) 0 0 [Awaiting_stream, Awaiting_stream]"
    using lm_at_arrives [OF lm_at_arrives [OF start]] by simp
  have "lm_at ops lib 998 0 0 [Awaiting_memory, Awaiting_memory]"
    using lm_at_admitted [OF lm_at_admitted [OF waiting, of 0], of 1] by simp
  from lm_at_moves(1) [OF lm_at_moves(1) [OF this, of 0], of 1]
  have "lm_at ops lib 998 0 0 [Awaiting_upstream, Awaiting_upstream]" by simp
  from lm_at_moves(2) [OF lm_at_moves(2) [OF this, of 0 up], of 1 up] up
  have "lm_at ops lib 998 2 0 [Raised, Raised]" by simp
  from lm_at_moves(3) [OF lm_at_moves(3) [OF this, of 0], of 1]
  have "lm_at ops lib 998 2 0 [Publishing_raised 2, Publishing_raised 2]" by simp
  from lm_at_moves(4) [OF lm_at_moves(4) [OF this, where i = 0 and m = 2], where i = 1 and m = 2]
  have "lm_at ops lib 998 2 2 [Spawned True, Spawned True]" by simp
  from lm_at_moves(5) [OF lm_at_moves(5) [OF this, where i = 0 and is_sse = True], where i = 1 and is_sse = True]
  have "lm_at ops lib 998 2 2 [Running True, Running True]" by simp
  from lm_at_moves(6) [OF lm_at_moves(6) [OF this, where i = 0 and is_sse = True], where i = 1 and is_sse = True]
  have "lm_at ops lib 1000 2 2 [Ended True, Ended True]" by simp
  from lm_at_moves(7) [OF lm_at_moves(7) [OF this, of 0], of 1]
  have "lm_at ops lib 1000 0 2 [Publishing_lowered 1, Publishing_lowered 0]" by simp
  from lm_at_moves(8) [OF lm_at_moves(8) [OF this, where i = 1 and m = 0], where i = 0 and m = 1]
  show ?thesis by (simp add: MAX_ACTIVE_UPSTREAM_STREAMS_def)
qed

end

lemma gauge_kept:
  assumes "lm_step ops lib lm lm'" and "set (lm_requests lm) \<subseteq> {Gone}"
  shows "lm_gauge lm' = lm_gauge lm"
proof -
  have "lm_requests lm ! i = Gone" if "i < length (lm_requests lm)" for i
    using assms(2) nth_mem [OF that] by blast
  from assms(1) this show ?thesis by cases auto
qed

text \<open>
  C32: The published gauge can stay wrong. Two event streams that end at the same time lower the counter
  one after the other but may publish their values in the opposite order: then no stream is left and
  the counter is zero, but the gauge says one, and nothing but a request that comes later
  changes it.
\<close>
theorem published_gauge_stays_wrong:
  fixes up :: upstream_response
  assumes "semaphore ops" and "is_success (up_status up)" and "is_event_stream lib (up_headers up)"
  shows "\<exists>lm. lm_reachable ops lib lm \<and> lm_runtime lm \<and> lm_requests lm = [Gone, Gone]
    \<and> lm_active lm = 0 \<and> lm_gauge lm = 1 \<and> (\<forall>lm'. lm_step ops lib lm lm' \<longrightarrow> lm_gauge lm' = 1)"
proof -
  from semaphore.gauge_race [OF assms] obtain s where
    "lm_reachable ops lib \<lparr>lm_limit = s, lm_active = 0, lm_gauge = 1, lm_runtime = True, lm_requests = [Gone, Gone]\<rparr>"
    (is "lm_reachable ops lib ?lm") by (auto simp: lm_at_def)
  moreover have "lm_gauge lm' = 1" if "lm_step ops lib ?lm lm'" for lm'
    using gauge_kept [OF that] by simp
  ultimately show ?thesis by (intro exI [of _ ?lm]) auto
qed

section \<open>Witnesses\<close>

definition sample_up :: upstream_response where
  "sample_up = \<lparr>up_status = 200, up_headers = [(''content-type'', ''text/event-stream'')], up_events = []\<rparr>"

lemma sample_up_streams: "is_success (up_status sample_up)" "is_event_stream sample_lib (up_headers sample_up)"
proof -
  have "position_window ''text/event-stream'' (lower ''text/event-stream'') \<noteq> None" by code_simp
  then show "is_event_stream sample_lib (up_headers sample_up)"
    by (simp add: is_event_stream_def sample_up_def sample_lib_def header_get_def)
qed (simp add: is_success_def sample_up_def)

theorem published_gauge_stays_wrong_witness:
  "\<exists>lm. lm_reachable counting_ops sample_lib lm \<and> lm_requests lm = [Gone, Gone] \<and> lm_active lm = 0 \<and> lm_gauge lm = 1"
  using published_gauge_stays_wrong [OF counting.semaphore_axioms sample_up_streams] by blast

theorem stream_limit_respected_witness:
  "\<exists>lm. lm_reachable counting_ops sample_lib lm \<and> lm_requests lm = [Awaiting_stream, Awaiting_memory]
     \<and> sem_available counting_ops (lm_limit lm) = 999"
proof -
  have "lm_at counting_ops sample_lib (Suc 999) 0 0 [Awaiting_stream, Awaiting_stream]"
    using counting.lm_at_arrives [OF counting.lm_at_arrives [OF counting.lm_at_start [of sample_lib]]]
    by (simp add: MAX_ACTIVE_UPSTREAM_STREAMS_def)
  from counting.lm_at_admitted [OF this, of 1] obtain s where
    "lm_reachable counting_ops sample_lib
       \<lparr>lm_limit = s, lm_active = 0, lm_gauge = 0, lm_runtime = True, lm_requests = [Awaiting_stream, Awaiting_memory]\<rparr>"
    (is "lm_reachable _ _ ?lm") by (auto simp: lm_at_def)
  moreover from stream_limit_respected [OF counting.semaphore_axioms this]
  have "sem_available counting_ops (lm_limit ?lm) = 999"
    by (simp add: MAX_ACTIVE_UPSTREAM_STREAMS_def number_def)
  ultimately show ?thesis by auto
qed

end
