(* ===== verification/UnitTests.thy ===== *)
theory UnitTests
  imports Conformance StreamTask StrTyping
begin

text \<open>
  The unit tests of \<open>src/lib.rs\<close> about the audit frame and the detector, and the test of
  \<open>src/budget_queue.rs\<close> about slicing, run on the model like those of theory \<open>Conformance\<close>. The
  signature scheme, base 64 and the JSON serialiser are parameters; what the tests need of them are
  named predicates.
\<close>

section \<open>The tests\<close>

definition rposition :: "('a \<Rightarrow> bool) \<Rightarrow> 'a list \<Rightarrow> nat option" where
  "rposition P xs = map_option (\<lambda>i. length xs - 1 - i) (position P (rev xs))"

definition str_contains :: "bytes \<Rightarrow> bytes \<Rightarrow> bool" where
  "str_contains pat s \<longleftrightarrow> position_window pat s \<noteq> None"

text \<open>
  \<open>decode\<close> is the base-64 decoder, \<open>verify key message signature\<close> what \<open>key.verifying_key().verify\<close>
  answers; a signature has 64 bytes.
\<close>

definition signature_from_slice :: "bytes \<Rightarrow> bytes option" where
  "signature_from_slice b = (if length b = 64 then Some b else None)"

definition proxy_audit_frame_is_emitted_before_done_event_and_signature_checks ::
  "('h, 'k) crypto \<Rightarrow> (bytes \<Rightarrow> bytes option) \<Rightarrow> ('k \<Rightarrow> bytes \<Rightarrow> bytes \<Rightarrow> bool) \<Rightarrow> 'k \<Rightarrow> (unit, unit) outcome" where
  "proxy_audit_frame_is_emitted_before_done_event_and_signature_checks cr decode verify key =
     (let receipt_hash = ''9f3d74c42bb0c3d4d908a3d77dcb75a6c4df9c1d89b24fd9ba3c4405d5a2dc81'';
          tuple_digest = canonical_receipt_digest cr ''request-1'' ''tenant-1''
            ''https://upstream.example/v1/chat/completions'' ''request-hash-1'' ''policy-1'' ''pcr0-1'' receipt_hash;
          signature = ed25519_sign cr key tuple_digest;
          signature_b64 = b64_encode cr signature;
          frame = build_proxy_audit_frame receipt_hash signature_b64;
          done = ''data: [DONE]'' @ NL @ NL;
          combined = frame @ done in
      obind (expect (position_window frame combined)) (\<lambda>frame_index.
      obind (expect (position_window done combined)) (\<lambda>done_index.
      obind (assert_that (frame_index < done_index)) (\<lambda>_.
      obind (expect (decode signature_b64)) (\<lambda>signature_bytes.
      obind (expect (signature_from_slice signature_bytes)) (\<lambda>signature.
      assert_that (verify key tuple_digest signature)))))))"

text \<open>The bytes of the events the detector gives for an input that arrives byte by byte.\<close>

definition rendered_bytewise :: "('h, 'k) receipt_env \<Rightarrow> nat \<Rightarrow> bytes \<Rightarrow> (bytes, unit) outcome" where
  "rendered_bytewise env addr inp =
     obind (run_steps (inspect_step env) (DoneDetector_default addr, hasher_new (re_crypto env))
        (map (\<lambda>byte. [byte]) inp)) (\<lambda>(_, events). Ok (concat (map event_bytes events)))"

definition fragmented_done_marker_emits_audit_receipt :: "('h, 'k) receipt_env \<Rightarrow> nat \<Rightarrow> (unit, unit) outcome" where
  "fragmented_done_marker_emits_audit_receipt env addr =
     obind (rendered_bytewise env addr
        (''data: {'' @ DQ @ ''content'' @ DQ @ '':'' @ DQ @ ''safe'' @ DQ @ ''}'' @ NL @ NL @ ''data: [DONE]'' @ NL @ NL)) (\<lambda>rendered.
     obind (expect (position_window ''event: proxy_audit'' rendered)) (\<lambda>audit_index.
     obind (expect (position_window SSE_DONE_MARKER rendered)) (\<lambda>done_index.
     assert_that (audit_index < done_index))))"

definition fragmented_done_marker_preserves_bytes_and_hashes_payload_once ::
  "('h, 'k) receipt_env \<Rightarrow> nat \<Rightarrow> (unit, unit) outcome" where
  "fragmented_done_marker_preserves_bytes_and_hashes_payload_once env addr =
     (let inp = ''data: safe'' @ NL @ NL @ ''data: [DONE]'' @ NL @ NL; cr = re_crypto env in
      obind (expect (position_window SSE_DONE_MARKER inp)) (\<lambda>marker_start.
      obind (slice_checked inp 0 marker_start) (\<lambda>expected_payload.
      let expected_digest = to_hex cr (blake3_hash cr expected_payload) in
      obind (rendered_bytewise env addr inp) (\<lambda>rendered.
      obind (expect (position_window ''event: proxy_audit'' rendered)) (\<lambda>audit.
      obind (expect (rposition (\<lambda>byte. byte = CHR 0x0A) (take audit rendered))) (\<lambda>audit_start.
      obind (expect (map_option (\<lambda>offset. audit_start + offset + 2)
                       (position_window (NL @ NL) (drop audit_start rendered)))) (\<lambda>audit_end.
      let without_audit = take audit_start rendered @ drop audit_end rendered in
      obind (assert_that (without_audit = inp)) (\<lambda>_.
      obind (assert_that (take audit_start rendered = expected_payload)) (\<lambda>_.
      assert_that (str_contains expected_digest
        (from_utf8_lossy (Prelude.slice rendered audit_start audit_end))))))))))))"

section \<open>What the crates promise\<close>

definition signatures_ok :: "('h, 'k) crypto \<Rightarrow> (bytes \<Rightarrow> bytes option) \<Rightarrow> ('k \<Rightarrow> bytes \<Rightarrow> bytes \<Rightarrow> bool) \<Rightarrow> bool" where
  "signatures_ok cr decode verify \<longleftrightarrow>
     (\<forall>key m. decode (b64_encode cr (ed25519_sign cr key m)) = Some (ed25519_sign cr key m)
        \<and> length (ed25519_sign cr key m) = 64 \<and> verify key m (ed25519_sign cr key m))"

definition hex_digits :: bytes where
  "hex_digits = ''0123456789abcdef''"

text \<open>
  Digests are printed in hexadecimal; base 64 is ASCII without line feeds; a receipt is serialised
  to UTF-8 without line feeds, and a field of hexadecimal digits appears in it as it is.
\<close>

definition texts_ok :: "('h, 'k) crypto \<Rightarrow> bool" where
  "texts_ok cr \<longleftrightarrow>
     (\<forall>d. set (to_hex cr d) \<subseteq> set hex_digits)
     \<and> (\<forall>b. valid_utf8 (b64_encode cr b) \<and> CHR 0x0A \<notin> set (b64_encode cr b))
     \<and> (\<forall>r js. receipt_to_vec cr r = Some js \<longrightarrow> valid_utf8 js \<and> CHR 0x0A \<notin> set js
          \<and> (set (ar_payload_hash r) \<subseteq> set hex_digits \<longrightarrow> sublist (ar_payload_hash r) js))"

section \<open>The audit frame\<close>

lemma frame_starts: "\<exists>t. build_proxy_audit_frame js sig = NL @ ''event: proxy_audit'' @ NL @ t"
  by (auto simp: build_proxy_audit_frame_def Let_def)

lemma occurs_at_0_append [simp]: "occurs_at xs (xs @ ys) 0"
  by (simp add: occurs_at_def)

lemma occurs_at_end [simp]: "occurs_at ys (xs @ ys) (length xs)"
  by (simp add: occurs_at_def)

lemma frame_index:
  fixes fin :: bytes
  assumes "fin \<noteq> []" and "hd fin \<noteq> CHR 0x0A"
  obtains i where "position_window (build_proxy_audit_frame js sig) (build_proxy_audit_frame js sig @ fin) = Some 0"
    and "position_window fin (build_proxy_audit_frame js sig @ fin) = Some i" and "0 < i"
proof -
  let ?frame = "build_proxy_audit_frame js sig"
  obtain t where t: "?frame = CHR 0x0A # t" using frame_starts [of js sig] by (auto simp: NL_def)
  obtain i where i: "position_window fin (?frame @ fin) = Some i"
    using position_window_iff occurs_at_end by metis
  have "take (length fin) (CHR 0x0A # t @ fin) \<noteq> fin"
    using assms by (cases fin) auto
  then have "i \<noteq> 0" using position_window_Some [OF i] by (cases i) (auto simp: t occurs_at_def)
  moreover have "position_window ?frame (?frame @ fin) = Some 0" by (rule position_window_eq_Some) auto
  ultimately show ?thesis using i that by blast
qed

lemma frame_test_passes:
  assumes "signatures_ok cr decode verify"
  shows "proxy_audit_frame_is_emitted_before_done_event_and_signature_checks cr decode verify key = Ok ()"
proof -
  define receipt_hash where "receipt_hash = ''9f3d74c42bb0c3d4d908a3d77dcb75a6c4df9c1d89b24fd9ba3c4405d5a2dc81''"
  define digest where "digest = canonical_receipt_digest cr ''request-1'' ''tenant-1''
    ''https://upstream.example/v1/chat/completions'' ''request-hash-1'' ''policy-1'' ''pcr0-1'' receipt_hash"
  define sig where "sig = b64_encode cr (ed25519_sign cr key digest)"
  define fin where "fin = ''data: [DONE]'' @ NL @ NL"
  have "fin \<noteq> []" "hd fin \<noteq> CHR 0x0A" by (simp_all add: fin_def)
  then obtain i where i: "position_window (build_proxy_audit_frame receipt_hash sig) (build_proxy_audit_frame receipt_hash sig @ fin) = Some 0"
    "position_window fin (build_proxy_audit_frame receipt_hash sig @ fin) = Some i" "0 < i"
    by (rule frame_index)
  have "decode sig = Some (ed25519_sign cr key digest)" "length (ed25519_sign cr key digest) = 64"
    "verify key digest (ed25519_sign cr key digest)"
    using assms by (simp_all add: signatures_ok_def sig_def)
  then show ?thesis using i
    unfolding proxy_audit_frame_is_emitted_before_done_event_and_signature_checks_def Let_def
      receipt_hash_def [symmetric] digest_def [symmetric] sig_def [symmetric] fin_def [symmetric]
    by (simp add: expect_def signature_from_slice_def)
qed

section \<open>The detector\<close>

lemma bytes_safe: "\<forall>c \<in> set cs. length c < 11 \<Longrightarrow> safe_chunks s cs"
  by (induction cs arbitrary: s) (auto simp: hash_safe_def)

text \<open>
  An input in which the marker occurs once is rendered with the audit frame in front of it, and the
  frame is that of the bytes before.
\<close>

lemma rendered_once:
  assumes "receipts_ok env addr"
    and "inp = payload @ SSE_DONE_MARKER @ rest" and "\<And>p. occurs_at SSE_DONE_MARKER inp p \<Longrightarrow> p = length payload"
  shows "\<exists>h ds. rendered_bytewise env addr inp
      = Ok (payload @ audit_frame env (DoneDetector_default addr) (payload_hex env h) @ SSE_DONE_MARKER @ rest)
    \<and> h = hashed env (hasher_new (re_crypto env)) ds \<and> concat ds = payload"
proof -
  let ?ini = "DoneDetector_default addr" and ?h0 = "hasher_new (re_crypto env)"
  let ?cs = "map (\<lambda>byte. [byte]) inp"
  have cat: "concat ?cs = inp" by (simp add: concat_map_singleton)
  have safe: "safe_chunks [] ?cs" by (rule bytes_safe) auto
  have "has_marker (SSE_DONE_MARKER @ rest)" unfolding has_marker_iff using occurs_at_0_append by blast
  then have "has_marker inp" unfolding assms(2) by (rule has_marker_suffix)
  then obtain self h evs where r: "run_steps (inspect_step env) (?ini, ?h0) ?cs = Ok ((self, h), evs)"
    and a: "attested env ?ini ?h0 True inp self evs"
    using detect_run [OF assms(1) DoneDetector_default_def, of ?h0 ?cs] safe unfolding cat by auto
  from a obtain ds h' m ds' p where
    evs: "evs = map Data ds @ AuditReceipt (audit_frame env ?ini (payload_hex env h')) # DoneMarker m # map Data ds'"
    and p: "occurs_at SSE_DONE_MARKER inp p" "concat ds = take p inp" "m @ concat ds' = drop p inp" "h' = hashed env ?h0 ds"
    by (auto simp: attested_def)
  have "concat ds = payload" "m @ concat ds' = SSE_DONE_MARKER @ rest"
    using p(2,3) assms(3) [OF p(1)] by (simp_all add: assms(2))
  then show ?thesis using r evs p(4)
    by (auto simp: rendered_bytewise_def comp_def)
qed

lemma occurs_once:
  assumes "position_window SSE_DONE_MARKER inp = Some n" and "position_window SSE_DONE_MARKER (drop (Suc n) inp) = None"
    and "occurs_at SSE_DONE_MARKER inp p"
  shows "p = n"
proof (rule ccontr)
  assume "p \<noteq> n"
  moreover have "\<not> p < n" using position_window_Some [OF assms(1)] assms(3) by blast
  ultimately have "occurs_at SSE_DONE_MARKER (drop (Suc n) inp) (p - Suc n)"
    using assms(3) by (simp add: occurs_at_def)
  then show False using position_window_None [OF assms(2)] by blast
qed

text \<open>An occurrence near the front does not depend on what follows.\<close>

lemma position_window_front:
  assumes "position_window pat xs = Some i"
  shows "position_window pat (xs @ ys) = Some i"
proof (rule position_window_eq_Some)
  note p = position_window_Some [OF assms]
  show "occurs_at pat (xs @ ys) i" using p occurs_at_length [of pat xs i]
    by (cases "pat = []") (auto simp: occurs_at_append_left occurs_at_def)
  fix j assume j: "j < i"
  then have "pat \<noteq> []" using p by (auto simp: occurs_at_def)
  then have "j + length pat \<le> length xs" using p occurs_at_length [of pat xs i] j by auto
  then show "\<not> occurs_at pat (xs @ ys) j" using p j by (simp add: occurs_at_append_left)
qed

definition safe_frame :: bytes where
  "safe_frame = ''data: {'' @ DQ @ ''content'' @ DQ @ '':'' @ DQ @ ''safe'' @ DQ @ ''}'' @ NL @ NL"

lemma safe_frame_evals:
  "position_window SSE_DONE_MARKER (safe_frame @ SSE_DONE_MARKER @ NL @ NL) = Some (length safe_frame)"
  "position_window SSE_DONE_MARKER (drop (Suc (length safe_frame)) (safe_frame @ SSE_DONE_MARKER @ NL @ NL)) = None"
  "position_window ''event: proxy_audit'' (safe_frame @ NL @ ''event: proxy_audit'') = Some (Suc (length safe_frame))"
  "position_window SSE_DONE_MARKER (safe_frame @ NL @ ''event: proxy_audit'') = None"
  by (code_simp, code_simp, code_simp, code_simp)

lemma emits_test_passes:
  assumes "receipts_ok env addr"
  shows "fragmented_done_marker_emits_audit_receipt env addr = Ok ()"
proof -
  let ?inp = "safe_frame @ SSE_DONE_MARKER @ NL @ NL"
  obtain hx where r: "rendered_bytewise env addr ?inp
      = Ok (safe_frame @ audit_frame env (DoneDetector_default addr) hx @ SSE_DONE_MARKER @ NL @ NL)"
    using rendered_once [OF assms refl occurs_once [OF safe_frame_evals(1,2)]] by blast
  obtain t where t: "audit_frame env (DoneDetector_default addr) hx = NL @ ''event: proxy_audit'' @ NL @ t"
    using frame_starts unfolding audit_frame_def by metis
  define front where "front = safe_frame @ NL @ ''event: proxy_audit''"
  define out where "out = front @ NL @ t @ SSE_DONE_MARKER @ NL @ NL"
  have out: "safe_frame @ audit_frame env (DoneDetector_default addr) hx @ SSE_DONE_MARKER @ NL @ NL = out"
    by (simp add: t out_def front_def)
  have a: "position_window ''event: proxy_audit'' out = Some (Suc (length safe_frame))"
    unfolding out_def by (rule position_window_front) (simp only: front_def safe_frame_evals(3))
  have "occurs_at SSE_DONE_MARKER out (length (front @ NL @ t))"
    using occurs_at_0_append [of SSE_DONE_MARKER "NL @ NL"] occurs_at_append_right [of "front @ NL @ t" "length (front @ NL @ t)" SSE_DONE_MARKER]
    by (simp add: out_def del: length_append)
  then obtain d where d: "position_window SSE_DONE_MARKER out = Some d" using position_window_iff by metis
  have "Suc (length safe_frame) < d"
  proof (rule ccontr)
    assume "\<not> Suc (length safe_frame) < d"
    then have "d + length SSE_DONE_MARKER \<le> length front" by (simp add: front_def NL_def)
    then have "occurs_at SSE_DONE_MARKER front d"
      using position_window_Some [OF d] occurs_at_append_left [of d SSE_DONE_MARKER front] by (simp add: out_def)
    then show False using position_window_None [OF safe_frame_evals(4)] by (simp add: front_def)
  qed
  moreover have "''data: {'' @ DQ @ ''content'' @ DQ @ '':'' @ DQ @ ''safe'' @ DQ @ ''}'' @ NL @ NL @ ''data: [DONE]'' @ NL @ NL = ?inp"
    by (simp add: safe_frame_def SSE_DONE_MARKER_def)
  ultimately show ?thesis using r a d
    by (simp only: fragmented_done_marker_emits_audit_receipt_def out obind.simps expect_def option.case assert_that_simps)
qed

text \<open>Where two equal bytes come first behind a piece without that byte.\<close>

lemma position_double:
  "c \<notin> set l \<Longrightarrow> position_window [c, c] (l @ c # ys) =
     (if ys \<noteq> [] \<and> hd ys = c then Some (length l) else map_option (\<lambda>i. i + Suc (length l)) (position_window [c, c] ys))"
proof (induction l)
  case Nil
  then show ?case by (cases ys; cases "position_window [c, c] ys") auto
next
  case (Cons x l)
  then show ?case by (cases "position_window [c, c] ys") auto
qed

lemma frame_end:
  assumes "CHR 0x0A \<notin> set (from_utf8_lossy js)" and "CHR 0x0A \<notin> set sig"
  shows "position_window (NL @ NL) (build_proxy_audit_frame js sig @ rest) = Some (length (build_proxy_audit_frame js sig) - 2)"
proof -
  define mid where "mid = ''data: {'' @ DQ @ ''receipt'' @ DQ @ '': '' @ from_utf8_lossy js @
      '', '' @ DQ @ ''signature'' @ DQ @ '': '' @ DQ @ sig @ DQ @ ''}''"
  have frame: "build_proxy_audit_frame js sig = [] @ CHR 0x0A # (''event: proxy_audit'' @ CHR 0x0A # (mid @ CHR 0x0A # [CHR 0x0A]))"
    by (simp add: build_proxy_audit_frame_def mid_def NL_def Let_def)
  have mid: "CHR 0x0A \<notin> set mid" using assms by (simp add: mid_def DQ_def)
  have nonempty: "mid \<noteq> []" "hd mid \<noteq> CHR 0x0A" by (simp_all add: mid_def)
  have 1: "position_window [CHR 0x0A, CHR 0x0A] (mid @ CHR 0x0A # CHR 0x0A # rest) = Some (length mid)"
    by (subst position_double [OF mid]) simp
  have "position_window [CHR 0x0A, CHR 0x0A] (''event: proxy_audit'' @ CHR 0x0A # mid @ CHR 0x0A # CHR 0x0A # rest)
      = Some (length mid + 19)"
    by (subst position_double) (use nonempty 1 in \<open>simp_all add: hd_append\<close>)
  then have "position_window [CHR 0x0A, CHR 0x0A] ([] @ CHR 0x0A # ''event: proxy_audit'' @ CHR 0x0A # mid @ CHR 0x0A # CHR 0x0A # rest)
      = Some (length mid + 20)"
    by (subst position_double) simp_all
  then show ?thesis by (simp add: frame NL_def)
qed

lemma frame_valid:
  assumes "valid_utf8 sig"
  shows "valid_utf8 (build_proxy_audit_frame js sig)"
proof -
  have lits: "valid_utf8 (NL @ ''event: proxy_audit'' @ NL @ ''data: {'' @ DQ @ ''receipt'' @ DQ @ '': '')"
    "valid_utf8 ('', '' @ DQ @ ''signature'' @ DQ @ '': '' @ DQ)" "valid_utf8 (DQ @ ''}'' @ NL @ NL)"
    by (code_simp, code_simp, code_simp)
  have "build_proxy_audit_frame js sig =
      (NL @ ''event: proxy_audit'' @ NL @ ''data: {'' @ DQ @ ''receipt'' @ DQ @ '': '') @ from_utf8_lossy js @
      ('', '' @ DQ @ ''signature'' @ DQ @ '': '' @ DQ) @ sig @ (DQ @ ''}'' @ NL @ NL)"
    by (simp add: build_proxy_audit_frame_def Let_def)
  then show ?thesis
    by (simp only: valid_utf8_append [OF lits(1)] valid_utf8_append [OF from_utf8_lossy_is_valid]
        valid_utf8_append [OF lits(2)] valid_utf8_append [OF assms] lits(3))
qed

lemma frame_contains: "valid_utf8 js \<Longrightarrow> sublist d js \<Longrightarrow> str_contains d (build_proxy_audit_frame js sig)"
proof -
  assume js: "valid_utf8 js" "sublist d js"
  then obtain u v where "js = u @ d @ v" by (auto simp: sublist_def)
  then have "\<exists>a b. build_proxy_audit_frame js sig = a @ d @ b"
    using js(1) by (intro exI [of _ "NL @ ''event: proxy_audit'' @ NL @ ''data: {'' @ DQ @ ''receipt'' @ DQ @ '': '' @ u"]
        exI [of _ "v @ '', '' @ DQ @ ''signature'' @ DQ @ '': '' @ DQ @ sig @ DQ @ ''}'' @ NL @ NL"])
      (simp add: build_proxy_audit_frame_def Let_def)
  then obtain a b where "build_proxy_audit_frame js sig = a @ d @ b" by blast
  then have "occurs_at d (build_proxy_audit_frame js sig) (length a)" by (simp add: occurs_at_def)
  then show ?thesis using position_window_None by (auto simp: str_contains_def)
qed

lemma rposition_snoc: "P x \<Longrightarrow> rposition P (xs @ [x]) = Some (length xs)"
  by (simp add: rposition_def)

definition safe_line :: bytes where
  "safe_line = ''data: safe'' @ NL @ NL"

lemma safe_line_evals:
  "position_window SSE_DONE_MARKER (safe_line @ SSE_DONE_MARKER @ NL @ NL) = Some (length safe_line)"
  "position_window SSE_DONE_MARKER (drop (Suc (length safe_line)) (safe_line @ SSE_DONE_MARKER @ NL @ NL)) = None"
  "position_window ''event: proxy_audit'' (safe_line @ NL @ ''event: proxy_audit'') = Some (Suc (length safe_line))"
  by (code_simp, code_simp, code_simp)

lemma preserves_test_passes:
  assumes "receipts_ok env addr" and "incremental (re_crypto env)" and "texts_ok (re_crypto env)"
  shows "fragmented_done_marker_preserves_bytes_and_hashes_payload_once env addr = Ok ()"
proof -
  let ?cr = "re_crypto env" and ?ini = "DoneDetector_default addr"
  define inp where "inp = safe_line @ SSE_DONE_MARKER @ NL @ NL"
  define digest where "digest = to_hex ?cr (blake3_hash ?cr safe_line)"
  define frame where "frame = audit_frame env ?ini digest"
  have "payload_hex env (hashed env (hasher_new ?cr) ds) = digest" if "concat ds = safe_line" for ds
    using assms(2) that by (simp add: payload_hex_def hashed_def incremental_def digest_def)
  then have r: "rendered_bytewise env addr inp = Ok (safe_line @ frame @ SSE_DONE_MARKER @ NL @ NL)"
    using rendered_once [OF assms(1) refl occurs_once [OF safe_line_evals(1,2)]] unfolding inp_def frame_def by auto
  obtain js where js: "receipt_to_vec ?cr (receipt_for env ?ini digest) = Some js"
    using assms(1) by (auto simp: receipts_ok_def)
  define sig where "sig = b64_encode ?cr (signature_for env ?ini digest)"
  have f: "frame = build_proxy_audit_frame js sig" by (simp add: frame_def audit_frame_def js sig_def)
  have "set digest \<subseteq> set hex_digits" using assms(3) by (simp add: texts_ok_def digest_def)
  moreover have "ar_payload_hash (receipt_for env ?ini digest) = digest" by (simp add: receipt_for_def Let_def)
  ultimately have json: "valid_utf8 js" "CHR 0x0A \<notin> set js" "sublist digest js"
    and b64: "valid_utf8 sig" "CHR 0x0A \<notin> set sig"
    using assms(3) js unfolding texts_ok_def sig_def by metis+
  obtain t where t: "frame = NL @ ''event: proxy_audit'' @ NL @ t" using frame_starts unfolding f by metis
  define out where "out = safe_line @ frame @ SSE_DONE_MARKER @ NL @ NL"
  have audit: "position_window ''event: proxy_audit'' out = Some (Suc (length safe_line))"
    using position_window_front [OF safe_line_evals(3), of "NL @ t @ SSE_DONE_MARKER @ NL @ NL"] by (simp add: t out_def)
  have "take (Suc (length safe_line)) out = safe_line @ [CHR 0x0A]" by (simp add: t NL_def out_def)
  then have start: "rposition (\<lambda>byte. byte = CHR 0x0A) (take (Suc (length safe_line)) out) = Some (length safe_line)"
    by (simp only: rposition_snoc)
  have "position_window (NL @ NL) (drop (length safe_line) out) = Some (length frame - 2)"
    using frame_end [of js sig "SSE_DONE_MARKER @ NL @ NL"] json b64 by (simp add: f out_def)
  moreover have "2 \<le> length frame" by (simp add: t)
  ultimately have stop: "map_option (\<lambda>offset. length safe_line + offset + 2) (position_window (NL @ NL) (drop (length safe_line) out))
      = Some (length safe_line + length frame)" by simp
  have slice: "Prelude.slice out (length safe_line) (length safe_line + length frame) = frame"
    by (simp add: Prelude.slice_def out_def)
  have cut: "take (length safe_line) out = safe_line" "take (length safe_line) out @ drop (length safe_line + length frame) out = inp"
    by (simp_all add: out_def inp_def)
  have "from_utf8_lossy frame = frame" using frame_valid [OF b64(1), of js] by (simp add: f)
  then have found: "str_contains digest (from_utf8_lossy frame)" using frame_contains [OF json(1,3)] by (simp add: f)
  have "''data: safe'' @ NL @ NL @ ''data: [DONE]'' @ NL @ NL = inp" by (simp add: inp_def safe_line_def SSE_DONE_MARKER_def)
  moreover have "slice_checked inp 0 (length safe_line) = (Ok safe_line :: (_, unit) outcome)"
    by (simp add: slice_checked_def Prelude.slice_def inp_def)
  ultimately show ?thesis
    using r audit start stop found slice cut safe_line_evals(1) [folded inp_def]
    unfolding fragmented_done_marker_preserves_bytes_and_hashes_payload_once_def Let_def out_def [symmetric]
    by (simp only: expect_def option.case obind.simps digest_def [symmetric] assert_that_simps inp_def [symmetric] simp_thms)
qed

section \<open>Slicing\<close>

definition ByteBudget_capacity :: "ByteBudget \<Rightarrow> nat" where
  "ByteBudget_capacity self = bb_capacity self"

text \<open>
  The receiver runs beside the task that enqueues: some segments (\<open>early\<close>) it has taken and dropped
  before the next slice is reserved, the others when the task has ended. The channel has room for
  all segments and is not closed.
\<close>

definition taking_channel :: "'s sem_ops \<Rightarrow> (BudgetedSegment \<Rightarrow> bool) \<Rightarrow> 's world \<Rightarrow> BudgetedSegment \<Rightarrow> 's world \<times> bool" where
  "taking_channel ops early w segment = (if early segment then drop_segment ops w segment else w, True)"

definition oversized_segment_is_sliced_to_fit_without_deadlock ::
  "'s sem_ops \<Rightarrow> 's world \<Rightarrow> (BudgetedSegment \<Rightarrow> bool) \<Rightarrow> (unit, unit) outcome" where
  "oversized_segment_is_sliced_to_fit_without_deadlock ops w early =
     (case alloc_sem ops w 16 of (w0, sem) \<Rightarrow>
      obind (from_shared ops w0 sem 4) (\<lambda>(w1, budget).
      obind (channel_checked 4) (\<lambda>_.
      case enqueue ops (taking_channel ops early) w1 budget ''abcdefghij'' of
        (w2, received, result) \<Rightarrow>
          obind (assert_that (list_all (\<lambda>segment. permit_count segment \<le> ByteBudget_capacity budget) received)) (\<lambda>_.
          let output = concat (map seg_bytes received);
              w3 = foldl (drop_segment ops) w2 (filter (\<lambda>segment. \<not> early segment) received) in
          obind (case result of Ok _ \<Rightarrow> Ok () | _ \<Rightarrow> Panic) (\<lambda>_.
          obind (assert_that (output = ''abcdefghij'')) (\<lambda>_.
          assert_that (available ops w3 budget \<le> 16)))))))"

context semaphore
begin

text \<open>As long as the permits cover all slices every slice is sent, and dropping them returns all permits.\<close>

lemma taking_loop:
  assumes "bb_semaphore budget \<noteq> bb_global_memory budget"
    and "\<forall>x \<in> set starts. x < length b" and "0 < bb_capacity budget" and "bb_capacity budget < 2 ^ 32"
    and "length starts * bb_capacity budget \<le> sem_available ops (w_sems w (bb_semaphore budget))"
    and "length starts * bb_capacity budget \<le> sem_available ops (w_sems w (bb_global_memory budget))"
  shows "\<exists>w' sent. enqueue_loop ops (taking_channel ops early) budget b w starts = (w', sent, Ok ())
    \<and> map seg_bytes sent = map (\<lambda>x. Prelude.slice b x (min (x + bb_capacity budget) (length b))) starts
    \<and> list_all (\<lambda>s. permit_count s \<le> bb_capacity budget) sent
    \<and> (\<forall>a. sem_available ops (w_sems w' a) + (\<Sum>s \<leftarrow> filter (\<lambda>s. \<not> early s) sent. seg_held a s)
          = sem_available ops (w_sems w a))"
  using assms(2,5,6)
proof (induction starts arbitrary: w)
  case (Cons x xs)
  let ?k = "bb_capacity budget" and ?x = "Prelude.slice b x (min (x + bb_capacity budget) (length b))"
  have len: "0 < length ?x" "length ?x \<le> ?k" using Cons.prems(1) assms(3) by (auto simp: Prelude.slice_def)
  then have "?x \<noteq> []" "length ?x < 2 ^ 32" using assms(4) by auto
  then obtain w1 s where s: "BudgetedSegment_reserve ops w budget ?x = (w1, Ok s)"
    using reserve_succeeds_iff [OF assms(1), of w ?x] Cons.prems(2,3) len by auto
  note r = reserve_Ok [OF s]
  obtain w2 where w2: "taking_channel ops early w1 s = (w2, True)"
    "\<And>a. sem_available ops (w_sems w2 a) + (if early s then 0 else seg_held a s) = sem_available ops (w_sems w a)"
    using r by (auto simp: taking_channel_def drop_segment_available)
  have held: "seg_held a s \<le> ?k" for a using r len assms(1) by (auto simp: seg_held_def on_sem_def)
  have "length xs * ?k \<le> sem_available ops (w_sems w2 (bb_semaphore budget))"
    "length xs * ?k \<le> sem_available ops (w_sems w2 (bb_global_memory budget))"
    using w2(2) [of "bb_semaphore budget"] w2(2) [of "bb_global_memory budget"] held [of "bb_semaphore budget"]
      held [of "bb_global_memory budget"] Cons.prems(2,3) by (auto split: if_splits)
  then obtain w' sent where "enqueue_loop ops (taking_channel ops early) budget b w2 xs = (w', sent, Ok ())"
    "map seg_bytes sent = map (\<lambda>x. Prelude.slice b x (min (x + ?k) (length b))) xs"
    "list_all (\<lambda>s. permit_count s \<le> ?k) sent"
    and av: "\<And>a. sem_available ops (w_sems w' a) + (\<Sum>s \<leftarrow> filter (\<lambda>s. \<not> early s) sent. seg_held a s) = sem_available ops (w_sems w2 a)"
    using Cons.IH [of w2] Cons.prems(1) by auto
  moreover have "permit_count s \<le> ?k" "seg_bytes s = ?x" using r by (simp_all add: permit_count_def)
  moreover have "sem_available ops (w_sems w' a) + (\<Sum>s \<leftarrow> filter (\<lambda>s. \<not> early s) (s # sent). seg_held a s)
      = sem_available ops (w_sems w a)" for a
    using av [of a] w2(2) [of a] by (auto split: if_splits)
  ultimately show ?case using s w2(1) by (intro exI [of _ w'] exI [of _ "s # sent"]) (simp add: Let_def)
qed simp

lemma drop_all_available:
  "sem_available ops (w_sems (foldl (drop_segment ops) w ss) a) = sem_available ops (w_sems w a) + (\<Sum>s \<leftarrow> ss. seg_held a s)"
  by (induction ss arbitrary: w) (simp_all add: drop_segment_available)

lemma slicing_test_passes: "oversized_segment_is_sliced_to_fit_without_deadlock ops w early = Ok ()"
proof -
  obtain w0 a where a: "alloc_sem ops w 16 = (w0, a)" by (cases "alloc_sem ops w 16")
  define b where "b = \<lparr>bb_semaphore = a, bb_global_memory = w_next w0, bb_capacity = 4\<rparr>"
  obtain w1 where w1: "from_shared ops w0 a 4 = (Ok (w1, b) :: (_, unit) outcome)" "bb_semaphore b \<noteq> bb_global_memory b"
    "sem_available ops (w_sems w1 (bb_semaphore b)) = 16"
    "sem_available ops (w_sems w1 (bb_global_memory b)) = DEFAULT_GLOBAL_MEMORY_BUDGET"
    using a by (auto simp: from_shared_def alloc_sem_def b_def)
  have starts: "step_by (bb_capacity b) [0..<length ''abcdefghij''] = [0, 4, 8]" by (simp add: b_def upt_rec)
  have "\<exists>w' sent. enqueue_loop ops (taking_channel ops early) b ''abcdefghij'' w1 [0, 4, 8] = (w', sent, Ok ())
    \<and> map seg_bytes sent = map (\<lambda>x. Prelude.slice ''abcdefghij'' x (min (x + bb_capacity b) (length ''abcdefghij''))) [0, 4, 8]
    \<and> list_all (\<lambda>s. permit_count s \<le> bb_capacity b) sent
    \<and> (\<forall>a. sem_available ops (w_sems w' a) + (\<Sum>s \<leftarrow> filter (\<lambda>s. \<not> early s) sent. seg_held a s)
          = sem_available ops (w_sems w1 a))"
    by (rule taking_loop [OF w1(2)]) (use w1(3,4) in \<open>simp_all add: b_def DEFAULT_GLOBAL_MEMORY_BUDGET_def\<close>)
  then obtain w2 sent where l: "enqueue_loop ops (taking_channel ops early) b ''abcdefghij'' w1 [0, 4, 8] = (w2, sent, Ok ())"
    and bytes: "map seg_bytes sent = map (\<lambda>x. Prelude.slice ''abcdefghij'' x (min (x + bb_capacity b) (length ''abcdefghij''))) [0, 4, 8]"
    and fits: "list_all (\<lambda>s. permit_count s \<le> bb_capacity b) sent"
    and returned: "\<And>a. sem_available ops (w_sems w2 a) + (\<Sum>s \<leftarrow> filter (\<lambda>s. \<not> early s) sent. seg_held a s)
          = sem_available ops (w_sems w1 a)"
    by auto
  have "map seg_bytes sent = [''abcd'', ''efgh'', ''ij'']" unfolding bytes by (simp add: Prelude.slice_def b_def)
  then have "concat (map seg_bytes sent) = ''abcdefghij''" by simp
  moreover have "enqueue ops (taking_channel ops early) w1 b ''abcdefghij'' = (w2, sent, Ok ())"
    unfolding enqueue_def starts l by (simp add: b_def)
  moreover have "available ops (foldl (drop_segment ops) w2 (filter (\<lambda>s. \<not> early s) sent)) b = 16"
    using returned w1(3) by (simp add: available_def drop_all_available)
  ultimately show ?thesis using a w1(1) fits
    by (simp add: oversized_segment_is_sliced_to_fit_without_deadlock_def channel_checked_def ByteBudget_capacity_def)
qed

end

section \<open>Results\<close>

text \<open>
  The unit tests in the sources pass on the model: the eight of the engine, the three of the audit
  frame and the detector and the four of the budgets, with every automaton builder, hash,
  signature scheme, serialiser and semaphore that keep their contracts, and however the receiver of
  the slicing test is scheduled.
\<close>
lemma source_unit_tests_pass:
  assumes "builder_ok build" and "\<forall>pats \<in> set unit_test_rules. build pats \<noteq> None"
    and "incremental (re_crypto env)" and "receipts_ok env addr" and "texts_ok (re_crypto env)"
    and "signatures_ok (re_crypto env) decode verify" and "semaphore ops"
  shows "unit_tests build to_string (re_crypto env) = replicate 8 (Ok ())
    \<and> proxy_audit_frame_is_emitted_before_done_event_and_signature_checks (re_crypto env) decode verify key = Ok ()
    \<and> fragmented_done_marker_emits_audit_receipt env addr = Ok ()
    \<and> fragmented_done_marker_preserves_bytes_and_hashes_payload_once env addr = Ok ()
    \<and> oversized_segment_is_sliced_to_fit_without_deadlock ops w early = Ok ()
    \<and> dropped_receiver_releases_unsent_permit ops w = Ok ()
    \<and> dropped_body_releases_in_flight_permit ops w = Ok ()
    \<and> oversized_reservation_returns_without_waiting ops w acquired = Ok ()"
  by (intro conjI unit_tests_pass frame_test_passes emits_test_passes preserves_test_passes
      semaphore.slicing_test_passes semaphore.budget_tests) (use assms in auto)

section \<open>Witness\<close>

text \<open>A provider of digests, signatures and texts that keeps the contracts.\<close>

definition test_crypto :: "(bytes, bytes) crypto" where
  "test_crypto = sample_crypto\<lparr>to_hex := (\<lambda>_. ''00''), ed25519_sign := (\<lambda>_ _. replicate 64 (CHR ''A'')),
     b64_encode := (\<lambda>_. ''QUFB''),
     receipt_to_vec := (\<lambda>r. Some (filter (\<lambda>c. c \<in> set hex_digits) (ar_payload_hash r)))\<rparr>"

definition test_renv :: "(bytes, bytes) receipt_env" where
  "test_renv = sample_renv\<lparr>re_crypto := test_crypto\<rparr>"

lemma hex_valid: "set xs \<subseteq> set hex_digits \<Longrightarrow> valid_utf8 xs"
proof (induction xs)
  case (Cons c xs)
  have "list_all (\<lambda>c. (of_char c :: nat) < 128) hex_digits" by code_simp
  then have "(of_char c :: nat) < 128" using Cons.prems by (auto simp: list_all_iff)
  from valid_utf8_append [OF ascii_valid [OF this], of xs] Cons show ?case by simp
qed (simp add: valid_utf8_def)

lemma test_crypto_ok:
  "incremental (re_crypto test_renv)" "receipts_ok test_renv 0" "texts_ok (re_crypto test_renv)"
  "signatures_ok (re_crypto test_renv) (\<lambda>_. Some (replicate 64 (CHR ''A''))) (\<lambda>_ _ s. s = replicate 64 (CHR ''A''))"
proof -
  have lit: "valid_utf8 ''QUFB''" "CHR 0x0A \<notin> set hex_digits" "set ''00'' \<subseteq> set hex_digits"
    by (code_simp, simp_all add: hex_digits_def)
  have "filter (\<lambda>c. c \<in> set hex_digits) xs = xs" if "set xs \<subseteq> set hex_digits" for xs
    using that by (simp add: filter_id_conv subset_iff)
  moreover have "valid_utf8 (filter (\<lambda>c. c \<in> set hex_digits) xs)" for xs by (rule hex_valid) auto
  ultimately show "texts_ok (re_crypto test_renv)"
    using lit by (auto simp: texts_ok_def test_renv_def test_crypto_def)
  show "incremental (re_crypto test_renv)"
    using sample_crypto_incremental by (simp add: incremental_def test_renv_def test_crypto_def)
  show "receipts_ok test_renv 0" by (simp add: receipts_ok_def test_renv_def test_crypto_def sample_renv_def)
  show "signatures_ok (re_crypto test_renv) (\<lambda>_. Some (replicate 64 (CHR ''A''))) (\<lambda>_ _ s. s = replicate 64 (CHR ''A''))"
    by (simp add: signatures_ok_def test_renv_def test_crypto_def)
qed

lemma source_unit_tests_pass_witness:
  "fragmented_done_marker_preserves_bytes_and_hashes_payload_once test_renv 0 = Ok ()
    \<and> oversized_segment_is_sliced_to_fit_without_deadlock counting_ops (px_world (initial counting_ops 0 1)) (\<lambda>s. seg_bytes s = ''abcd'') = Ok ()"
proof -
  have "\<forall>pats \<in> set unit_test_rules. reference_build pats \<noteq> None" by (simp add: reference_build_def)
  from source_unit_tests_pass [OF builder_ok_reference this test_crypto_ok counting.semaphore_axioms]
  show ?thesis by blast
qed

end
