(* ===== verification/Benchmark.thy ===== *)
theory Benchmark
  imports Engine BudgetQueue
begin

text \<open>
  The benchmark of the redactor, \<open>benches/simd_throughput.rs\<close>: the payload, its chunks and one
  iteration. The loop that fills the payload may run forever, so it is a partial function: not
  returning is \<open>None\<close>.
\<close>

section \<open>The payload\<close>

definition PAYLOAD_BYTES :: nat where
  "PAYLOAD_BYTES = 10000000"

definition CHUNK_BYTES :: nat where
  "CHUNK_BYTES = 64 * 1024"

definition fragments :: "bytes list" where
  "fragments =
     [''customer=alice@example.com; '', ''password=correct-horse-battery-staple; '', ''ssn=123-45-6789; '',
      ''region='' @ [CHR 0xE6, CHR 0x9D, CHR 0xB1, CHR 0xE4, CHR 0xBA, CHR 0xAC] @ ''; status=active; '',
      ''token-abc123; user_42; '']"

text \<open>The inner loop, which a fragment that does not fit ends.\<close>

fun add_fragments :: "nat \<Rightarrow> bytes list \<Rightarrow> bytes \<Rightarrow> bytes" where
  "add_fragments limit [] payload = payload"
| "add_fragments limit (fragment # rest) payload =
     (let remaining = limit - length payload in
      if length fragment > remaining then payload else add_fragments limit rest (payload @ fragment))"

partial_function (option) fill :: "nat \<Rightarrow> bytes \<Rightarrow> bytes option" where
  "fill limit payload =
     (if length payload < limit then fill limit (add_fragments limit fragments payload) else Some payload)"

definition resize :: "nat \<Rightarrow> bytes \<Rightarrow> bytes" where
  "resize limit payload =
     (if length payload < limit then payload @ replicate (limit - length payload) (CHR ''x'') else payload)"

definition build_payload :: "nat \<Rightarrow> bytes option" where
  "build_payload limit = map_option (resize limit) (fill limit [])"

section \<open>Chunks and an iteration\<close>

definition build_chunks :: "bytes \<Rightarrow> bytes list" where
  "build_chunks payload =
     map (\<lambda>start. Prelude.slice payload start (min (start + CHUNK_BYTES) (length payload)))
       (step_by CHUNK_BYTES [0..<length payload])"

definition benchmark_vault :: "ac_builder \<Rightarrow> (bytes \<Rightarrow> bytes option) \<Rightarrow> (PiiVault, unit) outcome" where
  "benchmark_vault build to_string =
     PiiVault_new build to_string
       [''password'', ''email@example.com'', ''ssn-123-45-6789'', ''token-abc123'', ''user_42'']
       (replicate 5 ''[REDACTED]'')"

text \<open>The number of bytes one iteration puts out; an error of the redactor panics.\<close>

definition iteration :: "PiiVault \<Rightarrow> bytes list \<Rightarrow> (nat, unit) outcome" where
  "iteration vault chunks =
     obind (StreamRedactor_new vault) (\<lambda>redactor.
     case redact_stream redactor chunks of
       Ok outputs \<Rightarrow> Ok (sum_list (map (length \<circ> segment_bytes) outputs))
     | _ \<Rightarrow> Panic)"

definition benchmark_stream_redaction ::
  "ac_builder \<Rightarrow> (bytes \<Rightarrow> bytes option) \<Rightarrow> (nat, unit) outcome option" where
  "benchmark_stream_redaction build to_string =
     (case benchmark_vault build to_string of
        Ok vault \<Rightarrow> map_option (iteration vault \<circ> build_chunks) (build_payload PAYLOAD_BYTES)
      | _ \<Rightarrow> Some Panic)"

section \<open>The payload is never built\<close>

lemma fragment_lengths: "map length fragments = [28, 39, 17, 30, 23]"
  by (simp add: fragments_def)

text \<open>The length a round of the inner loop leaves, from the lengths of the fragments.\<close>

fun add_lengths :: "nat \<Rightarrow> nat list \<Rightarrow> nat \<Rightarrow> nat" where
  "add_lengths limit [] n = n"
| "add_lengths limit (k # ks) n = (if k > limit - n then n else add_lengths limit ks (n + k))"

lemma length_add_fragments: "length (add_fragments limit fs payload) = add_lengths limit (map length fs) (length payload)"
  by (induction fs arbitrary: payload) (auto simp: Let_def)

lemma add_lengths_fit: "n + sum_list ks \<le> limit \<Longrightarrow> add_lengths limit ks n = n + sum_list ks"
  by (induction ks arbitrary: n) auto

text \<open>A set of lengths below the limit that the inner loop does not leave is one the outer loop does not leave.\<close>

lemma fill_stuck:
  assumes "\<And>n. n \<in> N \<Longrightarrow> n < limit \<and> add_lengths limit [28, 39, 17, 30, 23] n \<in> N" and "length payload \<in> N"
  shows "fill limit payload = None"
proof -
  have "limit = limit \<longrightarrow> length payload \<notin> N" if "fill limit payload = Some p" for p
  proof (rule fill.raw_induct [where P = "\<lambda>l pl p. l = limit \<longrightarrow> length pl \<notin> N", OF _ that])
    fix f l pl p
    assume IH: "\<And>l pl p. f l pl = Some p \<Longrightarrow> l = limit \<longrightarrow> length pl \<notin> N"
      and run: "(if length pl < l then f l (add_fragments l fragments pl) else Some pl) = Some p"
    show "l = limit \<longrightarrow> length pl \<notin> N"
    proof (intro impI notI)
      assume l: "l = limit" and n: "length pl \<in> N"
      then have "f limit (add_fragments limit fragments pl) = Some p" using run assms(1) [OF n] by simp
      from IH [OF this] show False using assms(1) [OF n] by (simp add: length_add_fragments fragment_lengths)
    qed
  qed
  then show ?thesis using assms(2) by (cases "fill limit payload") auto
qed

text \<open>
  C33: The benchmark never starts. When the next fragment does not fit, the inner loop of \<open>build_payload\<close> is left
  without a change, and the outer loop goes on as long as a byte is missing: for ten million bytes
  twelve are missing after 72992 rounds and three fragments, no fragment is that short, and the loop
  never returns, so no iteration is ever run. For a length the fragments fill exactly it returns the payload.
\<close>
theorem benchmark_payload_never_built:
  "build_payload PAYLOAD_BYTES = None
    \<and> benchmark_stream_redaction build to_string \<in> {None, Some Panic}
    \<and> build_payload 137 = Some (concat fragments)"
proof -
  let ?N = "(\<lambda>k. 137 * k) ` {..72992} \<union> {9999988 :: nat}"
  have closed: "n < PAYLOAD_BYTES \<and> add_lengths PAYLOAD_BYTES [28, 39, 17, 30, 23] n \<in> ?N" if "n \<in> ?N" for n
  proof -
    from that obtain k where "n = 137 * k \<and> k \<le> 72992 \<or> n = 9999988" by auto
    then consider (round) "n = 137 * k" "k < 72992" | (part) "n = 9999904" | (stuck) "n = 9999988"
      by (auto simp: le_less)
    then show ?thesis
    proof cases
      case round
      then have "n + 137 \<le> PAYLOAD_BYTES" by (simp add: PAYLOAD_BYTES_def)
      then have "n < PAYLOAD_BYTES" "add_lengths PAYLOAD_BYTES [28, 39, 17, 30, 23] n = 137 * Suc k"
        using round add_lengths_fit [of n "[28, 39, 17, 30, 23]" PAYLOAD_BYTES] by simp_all
      then show ?thesis using round(2) by (metis UnI1 atMost_iff image_eqI Suc_leI)
    qed (simp_all add: PAYLOAD_BYTES_def)
  qed
  have none: "build_payload PAYLOAD_BYTES = None"
    unfolding build_payload_def using fill_stuck [OF closed, of "[]"] by force
  have "benchmark_stream_redaction build to_string \<in> {None, Some Panic}"
    using none by (cases "benchmark_vault build to_string") (simp_all add: benchmark_stream_redaction_def)
  moreover have "build_payload 137 = Some (concat fragments)"
    by (simp add: build_payload_def fill.simps fragments_def resize_def)
  ultimately show ?thesis using none by blast
qed

end
