(* ===== verification/Spec2Isabelle.thy ===== *)
theory Spec2Isabelle
  imports Redaction Detection BudgetFlow Admission Delivery Config Startup Lifecycle Shutdown HostRelay HostBridge Domain TlsListener
    Conformance Watchers StreamLimit UnitTests Benchmark
begin

text \<open>
  Verification of the zero-copy PII proxy, \<open>src/\<close>. The program is an HTTP proxy in front of a language model
  API that runs in a Nitro enclave: it authenticates tenants, forwards their requests, replaces
  configured patterns in the streamed answers, and puts a signed receipt in front of the end marker of
  an event stream. Programs on the parent host connect the enclave with the clients and with KMS.

  \<^bold>\<open>Parts and theories\<close>, in the order in which they depend on each other:

  \<^item> \<open>Prelude\<close>, \<open>Utf8\<close>, \<open>RustStr\<close>: results of calls (\<open>Ok\<close>, \<open>Err\<close>, \<open>Panic\<close>), slices and searches of byte strings, the
    loops over events, and what the source uses of Rust's \<open>str\<close> (UTF-8 validation with the position of the
    error, \<open>trim\<close>, \<open>split\<close>, \<open>lines\<close>, \<open>split_whitespace\<close>, numbers). A byte is a \<open>char\<close>, a string its UTF-8 bytes.
  \<^item> \<open>Search\<close>, \<open>Engine\<close>, \<open>Redaction\<close>: \<open>engine.rs\<close>. \<open>Search\<close> states the contract of the Aho-Corasick automaton
    (locale \<open>searcher\<close>, interpreted on an executable search) and when occurrences cannot overlap;
    \<open>Engine\<close> has the rule sets, \<open>redact_text\<close> and \<open>StreamRedactor\<close>; \<open>Redaction\<close> shows that streaming equals one-shot
    redaction for every chunking (under stated conditions on rules and text), that no forwarded segment contains a
    non-empty pattern, when errors occur, how much
    is held back, and two inputs on which the streaming redaction leaks.
  \<^item> \<open>Receipt\<close>, \<open>DoneDetector\<close>, \<open>Detection\<close>: \<open>lib.rs\<close>, receipts and \<open>DoneDetector\<close>. The detector forwards every byte
    (through the locale \<open>byte_stage\<close>), places one receipt in front of the marker, and the digest binds
    all fields; two results show what the payload hash and the search miss.
  \<^item> \<open>BudgetQueue\<close>, \<open>BudgetFlow\<close>: \<open>budget_queue.rs\<close>. Budgets over a store of shared semaphores (locale \<open>semaphore\<close>), the
    segments, \<open>enqueue\<close> and the response body; a step relation of all tasks with conservation of permits,
    bounds on what is queued, and isolation of tenants.
  \<^item> \<open>Gateway\<close>, \<open>Admission\<close>: \<open>lib.rs\<close>, handlers, middlewares and \<open>make_router\<close>. A middleware is a \<open>guard\<close> (locale, with
    \<open>guard_stack\<close> for composition); the theorems say who reaches which handler and what a request may change, with
    the proxy handler of \<open>StreamTask\<close> behind the router and the request-id layer as documented (\<open>id_layer\<close>).
  \<^item> \<open>StreamTask\<close>, \<open>Delivery\<close>: \<open>lib.rs\<close>, \<open>proxy_with_upstream\<close> and the spawned task, driven by a list of upstream
    chunks, errors and the shutdown signal; the queue behind it is the locale \<open>downstream\<close>, interpreted on
    the budgeted queue and on an ideal one. End-to-end theorems for event streams and other responses,
    and a refinement: whatever fails, the client gets a prefix of the ideal output and at most one error frame.
    The request sent upstream is built as in the code, and carries no credential of the client.
  \<^item> \<open>StreamLimit\<close>: \<open>lib.rs\<close>, the limit of 1000 streams, the counter of active streams and its gauge, as a step relation of all
    concurrent requests with cancellation at every wait: permits are conserved and the counter never underflows,
    but the published gauge may stay wrong.
  \<^item> \<open>Config\<close>: \<open>main.rs\<close>, the rules and token files and the loops of the two watchers. \<open>Watchers\<close>: the threads around
    them, with the paths of \<open>std\<close> and the choice of the events that concern a file; a relative path is never
    reloaded, and a blank rules file turns the redaction off. \<open>StrTyping\<close>: the operations on strings give strings,
    so that rules read from files are valid UTF-8.
  \<^item> \<open>Attestation\<close>: \<open>attestation.rs\<close>, \<open>bootloader.rs\<close>, \<open>vsock_bridge.rs\<close>. The trait \<open>KmsProvider\<close> is the locale
    \<open>kms_provider\<close>, interpreted on its three implementations; in the enclave a secret is returned exactly when it came
    through a freshly attested key.
  \<^item> \<open>Startup\<close>, \<open>Lifecycle\<close>: \<open>main\<close> of \<open>main.rs\<close> up to the router, and the running proxy as a step relation over
    the state that the router and the watchers share, with the router around the code's proxy handler. The start
    succeeds exactly when every secret was obtained. The theorems below span these components.
  \<^item> \<open>Shutdown\<close>: the rest of \<open>main\<close>, \<open>shutdown_signal\<close> and \<open>build_tls_acceptor\<close>: a process with a clock whose steps are the
    signal, the connections, the blocking tasks of requests, the watchdog and the end of the runtime. A process without
    watchers ends in time unless such a task outlives \<open>main\<close>; one with watchers ends only by force.
  \<^item> \<open>HostRelay\<close>: \<open>vsock_host_bridge.rs\<close> and \<open>bin/host_relay.rs\<close>; \<open>HostBridge\<close>: \<open>bin/vsock_host_bridge.rs\<close>. The
    automaton that finds the end of the headers, the hosts that are approved, the actions on a connection, and
    the command line.
  \<^item> \<open>Domain\<close>: \<open>domain.rs\<close>, the per-choice buffers as an implementation (locale \<open>implements\<close>) of independent ones, within the
    room of the allocator.
  \<^item> \<open>TlsListener\<close>: \<open>tls.rs\<close>, the accept loop.
  \<^item> \<open>Conformance\<close>: the fuzz target and the tests inside \<open>lib.rs\<close>, \<open>engine.rs\<close> and \<open>budget_queue.rs\<close> as definitions on the
    model, with what they return on every input. \<open>UnitTests\<close> has the tests at the end of \<open>lib.rs\<close> and the slicing test of
    \<open>budget_queue.rs\<close>, and the lemma that all unit tests pass.
  \<^item> \<open>Benchmark\<close>: \<open>benches/simd_throughput.rs\<close>; the loop that fills its payload does not return.

  \<^bold>\<open>What is a parameter.\<close> Code outside \<open>src/\<close> is an argument: the automaton builder, serde, BLAKE3, Ed25519, base 64 and
  hexadecimal, axum's routing and header values, tokio's semaphores, channels and timers, NSM, RSA, KMS, CBOR, the
  parsers of IP and socket addresses, files, environment variables and sockets. What the code relies
  on is a named hypothesis of the theorems that need it: \<open>builder_ok\<close> (ordered matches that miss no occurrence, in
  any ASCII case), \<open>incremental\<close> (hashing pieces is hashing their concatenation), \<open>receipts_ok\<close> (a receipt serialises),
  \<open>semaphore\<close>, \<open>downstream\<close>, \<open>id_layer\<close> (the request-id layer sets the identifier and nothing else), \<open>ip_syntax\<close>,
  \<open>resolver_contract\<close>, \<open>reports_in\<close> (notifications name entries of the watched directory by absolute paths), \<open>signatures_ok\<close> and
  \<open>texts_ok\<close> (signatures verify; digests are hexadecimal and receipts compact JSON). Every theorem with hypotheses has a witness that applies it at a concrete input.

  \<^bold>\<open>Loops and bounds.\<close> Loops are structural recursions over the events they consume, or recursions with a measure
  (\<open>strip_front\<close>, \<open>split_whitespace\<close>, \<open>accept\<close>, \<open>read_localstack_ciphertext\<close>, UTF-8 validation); no
  definition uses fuel, and the one loop that does not end (\<open>fill\<close> in \<open>Benchmark\<close>) is a partial function with the value
  \<open>None\<close>. The constants are those of the code: 65536 bytes of redaction buffer, 12 bytes of end
  marker of which 11 are held, 110 seconds of shutdown timeout and 3 more, 4 reads of a changed file, 10 reads of the LocalStack fixture, 4096 bytes of CONNECT
  headers, 2 MiB of request body, 1000 upstream streams. \<open>usize\<close> is \<open>nat\<close>, with the overflow of \<open>ensure_choice\<close> and the memory for its pushes written out; identifiers and
  ports of VSOCK are 32-bit words, and lengths in receipts 64-bit words.

  Times are milliseconds; the clock of \<open>Shutdown\<close> moves only when no task can run, and a sleep beyond the range of
  the clock, which tokio shortens to thirty years, is not distinguished.

  \<^bold>\<open>Not modelled:\<close> the concurrency limit of tower, the metrics recorder and the log subscriber, the serde data contracts
  of \<open>domain.rs\<close> (derived code that nothing calls), the commented-out copy of the start in \<open>main.rs\<close>, zeroising of memory, logs and
  metrics other than the gauge of active streams, the integration tests, which talk to a server over sockets, and
  deployment files. The shutdown handler of \<open>bin/vsock_host_bridge.rs\<close> is never called. Asynchronous tasks are sequences of their steps; timers and
  errors of the environment may occur at any step.
\<close>

section \<open>The proxy from its start\<close>

text \<open>
  C3: Access follows the token file. From a successful start on, whatever notifications, requests and signals
  arrive in whatever order, the keyring is that of the token file in force, the last one read that
  names a token; the administrator's hash and the origins stay those of the start. So a request to
  the completions route whose token does not hash like one of the lines of that file is answered the same by
  the router with the code's proxy handler as with any other handler in its place: a revoked token is locked out by the
  first file without it. The layer that gives the request an identifier is any that behaves as documented.
\<close>
theorem access_follows_token_file:
  assumes "main mc pr = (pr', Ok b)" and "mc_hash mc = token_hash (dp_lib dp)" and "px_run dp (from_boot b) evs px"
  shows "\<exists>initial. snd (auth_source mc pr) = Ok (initial, bt_watched_tokens b)
    \<and> (let hash = token_hash (dp_lib dp); tokens = tokens_in_force hash initial evs in
       as_auth_keyring (px_app px) = hash_keyring hash tokens
       \<and> as_admin_bearer_token_hash (px_app px) = as_admin_bearer_token_hash (bt_app b)
       \<and> as_allowed_origins (px_app px) = as_allowed_origins (bt_app b)
       \<and> (\<forall>req ce token other. dp_route dp (rq_method req) (rq_path req) = Completions \<and> id_layer (ce_set_id ce)
            \<and> bearer_token (dp_lib dp) req = Some token
            \<and> hash token \<notin> hash ` set (map trim (lines tokens))
            \<longrightarrow> serve_request dp ce (px_app px) req = router dp (ce_set_id ce) other (px_app px) req))"
proof -
  obtain vault document initial token_file admin_token client where m:
    "snd (auth_source mc pr) = Ok (initial, token_file)"
    "b = boot_state mc pr' vault document initial token_file admin_token client"
    by (rule main_Ok [OF assms(1)])
  let ?hash = "token_hash (dp_lib dp)"
  have "as_auth_keyring (px_app (from_boot b)) = hash_keyring ?hash initial" and tf: "bt_watched_tokens b = token_file"
    by (simp_all add: m(2) from_boot_def boot_state_def assms(2))
  from run_keyring [OF assms(3) this(1)] have run:
    "as_auth_keyring (px_app px) = hash_keyring ?hash (tokens_in_force ?hash initial evs)"
    "as_admin_bearer_token_hash (px_app px) = as_admin_bearer_token_hash (bt_app b)"
    "as_allowed_origins (px_app px) = as_allowed_origins (bt_app b)"
    by (simp_all add: from_boot_def)
  have "serve_request dp ce (px_app px) req = router dp (ce_set_id ce) other (px_app px) req"
    if h: "dp_route dp (rq_method req) (rq_path req) = Completions" "id_layer (ce_set_id ce)"
      "bearer_token (dp_lib dp) req = Some token"
      "?hash token \<notin> ?hash ` set (map trim (lines (tokens_in_force ?hash initial evs)))" for req token other
      and ce :: "('x, 'y) call_env"
  proof -
    have "?hash token \<notin> set (as_auth_keyring (px_app px))" using h(4) by (auto simp: run(1) hash_keyring_def)
    then show ?thesis unfolding serve_request_def router_def using h by (intro unauthorised_request_ignored) auto
  qed
  with m(1) tf run show ?thesis by (auto simp: Let_def)
qed

definition sample_deployment :: deployment where
  "sample_deployment = \<lparr>dp_lib = sample_lib, dp_build = reference_build, dp_to_string = Some, dp_attest = Inr,
     dp_route = lookup_route, dp_propagate_id = (\<lambda>_ r. r)\<rparr>"

lemma sample_hash: "mc_hash sample_machine = token_hash (dp_lib sample_deployment)"
  by (simp add: sample_machine_def sample_deployment_def sample_lib_def)

text \<open>The token \<open>t\<close> of the start is replaced by \<open>u\<close>, after a request of the tenant.\<close>

definition sample_events :: "(bytes, bytes) px_event list" where
  "sample_events = [Request (sample_request ''/v1/chat/completions'' ''t'') (sample_call 200), Tokens_changed (Changed [Some ''u''])]"

lemma sample_run:
  assumes "bt_watched_tokens b = Some path"
  shows "\<exists>px. px_run sample_deployment (from_boot b) sample_events px"
proof -
  let ?req = "Request (sample_request ''/v1/chat/completions'' ''t'') (sample_call 200)"
  have "px_run sample_deployment (from_boot b) ([] @ [?req]) ((from_boot b)\<lparr>px_app :=
      fst (serve_request sample_deployment (sample_call 200) (px_app (from_boot b)) (sample_request ''/v1/chat/completions'' ''t''))\<rparr>)"
    by (rule px_run.more [OF px_run.none px_step.request])
  from px_run.more [OF this px_step.tokens] assms show ?thesis by (auto simp: sample_events_def from_boot_def)
qed

theorem access_follows_token_file_witness:
  "\<exists>b px. main sample_machine sample_process = (sample_process, Ok b)
    \<and> px_run sample_deployment (from_boot b) sample_events px
    \<and> as_auth_keyring (px_app px) = [''u#'']
    \<and> serve_request sample_deployment (sample_call 200) (px_app px) (sample_request ''/v1/chat/completions'' ''t'')
      = router sample_deployment sample_set_id (\<lambda>st req. (st, status_response 500)) (px_app px)
          (sample_request ''/v1/chat/completions'' ''t'')"
proof -
  obtain b where b: "main sample_machine sample_process = (sample_process, Ok b)" "bt_watched_tokens b = Some ''tokens''"
    using sample_main by blast
  obtain px where px: "px_run sample_deployment (from_boot b) sample_events px"
    using sample_run [OF b(2)] by blast
  let ?hash = "token_hash (dp_lib sample_deployment)" and ?req = "sample_request ''/v1/chat/completions'' ''t''"
  have "hash_keyring (\<lambda>t. t @ ''#'') ''u'' = [''u#'']"
    "read_contents [Changed [Some ''u'']] = [''u'']"
    and lines: "map trim (lines ''u'') = [''u'']" by code_simp+
  then have "tokens_in_force ?hash i sample_events = ''u''" "hash_keyring ?hash ''u'' = [''u#'']" for i
    by (simp_all add: tokens_in_force_def sample_events_def sample_deployment_def sample_lib_def)
  note force = this
  from access_follows_token_file [OF b(1) sample_hash px] obtain i where
    acc: "let tokens = tokens_in_force ?hash i sample_events in
      as_auth_keyring (px_app px) = hash_keyring ?hash tokens
      \<and> (\<forall>req ce token other. dp_route sample_deployment (rq_method req) (rq_path req) = Completions
           \<and> id_layer (ce_set_id (ce :: (bytes, bytes) call_env)) \<and> bearer_token (dp_lib sample_deployment) req = Some token
           \<and> ?hash token \<notin> ?hash ` set (map trim (lines tokens))
           \<longrightarrow> serve_request sample_deployment ce (px_app px) req = router sample_deployment (ce_set_id ce) other (px_app px) req)"
    unfolding Let_def by blast
  have k: "as_auth_keyring (px_app px) = [''u#'']" using acc unfolding Let_def force by blast
  have id: "ce_set_id (sample_call 200) = sample_set_id" by (simp add: sample_call_def)
  have "dp_route sample_deployment (rq_method ?req) (rq_path ?req) = Completions" "id_layer (ce_set_id (sample_call 200))"
    "bearer_token (dp_lib sample_deployment) ?req = Some ''t''" "?hash ''t'' \<notin> ?hash ` set (map trim (lines ''u''))"
    by (simp_all only: lines id sample_id_layer) (simp_all add: sample_deployment_def sample_http)
  then have "serve_request sample_deployment (sample_call 200) (px_app px) ?req
      = router sample_deployment sample_set_id (\<lambda>st req. (st, status_response 500)) (px_app px) ?req"
    using acc unfolding Let_def force id [symmetric] by blast
  with b(1) px k show ?thesis by blast
qed

text \<open>
  With a relative path of the token file and no \<open>..data\<close> link, the proxy keeps the keyring of its start
  whatever is written to the file: no token is ever revoked.
\<close>

lemma relative_token_file_kept:
  assumes "main mc pr = (pr', Ok b)" and "mc_hash mc = token_hash (dp_lib dp)"
    and "px_run dp (from_boot b) evs px"
    and "bt_watched_tokens b = Some path" and "file_name (components path) = Some name" and "\<not> prefix ''/'' path"
    and "has_root cwd"
    and notified: "\<And>fev. Tokens_changed fev \<in> set evs \<Longrightarrow> \<exists>nev. fev = file_event_of (components path) nev
      \<and> reports_in (join cwd (watch_directory (components path))) nev
      \<and> (case nev of Notify_error \<Rightarrow> True | Event paths reads \<Rightarrow> \<forall>p \<in> set paths. last p \<noteq> Normal ''..data'')"
  shows "as_auth_keyring (px_app px) = as_auth_keyring (bt_app b)"
proof -
  obtain vault document initial token_file admin_token client where
    b: "b = boot_state mc pr' vault document initial token_file admin_token client"
    by (rule main_Ok [OF assms(1)])
  let ?hash = "token_hash (dp_lib dp)"
  have start: "as_auth_keyring (bt_app b) = hash_keyring ?hash initial"
    by (simp add: b boot_state_def assms(2))
  have "event_contents fev = []" if "Tokens_changed fev \<in> set evs" for fev
    using notified [OF that] relative_event_contents [OF assms(5,7,6)] by auto
  moreover have "Tokens_changed fev \<in> set evs" if "fev \<in> set (token_events ev)" "ev \<in> set evs" for fev ev
    using that by (cases ev) simp_all
  ultimately have "\<forall>fev \<in> set (concat (map token_events evs)). event_contents fev = []" by auto
  then have "read_contents (concat (map token_events evs)) = []" by (simp add: read_contents_def)
  then have "tokens_in_force ?hash initial evs = initial" by (simp add: tokens_in_force_def)
  then show ?thesis using run_keyring(1) [OF assms(3), of initial] start by (simp add: from_boot_def)
qed

text \<open>
  C35: The rules in force have an origin. At any time while the proxy runs, the rules that streams
  are redacted with are the ones of the start, or the ones of a rules file that was read, or exactly the patterns that
  the JSON body of a request to the rules route with the administrator's token named, at least one,
  each replaced by \<open>[REDACTED]\<close>.
\<close>
theorem rules_have_an_origin:
  assumes "main mc pr = (pr', Ok b)" and "px_run dp (from_boot b) evs px"
  shows "(es_patterns (as_engine_state (px_app px)), es_replacements (as_engine_state (px_app px))) = parse_pii_config (pii_source mc pr)
    \<or> (\<exists>fev c. Rules_changed fev \<in> set evs \<and> c \<in> set (event_contents fev)
         \<and> (es_patterns (as_engine_state (px_app px)), es_replacements (as_engine_state (px_app px))) = parse_pii_config c)
    \<or> (\<exists>req ce token patterns. Request req ce \<in> set evs
         \<and> dp_route dp (rq_method (ce_set_id ce req)) (rq_path (ce_set_id ce req)) = Rules
         \<and> bearer_token (dp_lib dp) (ce_set_id ce req) = Some token
         \<and> token_hash (dp_lib dp) token = as_admin_bearer_token_hash (bt_app b)
         \<and> json_rules (dp_lib dp) (handled_request (ce_set_id ce) req) = Inr patterns \<and> patterns \<noteq> []
         \<and> es_patterns (as_engine_state (px_app px)) = patterns
         \<and> es_replacements (as_engine_state (px_app px)) = map (\<lambda>_. ''[REDACTED]'') patterns)"
proof -
  obtain vault document initial token_file admin_token client where m:
    "initial_vault mc pr = Ok vault"
    "b = boot_state mc pr' vault document initial token_file admin_token client"
    by (rule main_Ok [OF assms(1)])
  let ?e = "as_engine_state (px_app px)"
  have new: "es_patterns e = ps \<and> es_replacements e = rs"
    if "EngineState_new build ps rs = (Ok e :: (EngineState, unit) outcome)" for build ps rs e
    using that by (auto simp: EngineState_new_def)
  from run_rules [OF assms(2)] consider
    (start) "?e = as_engine_state (bt_app b)"
    | (event) ev where "ev \<in> set evs" "rules_origin dp (from_boot b) ev ?e"
    by (auto simp: from_boot_def)
  then show ?thesis
  proof cases
    case start
    then show ?thesis using initial_vault_agrees(2) [OF m(1)] by (simp add: m(2) boot_state_def)
  next
    case (event ev)
    show ?thesis
    proof (cases ev)
      case (Rules_changed fev)
      then show ?thesis using event new by (fastforce simp: rules_origin_def file_engine_def)
    next
      case (Request req ce)
      with event(2) obtain token patterns where
        "dp_route dp (rq_method (ce_set_id ce req)) (rq_path (ce_set_id ce req)) = Rules"
        "bearer_token (dp_lib dp) (ce_set_id ce req) = Some token"
        "token_hash (dp_lib dp) token = as_admin_bearer_token_hash (bt_app b)"
        "json_rules (dp_lib dp) (handled_request (ce_set_id ce) req) = Inr patterns" "patterns \<noteq> []"
        and e: "admin_engine (dp_build dp) patterns = Ok ?e"
        by (auto simp: rules_origin_def from_boot_def)
      with event(1) Request new [OF e [unfolded admin_engine_def]] show ?thesis by blast
    qed (use event in \<open>simp_all add: rules_origin_def\<close>)
  qed
qed

text \<open>An administrator's request replaces the rules of the start.\<close>

theorem rules_have_an_origin_witness:
  "\<exists>b px req token. main sample_machine sample_process = (sample_process, Ok b)
    \<and> px_run sample_deployment (from_boot b) [Request req (sample_call 200)] px
    \<and> es_patterns (as_engine_state (px_app px)) = [''ssn''] \<and> bearer_token sample_lib (sample_set_id req) = Some token
    \<and> token_hash sample_lib token = as_admin_bearer_token_hash (bt_app b)
    \<and> json_rules sample_lib (handled_request sample_set_id req) = Inr [''ssn'']"
proof -
  obtain b where b: "main sample_machine sample_process = (sample_process, Ok b)" using sample_main by blast
  have boot: "as_admin_bearer_token_hash (bt_app b) = ''admin#'' \<and> as_allowed_origins (bt_app b) = []"
    by (rule main_Ok [OF b]) (simp add: boot_state_def sample_machine_def sample_process_def parse_allowed_origins_def)
  let ?req = "(sample_request ''/_admin/rules'' ''admin'')\<lparr>rq_headers := [(''authorization'', ''Bearer admin'')]\<rparr>"
  let ?px = "(from_boot b)\<lparr>px_app := fst (serve_request sample_deployment (sample_call 200) (px_app (from_boot b)) ?req)\<rparr>"
  have run: "px_run sample_deployment (from_boot b) [Request ?req (sample_call 200)] ?px"
    using px_run.more [OF px_run.none px_step.request] by (metis append_Nil)
  have new: "es_patterns (as_engine_state (px_app ?px)) = [''ssn'']"
    by (simp add: serve_request_def router_def sample_deployment_def sample_call_def from_boot_def make_router_def
        cors_middleware_def enforce_body_limit_def routes_def auth_middleware_def rules_handler_def update_rules_def
        EngineState_new_def build_redaction_dfa_eq expect_def reference_build_def sample_http boot Let_def)
  have rules: "fst (parse_pii_config ''password,secret,ssn'') = [''password'', ''secret'', ''ssn'']" by code_simp
  have src: "pii_source sample_machine sample_process = ''password,secret,ssn''"
    by (simp add: pii_source_def sample_process_def)
  have "es_patterns (as_engine_state (px_app ?px)) \<noteq> fst (parse_pii_config (pii_source sample_machine sample_process))"
    unfolding src new rules by simp
  then have "(es_patterns (as_engine_state (px_app ?px)), es_replacements (as_engine_state (px_app ?px)))
      \<noteq> parse_pii_config (pii_source sample_machine sample_process)"
    by (metis fst_conv)
  with rules_have_an_origin [OF b run] obtain token where
    "bearer_token (dp_lib sample_deployment) (ce_set_id (sample_call 200) ?req) = Some token"
    "token_hash (dp_lib sample_deployment) token = as_admin_bearer_token_hash (bt_app b)"
    "json_rules (dp_lib sample_deployment) (handled_request (ce_set_id (sample_call 200)) ?req) = Inr [''ssn'']"
    unfolding new by (auto split: if_splits)
  then have "bearer_token sample_lib (sample_set_id ?req) = Some token"
    "token_hash sample_lib token = as_admin_bearer_token_hash (bt_app b)"
    "json_rules sample_lib (handled_request sample_set_id ?req) = Inr [''ssn'']"
    by (simp_all add: sample_deployment_def sample_call_def)
  with b run new show ?thesis by blast
qed

text \<open>
  C18: The engine is well-typed whenever the proxy runs. If what is read as strings are strings, the
  rules in force are at every moment, through any reloads and updates, patterns that are valid UTF-8
  with one replacement each, a longest length that is right, and an automaton for exactly these
  patterns. These are the assumptions of the theorems on redaction; hence at every moment a stream that
  starts then fails exactly when the response is not UTF-8, provided its buffer holds the longest rule.
\<close>
theorem running_engine_well_typed:
  assumes "main mc pr = (pr', Ok b)" and "px_run dp (from_boot b) evs px"
    and "builder_ok (mc_build mc)" and "builder_ok (dp_build dp)"
    and "machine_text mc pr" and "json_text (dp_lib dp)" and "list_all px_event_text evs"
  shows "engine_ok (as_engine_state (px_app px))
    \<and> (max_len (es_patterns (as_engine_state (px_app px))) + 3 \<le> DEFAULT_MAX_BUFFER_CAPACITY \<longrightarrow>
        (\<exists>redactor. from_state (as_engine_state (px_app px)) = (Ok redactor :: (StreamRedactor, unit) outcome)
          \<and> ((\<exists>out. redact_stream redactor chunks = Ok out) \<longleftrightarrow> valid_utf8 (concat chunks))))"
proof -
  obtain vault document initial token_file admin_token client where m:
    "initial_vault mc pr = Ok vault"
    "b = boot_state mc pr' vault document initial token_file admin_token client"
    by (rule main_Ok [OF assms(1)])
  let ?e = "as_engine_state (px_app px)"
  have "engine_ok (as_engine_state (bt_app b))"
    using initial_engine_ok [OF assms(3,5) m(1)] by (simp add: m(2) boot_state_def)
  then have ok: "engine_ok ?e"
    using run_rules [OF assms(2)] rules_origin_ok [OF _ assms(4,6)] assms(7)
    by (auto simp: from_boot_def list_all_iff)
  moreover have "from_state ?e = (Ok \<lparr>sr_state = ?e, sr_pending = [], sr_max_capacity = DEFAULT_MAX_BUFFER_CAPACITY\<rparr>
      :: (StreamRedactor, unit) outcome)"
    by (simp add: from_state_def with_state_max_capacity_def DEFAULT_MAX_BUFFER_CAPACITY_def)
  ultimately show ?thesis using redact_stream_outcome [OF ok] unfolding from_state_def by blast
qed

theorem running_engine_well_typed_witness:
  "\<exists>b px. main sample_machine sample_process = (sample_process, Ok b)
    \<and> px_run sample_deployment (from_boot b) sample_events px
    \<and> engine_ok (as_engine_state (px_app px))"
proof -
  obtain b where b: "main sample_machine sample_process = (sample_process, Ok b)" "bt_watched_tokens b = Some ''tokens''"
    using sample_main by blast
  obtain px where px: "px_run sample_deployment (from_boot b) sample_events px"
    using sample_run [OF b(2)] by blast
  have texts: "list_all valid_utf8 [''t'', ''key'', ''0'', ''admin'', ''tokens'', ''u'', ''ssn'']" by code_simp
  then have "machine_text sample_machine sample_process" "json_text (dp_lib sample_deployment)"
    "list_all px_event_text sample_events"
    by (auto simp: machine_text_def sample_machine_def sample_process_def json_text_def sample_deployment_def
        sample_lib_def sample_events_def split: if_splits)
  moreover have "builder_ok (mc_build sample_machine)" "builder_ok (dp_build sample_deployment)"
    by (simp_all add: sample_machine_def sample_deployment_def builder_ok_reference)
  ultimately have "engine_ok (as_engine_state (px_app px))"
    using running_engine_well_typed [OF b(1) px] by blast
  with b(1) px show ?thesis by blast
qed

end
